(* ===== verification/Ia64_Prelude.thy ===== *)
theory Ia64_Prelude
  imports Main "HOL-Library.Word"
begin

text \<open>
  Shared vocabulary of the development: the C integer types of the emulator as words,
  the collections of rewrite rules the component theories extend, and the generic facts
  on words, bits and lists that their proofs use.
\<close>

unbundle bit_operations_syntax

type_synonym u8 = "8 word"
type_synonym u16 = "16 word"
type_synonym u32 = "32 word"
type_synonym u64 = "64 word"

named_theorems bit_tests \<open>bit-level descriptions of the model's word expressions\<close>
named_theorems lane_simps \<open>lane-level descriptions of the packed integer operations\<close>

section \<open>Masks and flag tests\<close>

text \<open>The C idiom \<open>((uint64_t)1 << n) - 1\<close>.\<close>

lemma low_mask_eq: "push_bit n (1 :: 'a :: len word) - 1 = mask n"
  by (simp add: mask_eq_exp_minus_1)

lemma and_low_mask: "w AND (push_bit n 1 - 1) = take_bit n (w :: 'a :: len word)"
  by (simp only: low_mask_eq take_bit_eq_mask)

lemma and_exp_minus_1 [simp]: "w AND (2 ^ n - 1) = take_bit n (w :: 'a :: len word)"
  using and_low_mask [of w n] by simp

lemma bit_word_lt_length: "bit (w :: 'a :: len word) n \<Longrightarrow> n < LENGTH('a)"
  by (rule bit_imp_le_length)

lemma and_shifted_one_eq_0_iff:
  "(w AND push_bit n 1 = 0) \<longleftrightarrow> \<not> bit (w :: 'a :: len word) n"
proof
  assume eq0: "w AND push_bit n 1 = 0"
  show "\<not> bit w n"
  proof
    assume b: "bit w n"
    then have "n < LENGTH('a)" by (rule bit_word_lt_length)
    with b have "bit (w AND push_bit n 1) n"
      by (simp add: bit_and_iff bit_exp_iff)
    with eq0 show False by simp
  qed
next
  assume "\<not> bit w n"
  then show "w AND push_bit n 1 = 0"
    by (auto intro!: bit_word_eqI simp: bit_and_iff bit_exp_iff)
qed

lemma unat_u64_less: "unat (w :: u64) < 2 ^ 64"
  using unsigned_less [of w] by simp

lemma take_bit_small: "unat w < 2 ^ n \<Longrightarrow> take_bit n w = (w :: 'a :: len word)"
  by (simp add: word_unat_eq_iff unsigned_take_bit_eq take_bit_nat_eq_self)

section \<open>Accumulating loops\<close>

text \<open>
  The accumulator loop \<open>for (i = 0; i < n; i++) result |= f(i);\<close>, starting at zero.
\<close>

primrec or_loop :: "nat \<Rightarrow> (nat \<Rightarrow> u64) \<Rightarrow> u64" where
  "or_loop 0 f = 0"
| "or_loop (Suc n) f = or_loop n f OR f n"

lemma bit_or_loop [bit_tests]: "bit (or_loop n f) k \<longleftrightarrow> (\<exists>i<n. bit (f i) k)"
  by (induction n) (auto simp: bit_or_iff less_Suc_eq)

text \<open>The accumulator loop \<open>for (i = 0; i < n; i++) sum += f(i);\<close>, starting at zero.\<close>

primrec add_loop :: "nat \<Rightarrow> (nat \<Rightarrow> u64) \<Rightarrow> u64" where
  "add_loop 0 f = 0"
| "add_loop (Suc n) f = add_loop n f + f n"

lemma unat_add_loop:
  assumes "\<forall>i<n. unat (f i) \<le> B" and "n * B < 2 ^ 64"
  shows "unat (add_loop n f) = (\<Sum>i<n. unat (f i)) \<and> unat (add_loop n f) \<le> n * B"
  using assms
proof (induction n)
  case 0
  then show ?case by simp
next
  case (Suc n)
  then have IH: "unat (add_loop n f) = (\<Sum>i<n. unat (f i))" "unat (add_loop n f) \<le> n * B"
    by auto
  from Suc.prems have "unat (f n) \<le> B" by simp
  with IH Suc.prems(2) have small: "unat (add_loop n f) + unat (f n) < 2 ^ 64"
    by simp
  then have "unat (add_loop n f + f n) = unat (add_loop n f) + unat (f n)"
    by (simp add: unat_word_ariths)
  with IH \<open>unat (f n) \<le> B\<close> show ?case by simp
qed

lemma find_upt_Some:
  assumes "List.find P [0..<n] = Some k"
  shows "k < n \<and> P k \<and> (\<forall>j<k. \<not> P j)"
proof -
  from assms obtain i where i: "i < n" "P i" "k = i" "\<forall>j<i. \<not> P j"
    by (auto simp: find_Some_iff)
  then show ?thesis by simp
qed

lemma find_upt_None: "List.find P [0..<n] = None \<longleftrightarrow> (\<forall>i<n. \<not> P i)"
  by (auto simp: find_None_iff)

section \<open>Scanning a bitmap\<close>

text \<open>
  \<^verbatim>\<open>ctz32\<close> and \<^verbatim>\<open>ctz64\<close> count the trailing zeros of a word, its width for zero.  The loop
  \<^verbatim>\<open>while (occupied) { i = ctz32(occupied); occupied &= occupied - 1; ... }\<close> visits the set
  bits in ascending order.
\<close>

definition ctz_word :: "'a :: len word \<Rightarrow> nat" where
  "ctz_word w = (case List.find (bit w) [0..<LENGTH('a)] of Some i \<Rightarrow> i | None \<Rightarrow> LENGTH('a))"

lemma ctz_word_props:
  assumes "w \<noteq> (0 :: 'a :: len word)"
  shows "ctz_word w < LENGTH('a)" "bit w (ctz_word w)" "j < ctz_word w \<Longrightarrow> \<not> bit w j"
proof -
  from assms obtain n where n: "bit w n" "n < LENGTH('a)"
    using bit_word_lt_length [where w = w] by (auto simp: bit_eq_iff)
  then have "List.find (bit w) [0..<LENGTH('a)] \<noteq> None" by (auto simp: find_upt_None)
  then obtain i where i: "List.find (bit w) [0..<LENGTH('a)] = Some i" by auto
  from find_upt_Some [OF i] i show "ctz_word w < LENGTH('a)" "bit w (ctz_word w)" "j < ctz_word w \<Longrightarrow> \<not> bit w j"
    by (auto simp: ctz_word_def)
qed

lemma ctz_word_zero: "ctz_word (0 :: 'a :: len word) = LENGTH('a)"
proof -
  have "List.find (bit (0 :: 'a word)) [0..<LENGTH('a)] = None" by (simp add: find_upt_None)
  then show ?thesis by (simp add: ctz_word_def)
qed

lemma bit_clear_lowest:
  assumes "w \<noteq> (0 :: 'a :: len word)"
  shows "bit (w AND (w - 1)) n \<longleftrightarrow> bit w n \<and> n \<noteq> ctz_word w"
proof -
  let ?c = "ctz_word w"
  let ?z = "unset_bit ?c w"
  note c = ctz_word_props [OF assms]
  have "?z AND 2 ^ ?c = 0"
    by (rule bit_word_eqI) (auto simp: bit_and_iff bit_unset_bit_iff bit_exp_iff)
  then have "?z + 2 ^ ?c = ?z OR 2 ^ ?c" using word_plus_and_or [of ?z "2 ^ ?c"] by simp
  also have "\<dots> = w"
    using c by (intro bit_word_eqI) (auto simp: bit_or_iff bit_unset_bit_iff bit_exp_iff)
  finally have w: "w = ?z + 2 ^ ?c" by simp
  have "?z AND mask ?c = 0"
    using c by (intro bit_word_eqI) (auto simp: bit_and_iff bit_unset_bit_iff bit_mask_iff)
  then have "?z + mask ?c = ?z OR mask ?c" using word_plus_and_or [of ?z "mask ?c"] by simp
  moreover have "w - 1 = ?z + mask ?c"
    by (subst w) (simp add: mask_eq_exp_minus_1)
  ultimately have "w - 1 = ?z OR mask ?c" by simp
  then show ?thesis
    using c bit_word_lt_length [of w n]
    by (auto simp: bit_and_iff bit_or_iff bit_unset_bit_iff bit_mask_iff)
qed

lemma clear_lowest_less:
  assumes "w \<noteq> (0 :: 'a :: len word)"
  shows "unat (w AND (w - 1)) < unat w"
proof -
  have "bit (w AND (w - 1)) (ctz_word w) \<noteq> bit w (ctz_word w)"
    using bit_clear_lowest [OF assms] ctz_word_props [OF assms] by simp
  then have "w AND (w - 1) \<noteq> w" by metis
  moreover have "w AND (w - 1) \<le> w" by (rule word_and_le2)
  ultimately show ?thesis by (simp add: word_less_nat_alt [symmetric])
qed

function scan_bits :: "(nat \<Rightarrow> 's \<Rightarrow> 's) \<Rightarrow> 'a :: len word \<Rightarrow> 's \<Rightarrow> 's" where
  "scan_bits body w s =
     (if w = 0 then s else scan_bits body (w AND (w - 1)) (body (ctz_word w) s))"
  by pat_completeness auto
termination
  by (relation "measure (\<lambda>(_, w, _). unat w)") (auto intro: clear_lowest_less)

declare scan_bits.simps [simp del]

definition set_bits_of :: "'a :: len word \<Rightarrow> nat list" where
  "set_bits_of w = filter (bit w) [0..<LENGTH('a)]"

lemma set_bits_of_step:
  assumes "w \<noteq> (0 :: 'a :: len word)"
  shows "set_bits_of w = ctz_word w # set_bits_of (w AND (w - 1))"
proof -
  let ?c = "ctz_word w"
  note c = ctz_word_props [OF assms]
  have split: "[0..<LENGTH('a)] = [0..<?c] @ ?c # [Suc ?c..<LENGTH('a)]"
    using c(1) upt_add_eq_append [of 0 ?c "LENGTH('a) - ?c"] by (simp add: upt_conv_Cons)
  have "filter (bit (w AND (w - 1))) [0..<?c] = []" "filter (bit w) [0..<?c] = []"
    using c(3) bit_clear_lowest [OF assms] by (auto simp: filter_empty_conv)
  moreover have "filter (bit (w AND (w - 1))) [Suc ?c..<LENGTH('a)] = filter (bit w) [Suc ?c..<LENGTH('a)]"
    using bit_clear_lowest [OF assms] by (intro filter_cong) auto
  ultimately show ?thesis
    using c(2) bit_clear_lowest [OF assms] by (simp add: set_bits_of_def split)
qed

lemma scan_bits_fold: "scan_bits body w s = fold body (set_bits_of w) s"
proof (induction body w s rule: scan_bits.induct)
  case (1 body w s)
  show ?case
  proof (cases "w = 0")
    case True
    then show ?thesis by (simp add: scan_bits.simps [of body 0] set_bits_of_def)
  next
    case False
    with 1 show ?thesis by (simp add: scan_bits.simps [of body w] set_bits_of_step [OF False])
  qed
qed

lemma set_set_bits_of [simp]: "set (set_bits_of w) = {i. bit w i}"
  using bit_word_lt_length [where w = w] by (auto simp: set_bits_of_def)

lemma distinct_set_bits_of [simp]: "distinct (set_bits_of w)"
  by (simp add: set_bits_of_def)

lemma fold_invariant_set:
  assumes "P s" "\<And>x s. x \<in> set xs \<Longrightarrow> P s \<Longrightarrow> P (f x s)"
  shows "P (fold f xs s)"
  using assms by (induction xs arbitrary: s) auto

section \<open>Array copies\<close>

text \<open>\<^verbatim>\<open>memcpy\<close> and \<^verbatim>\<open>memmove\<close> of \<open>n\<close> elements: the source is read before the target changes.\<close>

definition copy_range :: "(nat \<Rightarrow> 'a) \<Rightarrow> nat \<Rightarrow> (nat \<Rightarrow> 'a) \<Rightarrow> nat \<Rightarrow> nat \<Rightarrow> nat \<Rightarrow> 'a" where
  "copy_range dst i src j n = (\<lambda>k. if i \<le> k \<and> k < i + n then src (j + (k - i)) else dst k)"

lemma copy_range_zero [simp]: "copy_range dst i src j 0 = dst"
  by (auto simp: copy_range_def fun_eq_iff)

end
