(* ===== verification/Simd_Ops.thy ===== *)
theory Simd_Ops
  imports Ia64_Prelude
begin

text \<open>
  The packed integer operations of \<^verbatim>\<open>target/ia64/arch/simd-ops.c\<close>.  A general register is a
  \<^typ>\<open>u64\<close> seen as 8, 4 or 2 lanes; the loops over lanes accumulate the result with
  \<^const>\<open>or_loop\<close>.  A signed lane (\<^verbatim>\<open>int64_t\<close>) is its integer value: none of the operations
  on signed lanes leaves the \<^verbatim>\<open>int64_t\<close> range.
\<close>

section \<open>Lanes\<close>

definition simd_lane :: "u64 \<Rightarrow> nat \<Rightarrow> nat \<Rightarrow> u64" where
  "simd_lane value index bits = drop_bit (index * bits) value AND (push_bit bits 1 - 1)"

definition simd_signed_lane :: "u64 \<Rightarrow> nat \<Rightarrow> nat \<Rightarrow> int" where
  "simd_signed_lane value index bits =
     (let lane = simd_lane value index bits
      in sint (signed_drop_bit (64 - bits) (push_bit (64 - bits) lane)))"

lemma simd_lane_alt: "simd_lane v i b = take_bit b (drop_bit (i * b) v)"
  by (simp add: simd_lane_def)

lemma bit_simd_lane [bit_tests]: "bit (simd_lane v i b) k \<longleftrightarrow> k < b \<and> bit v (i * b + k)"
  by (auto simp: simd_lane_alt bit_take_bit_iff bit_drop_bit_eq)

lemma take_bit_simd_lane [simp]: "take_bit b (simd_lane v i b) = simd_lane v i b"
  by (simp add: simd_lane_alt)

lemma signed_drop_push:
  assumes "0 < b" "b \<le> 64"
  shows "signed_drop_bit (64 - b) (push_bit (64 - b) (w :: u64)) = signed_take_bit (b - 1) w"
proof (rule bit_word_eqI)
  fix n assume n: "n < LENGTH(64)"
  show "bit (signed_drop_bit (64 - b) (push_bit (64 - b) w)) n = bit (signed_take_bit (b - 1) w) n"
  proof (cases "b \<le> n")
    case True
    moreover from True assms have "63 + b - 64 = b - 1" "min (b - 1) n = b - 1" "64 - b \<le> 63" by auto
    ultimately show ?thesis using assms n
      by (simp add: bit_signed_drop_bit_iff bit_push_bit_iff bit_signed_take_bit_iff)
  next
    case False
    then have "\<not> 64 - (64 - b) \<le> n" "64 - b + n - (64 - b) = n" "min (b - 1) n = n"
      "64 - b \<le> 64 + n - b" "64 + n - b < 64"
      using assms by auto
    with False assms n show ?thesis
      by (simp add: bit_signed_drop_bit_iff bit_push_bit_iff bit_signed_take_bit_iff)
  qed
qed

lemma sint_signed_take_bit:
  assumes "0 < b" "b \<le> 64"
  shows "sint (signed_take_bit (b - 1) (w :: u64)) = signed_take_bit (b - 1) (uint w)"
proof (rule bit_eqI)
  fix n
  show "bit (sint (signed_take_bit (b - 1) w)) n = bit (signed_take_bit (b - 1) (uint w)) n"
    using assms bit_word_lt_length [of w n]
    by (cases "n < 64"; cases "n < b")
      (auto simp: bit_sint_iff bit_signed_take_bit_iff bit_uint_iff min_def not_less)
qed

lemma simd_signed_lane_alt:
  assumes "0 < b" "b \<le> 64"
  shows "simd_signed_lane v i b = signed_take_bit (b - 1) (uint (simd_lane v i b))"
  unfolding simd_signed_lane_def Let_def signed_drop_push [OF assms] sint_signed_take_bit [OF assms] ..

text \<open>
  The result loop of the lane-wise operations, \<^verbatim>\<open>result |= lane << (i * bits)\<close> for each of
  the \<open>n\<close> lanes.  Disjoint lanes are read back one by one.
\<close>

definition simd_collect :: "nat \<Rightarrow> nat \<Rightarrow> (nat \<Rightarrow> u64) \<Rightarrow> u64" where
  "simd_collect n bits lane = or_loop n (\<lambda>i. push_bit (i * bits) (lane i))"

lemma lane_collect [lane_simps]:
  assumes fits: "\<And>j. j < n \<Longrightarrow> take_bit b (f j) = f j" and "n * b \<le> 64" and "i < n"
  shows "simd_lane (simd_collect n b f) i b = f i"
proof (rule bit_word_eqI)
  fix k
  have low: "k < b" if "bit (f j) k" "j < n" for j k
    using fits [OF that(2)] that(1) by (metis bit_take_bit_iff)
  have same: "j = i" if "j < n" "j * b \<le> i * b + k" "bit (f j) (i * b + k - j * b)" "k < b" for j
  proof -
    from low [OF that(3) that(1)] have "i * b + k < (j + 1) * b" by simp
    then have "i * b < (j + 1) * b" by linarith
    then have "i \<le> j" using mult_less_cancel2 [of i b "j + 1"] by auto
    moreover from that(2,4) have "j * b < (i + 1) * b" by simp
    then have "j \<le> i" using mult_less_cancel2 [of j b "i + 1"] by auto
    ultimately show ?thesis by simp
  qed
  have lt: "i * b + k < 64" if "k < b"
  proof -
    from \<open>i < n\<close> have "(i + 1) * b \<le> n * b" by (intro mult_right_mono) auto
    with that \<open>n * b \<le> 64\<close> show ?thesis by simp
  qed
  show "bit (simd_lane (simd_collect n b f) i b) k = bit (f i) k"
  proof (cases "k < b")
    case True
    with \<open>i < n\<close> lt same show ?thesis
      by (force simp: simd_collect_def bit_tests bit_push_bit_iff intro: exI [of _ i])
  next
    case False
    with low [of i k] \<open>i < n\<close> show ?thesis by (auto simp: bit_simd_lane)
  qed
qed

section \<open>Operations\<close>

definition ia64_simd_pavg_value :: "u32 \<Rightarrow> u64 \<Rightarrow> u64 \<Rightarrow> u64" where
  "ia64_simd_pavg_value op_sel a b =
     (let sub = (op_sel = 2 \<or> op_sel = 3);
          raz = (op_sel = 4 \<or> op_sel = 5);
          bits = (if op_sel = 0 \<or> op_sel = 2 \<or> op_sel = 4 then 8 else 16);
          lanes = 64 div bits;
          lane_mask = push_bit bits 1 - 1;
          ext_mask = push_bit (bits + 1) 1 - 1
      in simd_collect lanes bits (\<lambda>i.
           let left = simd_lane a i bits;
               right = simd_lane b i bits;
               lane =
                 (if sub then
                    let temp = (left - right) AND ext_mask
                    in (drop_bit 1 temp OR (temp AND 1)) AND lane_mask
                  else if raz then drop_bit 1 (left + right + 1) AND lane_mask
                  else
                    let temp = left + right
                    in (drop_bit 1 temp OR (temp AND 1)) AND lane_mask)
           in lane))"

definition ia64_simd_pcmp_value :: "u32 \<Rightarrow> u64 \<Rightarrow> u64 \<Rightarrow> u64" where
  "ia64_simd_pcmp_value op_sel a b =
     (let is_gt = (op_sel AND 1 \<noteq> 0);
          bits = (if op_sel = 0 \<or> op_sel = 1 then 8
                  else if op_sel = 2 \<or> op_sel = 3 then 16 else 32);
          lanes = 64 div bits;
          lane_mask = push_bit bits 1 - 1
      in simd_collect lanes bits (\<lambda>i.
           let left = simd_lane a i bits;
               right = simd_lane b i bits;
               lane =
                 (if is_gt then
                    (if simd_signed_lane a i bits > simd_signed_lane b i bits
                     then lane_mask else 0)
                  else if left = right then lane_mask else 0)
           in lane))"

definition ia64_simd_pminmax_value :: "u32 \<Rightarrow> u64 \<Rightarrow> u64 \<Rightarrow> u64" where
  "ia64_simd_pminmax_value op_sel a b =
     (let bits = (if op_sel \<le> 1 then 8 else 16);
          lanes = 64 div bits;
          is_max = (op_sel = 0 \<or> op_sel = 2)
      in simd_collect lanes bits (\<lambda>i.
           let left = simd_lane a i bits;
               right = simd_lane b i bits;
               lane =
                 (if bits = 16 then
                    let signed_left = simd_signed_lane a i bits;
                        signed_right = simd_signed_lane b i bits
                    in if is_max then (if signed_left > signed_right then left else right)
                       else (if signed_left < signed_right then left else right)
                  else if is_max then (if left > right then left else right)
                  else (if left < right then left else right))
           in lane))"

definition simd_pmpy2_result :: "u64 \<Rightarrow> u64 \<Rightarrow> bool \<Rightarrow> u64" where
  "simd_pmpy2_result a b right_form =
     (let first_lane = (if right_form then 0 else 1)
      in simd_collect 2 32 (\<lambda>output.
           let lane = first_lane + output * 2;
               product :: u32 = word_of_int
                 (sint (ucast (simd_lane a lane 16) :: u16) *
                  sint (ucast (simd_lane b lane 16) :: u16))
           in ucast product))"

definition ia64_simd_pmpy_value :: "u32 \<Rightarrow> u64 \<Rightarrow> u64 \<Rightarrow> u32 \<Rightarrow> u64" where
  "ia64_simd_pmpy_value op_sel a b shift =
     (if op_sel \<le> 1 then simd_pmpy2_result a b (op_sel = 1)
      else simd_collect 4 16 (\<lambda>i.
        let left = simd_lane a i 16;
            right = simd_lane b i 16;
            product :: u64 =
              (if op_sel = 2 then
                 let signed_product :: u64 =
                       word_of_int (sint (ucast left :: u16) * sint (ucast right :: u16))
                 in signed_drop_bit (unat shift) signed_product
               else drop_bit (unat shift) (left * right))
        in product AND 0xFFFF))"

definition ia64_simd_psad1_value :: "u64 \<Rightarrow> u64 \<Rightarrow> u64" where
  "ia64_simd_psad1_value a b =
     add_loop 8 (\<lambda>i.
       let left = simd_lane a i 8;
           right = simd_lane b i 8
       in if left > right then left - right else right - left)"

text \<open>\<^verbatim>\<open>g_assert (count >= 1 && count <= 3)\<close> aborts the emulator; the model returns \<^term>\<open>None\<close>.\<close>

definition ia64_simd_pshladd2_value :: "u64 \<Rightarrow> u64 \<Rightarrow> u32 \<Rightarrow> u64 option" where
  "ia64_simd_pshladd2_value a b count =
     (if count \<ge> 1 \<and> count \<le> 3 then
        Some (simd_collect 4 16 (\<lambda>i.
          let left = simd_signed_lane a i 16;
              right = simd_signed_lane b i 16;
              shifted = left * 2 ^ unat count;
              lane = (if shifted > 32767 then 32767
                      else if shifted < -32768 then -32768
                      else max (min (shifted + right) 32767) (-32768))
          in word_of_int lane AND 0xFFFF))
      else None)"

definition mux1_perms :: "nat \<Rightarrow> nat list" where
  "mux1_perms k =
     (if k = 0x8 then [0, 4, 2, 6, 1, 5, 3, 7]
      else if k = 0x9 then [0, 4, 1, 5, 2, 6, 3, 7]
      else if k = 0xa then [0, 2, 4, 6, 1, 3, 5, 7]
      else if k = 0xb then [7, 6, 5, 4, 3, 2, 1, 0]
      else [0, 0, 0, 0, 0, 0, 0, 0])"

definition ia64_simd_mux_value :: "u32 \<Rightarrow> u64 \<Rightarrow> u32 \<Rightarrow> u64" where
  "ia64_simd_mux_value op_sel value imm =
     (if op_sel = 0 then
        let permutation = mux1_perms (unat (imm AND 0xf))
        in simd_collect 8 8 (\<lambda>i. simd_lane value (permutation ! i) 8)
      else
        simd_collect 4 16 (\<lambda>i.
          let lane = unat (drop_bit (i * 2) imm AND 3)
          in simd_lane value lane 16))"

definition ia64_simd_mix_value :: "u32 \<Rightarrow> u64 \<Rightarrow> u64 \<Rightarrow> u64" where
  "ia64_simd_mix_value op_sel a b =
     (let (bits, left) =
            (if op_sel = 0 \<or> op_sel = 1 then (8, op_sel = 0)
             else if op_sel = 2 \<or> op_sel = 3 then (16, op_sel = 2)
             else (32, op_sel = 4))
      in or_loop (32 div bits) (\<lambda>i.
           let lane = 2 * i + (if left then 1 else 0)
           in push_bit ((2 * i + 1) * bits) (simd_lane a lane bits) OR
              push_bit ((2 * i) * bits) (simd_lane b lane bits)))"

definition ia64_simd_unpack_value :: "u32 \<Rightarrow> u64 \<Rightarrow> u64 \<Rightarrow> u64" where
  "ia64_simd_unpack_value op_sel a b =
     (let (bits, low) =
            (if op_sel = 0 \<or> op_sel = 1 then (8, op_sel = 1)
             else if op_sel = 2 \<or> op_sel = 3 then (16, op_sel = 3)
             else (32, op_sel = 5));
          half = 32 div bits;
          base = (if low then 0 else half)
      in or_loop half (\<lambda>i.
           let left = simd_lane a (base + i) bits;
               right = simd_lane b (base + i) bits
           in push_bit ((2 * i) * bits) right OR push_bit ((2 * i + 1) * bits) left))"

text \<open>
  The nested loop over the two sources: iteration \<open>output_lane\<close> reads source
  \<open>output_lane div lanes\<close>, lane \<open>output_lane mod lanes\<close>.
\<close>

definition simd_saturate :: "bool \<Rightarrow> nat \<Rightarrow> int \<Rightarrow> int" where
  "simd_saturate unsigned_saturation output_bits value =
     (let output_max = 2 ^ (output_bits - 1) - 1;
          output_min = - (2 ^ (output_bits - 1));
          unsigned_max = 2 ^ output_bits - 1
      in if unsigned_saturation then
           (if value < 0 then 0 else if value > unsigned_max then unsigned_max else value)
         else if value > output_max then output_max
         else if value < output_min then output_min
         else value)"

definition ia64_simd_pack_value :: "u32 \<Rightarrow> u64 \<Rightarrow> u64 \<Rightarrow> u64" where
  "ia64_simd_pack_value op_sel a b =
     (let (input_bits, output_bits, unsigned_saturation) =
            (if op_sel = 0 then (16, 8, False)
             else if op_sel = 1 then (16, 8, True)
             else (32, 16, False));
          lanes = 64 div input_bits
      in simd_collect (2 * lanes) output_bits (\<lambda>output_lane.
           let source = (if output_lane < lanes then a else b);
               value = simd_signed_lane source (output_lane mod lanes) input_bits;
               lane = word_of_int (simd_saturate unsigned_saturation output_bits value)
                        AND (push_bit output_bits 1 - 1)
           in lane))"

definition ia64_simd_czx_value :: "u32 \<Rightarrow> u64 \<Rightarrow> u64" where
  "ia64_simd_czx_value op_sel value =
     (let bits = (if op_sel \<le> 1 then 8 else 16);
          max_count = 64 div bits
      in if op_sel = 0 \<or> op_sel = 2 then
           (case List.find (\<lambda>i. simd_lane value i bits = 0) (rev [0..<max_count]) of
              Some i \<Rightarrow> of_nat (max_count - 1 - i)
            | None \<Rightarrow> of_nat max_count)
         else
           (case List.find (\<lambda>i. simd_lane value i bits = 0) [0..<max_count] of
              Some i \<Rightarrow> of_nat i
            | None \<Rightarrow> of_nat max_count))"

definition ia64_simd_sum_value :: "u64 \<Rightarrow> u64 \<Rightarrow> u64" where
  "ia64_simd_sum_value a b =
     or_loop 2 (\<lambda>i.
       let left = simd_lane a (2 * i) 16 + simd_lane a (2 * i + 1) 16;
           right = simd_lane b (2 * i) 16 + simd_lane b (2 * i + 1) 16
       in push_bit ((2 + i) * 16) left OR push_bit (i * 16) right)"

lemma uint_simd_lane_bounds: "0 \<le> uint (simd_lane v i b) \<and> uint (simd_lane v i b) < 2 ^ b"
proof -
  have "uint (simd_lane v i b) = take_bit b (uint (drop_bit (i * b) v))"
    by (simp add: simd_lane_alt unsigned_take_bit_eq)
  then show ?thesis by (simp add: take_bit_int_less_exp)
qed

lemma bit_0_uint: "bit (w :: 'a :: len word) 0 \<longleftrightarrow> odd (uint w)"
proof -
  have "bit (uint w) 0 = bit w 0" by (simp only: bit_uint_iff) simp
  then show ?thesis by (simp only: bit_0)
qed

lemma uint_round_odd:
  assumes "0 < b" "b < 64"
  shows "uint (take_bit b (drop_bit 1 (take_bit (b + 1) d) OR (take_bit (b + 1) d AND 1)) :: u64)
    = ((uint d div 2) OR (uint d mod 2)) mod 2 ^ b" (is "?l = ?r")
proof -
  have "?l = take_bit b (drop_bit 1 (uint d) OR take_bit 1 (uint d))"
    using assms
    by (auto intro!: bit_eqI simp: bit_simps bit_uint_iff bit_or_iff bit_take_bit_iff bit_drop_bit_eq bit_and_iff bit_1_iff bit_0_uint dest: bit_word_lt_length)
  then show ?thesis by (simp add: take_bit_eq_mod drop_bit_eq_div)
qed

lemma round_odd_take_bit:
  assumes "b < 64"
  shows "take_bit b (drop_bit 1 (take_bit 64 d) OR take_bit 1 (take_bit 64 d)) =
    take_bit b (drop_bit 1 d OR take_bit 1 (d :: int))"
proof (rule bit_eqI)
  fix n
  show "bit (take_bit b (drop_bit 1 (take_bit 64 d) OR take_bit 1 (take_bit 64 d))) n =
    bit (take_bit b (drop_bit 1 d OR take_bit 1 d)) n"
    using assms
    by (auto simp only: bit_take_bit_iff bit_or_iff bit_drop_bit_eq comp_def; linarith)
qed

lemma pavg_lane_raw:
  assumes "op \<in> {0, 2, 4} \<and> b = 8 \<or> op \<in> {1, 3, 5} \<and> b = 16" and "i < 64 div b"
  shows "simd_lane (ia64_simd_pavg_value op x y) i b =
    (let l = simd_lane x i b; r = simd_lane y i b in
     if op \<in> {2, 3} then take_bit b (drop_bit 1 (take_bit (b + 1) (l - r)) OR (take_bit (b + 1) (l - r) AND 1))
     else if op \<in> {4, 5} then take_bit b (drop_bit 1 (l + r + 1))
     else take_bit b (drop_bit 1 (l + r) OR ((l + r) AND 1)))"
proof -
  consider "op \<in> {0, 2, 4}" "b = 8" | "op \<in> {1, 3, 5}" "b = 16" using assms(1) by blast
  then show ?thesis
    using assms(2) unfolding ia64_simd_pavg_value_def Let_def and_low_mask
    by cases (auto simp: lane_collect)
qed

lemma uint_add_lanes:
  assumes "b < 62"
  shows "uint (simd_lane x i b + simd_lane y j b) = uint (simd_lane x i b) + uint (simd_lane y j b)"
    and "uint (simd_lane x i b + simd_lane y j b + 1) = uint (simd_lane x i b) + uint (simd_lane y j b) + 1"
proof -
  have "(2::int) ^ b \<le> 2 ^ 61" using assms by (intro power_increasing) auto
  with uint_simd_lane_bounds [of x i b] uint_simd_lane_bounds [of y j b]
  show "uint (simd_lane x i b + simd_lane y j b) = uint (simd_lane x i b) + uint (simd_lane y j b)"
   "uint (simd_lane x i b + simd_lane y j b + 1) = uint (simd_lane x i b) + uint (simd_lane y j b) + 1"
    by (simp_all add: uint_word_ariths)
qed

text \<open>
  C37: Every lane of \<^const>\<open>ia64_simd_pavg_value\<close> is the architected average of the operand lanes:
  the sum halved with the lost bit ORed back (\<^verbatim>\<open>pavg\<close>), halved after adding one
  (\<^verbatim>\<open>pavg.raz\<close>), or the difference halved the same way modulo the lane width
  (\<^verbatim>\<open>pavgsub\<close>), for 8 and 16 bit lanes, with no carry into a neighbour.
\<close>

theorem pavg_lane:
  assumes "op \<in> {0, 2, 4} \<and> b = 8 \<or> op \<in> {1, 3, 5} \<and> b = 16" and "i < 64 div b"
  shows "uint (simd_lane (ia64_simd_pavg_value op x y) i b) =
    (let l = uint (simd_lane x i b); r = uint (simd_lane y i b) in
     if op \<in> {4, 5} then (l + r + 1) div 2
     else let s = (if op \<in> {2, 3} then l - r else l + r) in ((s div 2) OR (s mod 2)) mod 2 ^ b)"
  (is "?lhs = ?rhs")
proof -
  let ?l = "simd_lane x i b" and ?r = "simd_lane y i b"
  have b: "0 < b" "b < 62" using assms(1) by auto
  note bnd = uint_simd_lane_bounds [of x i b] uint_simd_lane_bounds [of y i b]
  have sm: "take_bit b (drop_bit 1 (?l + ?r) OR ((?l + ?r) AND 1)) = 
     take_bit b (drop_bit 1 (take_bit (b + 1) (?l + ?r)) OR (take_bit (b + 1) (?l + ?r) AND 1))"
    using b by (auto intro!: bit_word_eqI simp: bit_simps)
  consider "op \<in> {4,5}" | "op \<in> {2,3}" | "op \<in> {0,1}" using assms(1) by auto
  then show ?thesis
  proof cases
    case 1
    have "uint (take_bit b (drop_bit 1 (?l + ?r + 1))) = take_bit b ((uint ?l + uint ?r + 1) div 2)"
      using b by (simp add: unsigned_take_bit_eq drop_bit_eq_div uint_div uint_add_lanes)
    also have "\<dots> = (uint ?l + uint ?r + 1) div 2" 
      using bnd by (simp add: take_bit_int_eq_self_iff)
    finally show ?thesis using 1 by (auto simp: pavg_lane_raw [OF assms])
  next
    case 2
    have "((uint (?l - ?r) div 2) OR (uint (?l - ?r) mod 2)) mod 2 ^ b =
        (((uint ?l - uint ?r) div 2) OR ((uint ?l - uint ?r) mod 2)) mod 2 ^ b"
      using b round_odd_take_bit [of b "uint ?l - uint ?r"]
      by (simp add: uint_word_ariths take_bit_eq_mod drop_bit_eq_div)
    moreover from 2 have "op \<noteq> 4" "op \<noteq> 5" by auto
    ultimately show ?thesis using 2 uint_round_odd [of b "?l - ?r"] b
      unfolding pavg_lane_raw [OF assms] Let_def by simp
  next
    case 3
    then have "op \<notin> {2, 3}" "op \<notin> {4, 5}" by auto
    with b uint_round_odd [of b "?l + ?r"] show ?thesis
      unfolding pavg_lane_raw [OF assms] Let_def sm by (simp add: uint_add_lanes)
  qed
qed

theorem pavg_lane_witness:
  "uint (simd_lane (ia64_simd_pavg_value 0 0x0502 0x0403) 1 8) = 5"
  using pavg_lane [of 0 8 1 "0x0502" "0x0403"] by (simp add: simd_lane_def)

lemma pcmp_lane_raw:
  assumes "op \<in> {0, 1} \<and> b = 8 \<or> op \<in> {2, 3} \<and> b = 16 \<or> op \<in> {4, 5} \<and> b = 32" and "i < 64 div b"
  shows "simd_lane (ia64_simd_pcmp_value op x y) i b =
    (if (if op \<in> {1, 3, 5} then simd_signed_lane x i b > simd_signed_lane y i b
         else simd_lane x i b = simd_lane y i b)
     then mask b else 0)"
proof -
  consider "op \<in> {0, 1}" "b = 8" | "op \<in> {2, 3}" "b = 16" | "op \<in> {4, 5}" "b = 32"
    using assms(1) by blast
  then show ?thesis
    using assms(2) unfolding ia64_simd_pcmp_value_def Let_def low_mask_eq
    by cases (auto simp: lane_collect)
qed

theorem pminmax_lane:
  assumes "op \<in> {0, 1} \<and> b = 8 \<or> op \<in> {2, 3} \<and> b = 16" and "i < 64 div b"
  shows "if op \<in> {0, 1}
     then uint (simd_lane (ia64_simd_pminmax_value op x y) i b) =
       (if op = 0 then max else min) (uint (simd_lane x i b)) (uint (simd_lane y i b))
     else simd_signed_lane (ia64_simd_pminmax_value op x y) i b =
       (if op = 2 then max else min) (simd_signed_lane x i b) (simd_signed_lane y i b)"
proof -
  consider "op \<in> {0, 1}" "b = 8" | "op \<in> {2, 3}" "b = 16" using assms(1) by blast
  then show ?thesis
    using assms(2) unfolding ia64_simd_pminmax_value_def Let_def
    by cases (auto simp: lane_collect word_less_def word_le_def simd_signed_lane_alt)
qed

theorem psad1_sum:
  "uint (ia64_simd_psad1_value x y) = (\<Sum>i<8. \<bar>uint (simd_lane x i 8) - uint (simd_lane y i 8)\<bar>) \<and>
   unat (ia64_simd_psad1_value x y) \<le> 2040"
proof
  let ?f = "\<lambda>i. if simd_lane x i 8 > simd_lane y i 8 then simd_lane x i 8 - simd_lane y i 8
                 else simd_lane y i 8 - simd_lane x i 8"
  have f: "uint (?f i) = \<bar>uint (simd_lane x i 8) - uint (simd_lane y i 8)\<bar>" for i
    by (simp add: word_less_def not_less word_le_def uint_minus_simple_alt uint_sub_if')
  have le: "unat (?f i) \<le> 255" for i
  proof -
    have "uint (?f i) \<le> 255"
    proof -
      have "(2 :: int) ^ 8 = 256" by simp
      with uint_simd_lane_bounds [of x i 8] uint_simd_lane_bounds [of y i 8]
      show ?thesis unfolding f by linarith
    qed
    then show ?thesis unfolding unat_eq_nat_uint by linarith
  qed
  have s: "unat (add_loop 8 ?f) = (\<Sum>i<8. unat (?f i)) \<and> unat (add_loop 8 ?f) \<le> 8 * 255"
    using le by (intro unat_add_loop) simp_all
  then have "int (unat (add_loop 8 ?f)) = (\<Sum>i<8. int (unat (?f i)))"
    by (simp only: of_nat_sum)
  with f show "uint (ia64_simd_psad1_value x y) = (\<Sum>i<8. \<bar>uint (simd_lane x i 8) - uint (simd_lane y i 8)\<bar>)"
    unfolding ia64_simd_psad1_value_def Let_def by simp
  from s show "unat (ia64_simd_psad1_value x y) \<le> 2040"
    unfolding ia64_simd_psad1_value_def Let_def by simp
qed

lemma sint_ucast_lane16: "sint (ucast (simd_lane v i 16) :: u16) = simd_signed_lane v i 16"
  by (simp add: simd_signed_lane_alt sint_uint unsigned_ucast_eq signed_take_bit_take_bit)

lemma word_and_ffff: "(w :: u64) AND 0xFFFF = take_bit 16 w"
  by (simp add: take_bit_eq_mask mask_numeral)

lemma signed_lane_of_int:
  assumes "0 < b" "b \<le> 64" "- (2 ^ (b - 1)) \<le> v" "v < 2 ^ (b - 1)"
    and "simd_lane w i b = take_bit b (word_of_int v)"
  shows "simd_signed_lane w i b = v"
proof -
  have "simd_signed_lane w i b = signed_take_bit (b - 1) (take_bit b (take_bit 64 v))"
    unfolding simd_signed_lane_alt [OF assms(1,2)] assms(5)
    by (simp add: unsigned_take_bit_eq unsigned_of_int)
  also have "\<dots> = signed_take_bit (b - 1) v"
    using assms(1,2) by (auto intro!: bit_eqI simp: bit_simps min_def)
  also have "\<dots> = v" using assms(3,4) by (simp add: signed_take_bit_int_eq_self_iff)
  finally show ?thesis .
qed

theorem pshladd2_lane:
  assumes "1 \<le> count" "count \<le> 3" "i < 4"
  shows "\<exists>r. ia64_simd_pshladd2_value x y count = Some r \<and>
    simd_signed_lane r i 16 =
      (let s = simd_signed_lane x i 16 * 2 ^ unat count in
       if s > 32767 then 32767 else if s < -32768 then -32768
       else max (-32768) (min 32767 (s + simd_signed_lane y i 16)))"
proof -
  let ?s = "\<lambda>i. simd_signed_lane x i 16 * 2 ^ unat count"
  let ?v = "\<lambda>i. if ?s i > 32767 then 32767 else if ?s i < -32768 then -32768
       else max (min (?s i + simd_signed_lane y i 16) 32767) (-32768)"
  let ?r = "simd_collect 4 16 (\<lambda>i. word_of_int (?v i) AND 0xFFFF)"
  have "ia64_simd_pshladd2_value x y count = Some ?r"
    using assms(1,2) by (simp add: ia64_simd_pshladd2_value_def Let_def)
  moreover have "simd_lane ?r i 16 = take_bit 16 (word_of_int (?v i))"
    unfolding word_and_ffff using assms(3) by (subst lane_collect) simp_all
  then have "simd_signed_lane ?r i 16 = ?v i"
    by (rule signed_lane_of_int [rotated 4]) (simp_all add: min_def max_def)
  ultimately show ?thesis by (simp add: Let_def max.commute min.commute)
qed

lemma pack_lane_raw:
  assumes "op = 0 \<and> ib = 16 \<and> ob = 8 \<and> \<not> us \<or> op = 1 \<and> ib = 16 \<and> ob = 8 \<and> us \<or> op = 2 \<and> ib = 32 \<and> ob = 16 \<and> \<not> us"
    and "i < 2 * (64 div ib)"
  shows "simd_lane (ia64_simd_pack_value op x y) i ob =
    take_bit ob (word_of_int (simd_saturate us ob 
       (simd_signed_lane (if i < 64 div ib then x else y) (i mod (64 div ib)) ib)))"
proof -
  consider "op = 0" "ib = 16" "ob = 8" "\<not> us" | "op = 1" "ib = 16" "ob = 8" "us" | "op = 2" "ib = 32" "ob = 16" "\<not> us"
    using assms(1) by blast
  then show ?thesis
    using assms(2) unfolding ia64_simd_pack_value_def Let_def and_low_mask
    by cases (simp_all add: lane_collect)
qed

text \<open>
  C38: \<^const>\<open>ia64_simd_pack_value\<close> narrows the lanes of the first source into the low half and
  those of the second into the high half of the result, and saturates each one: to the signed
  range of the output lane (\<^verbatim>\<open>pack2.sss\<close>, \<^verbatim>\<open>pack4.sss\<close>) or to its unsigned range
  (\<^verbatim>\<open>pack2.uss\<close>).
\<close>

theorem pack_lane_saturates:
  assumes "op = 0 \<and> ib = 16 \<and> ob = 8 \<or> op = 1 \<and> ib = 16 \<and> ob = 8 \<or> op = 2 \<and> ib = 32 \<and> ob = 16"
    and "i < 2 * (64 div ib)"
  shows "let v = simd_signed_lane (if i < 64 div ib then x else y) (i mod (64 div ib)) ib;
             r = ia64_simd_pack_value op x y
         in if op = 1 then uint (simd_lane r i ob) = max 0 (min (2 ^ ob - 1) v)
            else simd_signed_lane r i ob = max (- (2 ^ (ob - 1))) (min (2 ^ (ob - 1) - 1) v)"
proof -
  let ?v = "simd_signed_lane (if i < 64 div ib then x else y) (i mod (64 div ib)) ib"
  let ?r = "simd_lane (ia64_simd_pack_value op x y) i ob"
  have raw: "?r = take_bit ob (word_of_int (simd_saturate (op = 1) ob ?v))"
    using assms by (intro pack_lane_raw) auto
  show ?thesis
  proof (cases "op = 1")
    case True
    then have sat: "simd_saturate (op = 1) ob ?v = max 0 (min (2 ^ ob - 1) ?v)" and "ob = 8"
      using assms(1) by (auto simp: simd_saturate_def Let_def)
    with raw have "uint ?r = take_bit 8 (max 0 (min 255 ?v))"
      by (simp add: unsigned_take_bit_eq take_bit_word_eq_self uint_word_of_int_eq)
    with True \<open>ob = 8\<close> show ?thesis by (simp add: Let_def take_bit_int_eq_self)
  next
    case False
    with raw have "simd_signed_lane (ia64_simd_pack_value op x y) i ob = simd_saturate False ob ?v"
      using assms(1) by (intro signed_lane_of_int) (auto simp: simd_saturate_def Let_def)
    with False show ?thesis by (simp add: simd_saturate_def Let_def)
  qed
qed

theorem pack_lane_witness:
  "simd_signed_lane (ia64_simd_pack_value 0 0x7FFF 0) 0 8 = 127"
  using pack_lane_saturates [of 0 16 8 0 "0x7FFF" 0]
  by (simp add: simd_signed_lane_alt simd_lane_def Let_def)

lemma simd_lanes_eqI:
  assumes "0 < b" "b dvd 64" and eq: "\<And>i. i < 64 div b \<Longrightarrow> simd_lane v i b = simd_lane w i b"
  shows "v = w"
proof (rule bit_word_eqI)
  fix n assume "n < LENGTH(64)"
  with assms(2) have "n < 64 div b * b" by simp
  then have "n div b < 64 div b" by (rule less_mult_imp_div_less)
  from eq [OF this] have "bit (simd_lane v (n div b) b) (n mod b) = bit (simd_lane w (n div b) b) (n mod b)"
    by simp
  with assms(1) show "bit v n = bit w n" by (simp add: bit_simd_lane)
qed

lemma mux1_lane:
  assumes "i < 8"
  shows "simd_lane (ia64_simd_mux_value 0 v imm) i 8 = simd_lane v (mux1_perms (unat (imm AND 0xf)) ! i) 8"
  using assms by (simp add: ia64_simd_mux_value_def Let_def lane_collect)

lemma nat_less_8_cases: "i < (8::nat) \<Longrightarrow> i \<in> {0, 1, 2, 3, 4, 5, 6, 7}"
  by auto

text \<open>
  C40: The byte permutations of \<^verbatim>\<open>mux1\<close> are bijections of the register:
  \<^verbatim>\<open>@shuf\<close> and \<^verbatim>\<open>@alt\<close> undo each other, \<^verbatim>\<open>@mix\<close> and \<^verbatim>\<open>@rev\<close> undo themselves.
\<close>

theorem mux1_permutations_inverse: 
  "ia64_simd_mux_value 0 (ia64_simd_mux_value 0 v 0x9) 0xa = v \<and>
   ia64_simd_mux_value 0 (ia64_simd_mux_value 0 v 0xa) 0x9 = v \<and>
   ia64_simd_mux_value 0 (ia64_simd_mux_value 0 v 0x8) 0x8 = v \<and>
   ia64_simd_mux_value 0 (ia64_simd_mux_value 0 v 0xb) 0xb = v"
proof (intro conjI)
  have lane: "simd_lane (ia64_simd_mux_value 0 (ia64_simd_mux_value 0 v p) q) i 8 = simd_lane v i 8"
    if "i < 8" "(p, q) \<in> {(9, 0xa), (0xa, 9), (8, 8), (0xb, 0xb)}" for i p q
    using that nat_less_8_cases [OF that(1)] by (auto simp: mux1_lane mux1_perms_def)
  show "ia64_simd_mux_value 0 (ia64_simd_mux_value 0 v 0x9) 0xa = v"
    by (rule simd_lanes_eqI [of 8]) (simp_all add: lane)
  show "ia64_simd_mux_value 0 (ia64_simd_mux_value 0 v 0xa) 0x9 = v"
    by (rule simd_lanes_eqI [of 8]) (simp_all add: lane)
  show "ia64_simd_mux_value 0 (ia64_simd_mux_value 0 v 0x8) 0x8 = v"
    by (rule simd_lanes_eqI [of 8]) (simp_all add: lane)
  show "ia64_simd_mux_value 0 (ia64_simd_mux_value 0 v 0xb) 0xb = v"
    by (rule simd_lanes_eqI [of 8]) (simp_all add: lane)
qed

lemma or_loop_pairs:
  "or_loop n (\<lambda>i. push_bit (2 * i * b) (f i) OR push_bit ((2 * i + 1) * b) (g i)) =
   simd_collect (2 * n) b (\<lambda>j. if even j then f (j div 2) else g (j div 2))"
  by (induction n) (simp_all add: simd_collect_def or.assoc)

theorem unpack_lane:
  assumes "op \<in> {0, 1} \<and> b = 8 \<or> op \<in> {2, 3} \<and> b = 16 \<or> op \<in> {4, 5} \<and> b = 32" and "j < 64 div b"
  shows "simd_lane (ia64_simd_unpack_value op x y) j b =
    simd_lane (if even j then y else x) ((if odd (unat op) then 0 else 32 div b) + j div 2) b"
proof -
  consider "op \<in> {0, 1}" "b = 8" | "op \<in> {2, 3}" "b = 16" | "op \<in> {4, 5}" "b = 32"
    using assms(1) by blast
  then show ?thesis
    using assms(2) unfolding ia64_simd_unpack_value_def Let_def
    by cases (auto simp: or_loop_pairs [where b = 8, simplified] or_loop_pairs [where b = 16, simplified]
        or_loop_pairs [where b = 32, simplified] lane_collect simp del: or_loop.simps)
qed


lemma simd_signed_lane_bounds:
  assumes "0 < b" "b \<le> 64"
  shows "- (2 ^ (b - 1)) \<le> simd_signed_lane v i b \<and> simd_signed_lane v i b < 2 ^ (b - 1)"
  unfolding simd_signed_lane_alt [OF assms]
  by (simp add: signed_take_bit_int_greater_eq_minus_exp signed_take_bit_int_less_exp)

lemma abs_mult_le_square:
  fixes p q :: int
  assumes "\<bar>p\<bar> \<le> B" "\<bar>q\<bar> \<le> B"
  shows "\<bar>p * q\<bar> \<le> B * B"
  using assms by (simp add: abs_mult mult_mono)

lemma uint_take_bit_sint:
  "n \<le> 64 \<Longrightarrow> uint (take_bit n (w :: u64)) = take_bit n (sint w)"
  by (simp add: unsigned_take_bit_eq sint_uint take_bit_signed_take_bit)

lemma sint_of_int_small: "\<bar>p\<bar> \<le> 2 ^ 62 \<Longrightarrow> sint (word_of_int p :: u64) = p"
  by (simp add: signed_of_int signed_take_bit_int_eq_self_iff abs_le_iff)

text \<open>
  C39: Lane \<open>i\<close> of \<^verbatim>\<open>pmpyshr2\<close> (\<^const>\<open>ia64_simd_pmpy_value\<close> with selector 2) is the exact signed
  32 bit product of the operand lanes, shifted right arithmetically by the shift count and
  truncated to 16 bits.
\<close>

theorem pmpyshr_lane:
  assumes "i < 4" "unat shift < 64"
  shows "uint (simd_lane (ia64_simd_pmpy_value 2 x y shift) i 16) =
           (simd_signed_lane x i 16 * simd_signed_lane y i 16 div 2 ^ unat shift) mod 2 ^ 16"
proof -
  let ?p = "simd_signed_lane x i 16 * simd_signed_lane y i 16"
  have "simd_lane (ia64_simd_pmpy_value 2 x y shift) i 16 =
      take_bit 16 (signed_drop_bit (unat shift) (word_of_int ?p))"
    using assms(1) unfolding ia64_simd_pmpy_value_def Let_def sint_ucast_lane16 word_and_ffff
    by (simp add: lane_collect word_le_def)
  then have "uint (simd_lane (ia64_simd_pmpy_value 2 x y shift) i 16) =
      take_bit 16 (drop_bit (unat shift) (sint (word_of_int ?p :: u64)))"
    by (simp only: uint_take_bit_sint sint_signed_drop_bit_eq)
  moreover have "\<bar>?p\<bar> \<le> 32768 * 32768"
    using simd_signed_lane_bounds [of 16 x i] simd_signed_lane_bounds [of 16 y i]
    by (intro abs_mult_le_square) (simp_all add: abs_le_iff)
  then have "sint (word_of_int ?p :: u64) = ?p"
    by (intro sint_of_int_small) simp
  ultimately show ?thesis by (simp only: take_bit_eq_mod drop_bit_eq_div)
qed

theorem pmpyshr_lane_witness:
  "uint (simd_lane (ia64_simd_pmpy_value 2 0xFFFF 0x0010 2) 0 16) = 0xFFFC"
  using pmpyshr_lane [of 0 2 "0xFFFF" "0x0010"]
  by (simp add: simd_signed_lane_alt simd_lane_def)

lemma czx_right:
  fixes op v b
  assumes "op = 1 \<and> b = 8 \<or> op = 3 \<and> b = 16"
  defines "k \<equiv> unat (ia64_simd_czx_value op v)"
  shows "k \<le> 64 div b" and "\<forall>j<k. simd_lane v j b \<noteq> 0" and "k < 64 div b \<Longrightarrow> simd_lane v k b = 0"
proof -
  let ?f = "List.find (\<lambda>i. simd_lane v i b = 0) [0..<64 div b]"
  have eq: "ia64_simd_czx_value op v = of_nat (case ?f of Some i \<Rightarrow> i | None \<Rightarrow> 64 div b)"
  proof -
    have "(if op \<le> 1 then 8 else 16) = b" "\<not> (op = 0 \<or> op = 2)"
      using assms(1) by (auto simp: word_le_nat_alt)
    then show ?thesis
      unfolding ia64_simd_czx_value_def Let_def by (simp only: if_False option.case_distrib [of of_nat])
  qed
  have b: "64 div b \<le> 8" using assms(1) by auto
  have small: "unat (of_nat n :: u64) = n" if "n \<le> 8" for n using that by (simp add: unat_of_nat)
  have "k \<le> 64 div b \<and> (\<forall>j<k. simd_lane v j b \<noteq> 0) \<and> (k < 64 div b \<longrightarrow> simd_lane v k b = 0)"
  proof (cases ?f)
    case None
    then have "k = 64 div b" unfolding k_def eq using b by (simp add: small)
    with None [unfolded find_upt_None] show ?thesis by simp
  next
    case (Some i)
    note i = find_upt_Some [OF Some]
    then have "k = i" unfolding k_def eq Some using b by (simp add: small)
    with i show ?thesis by simp
  qed
  then show "k \<le> 64 div b" and "\<forall>j<k. simd_lane v j b \<noteq> 0" and "k < 64 div b \<Longrightarrow> simd_lane v k b = 0"
    by simp_all
qed

end
