(* ===== verification/Bit_Ranges.thy ===== *)
theory Bit_Ranges
  imports Ia64_Prelude
begin

text \<open>
  Bitmaps of 128 registers kept in two 64 bit words (\<^verbatim>\<open>uint64_t bits[2]\<close>): the NaT bits of
  the general registers, of the physical stacked registers, and the dirty bits of the
  virtual view.  The word-level range operations of \<^verbatim>\<open>target/ia64/arch/rse.c\<close> are described
  bit by bit.
\<close>

type_synonym bits2 = "u64 \<times> u64"

definition bits2_get :: "bits2 \<Rightarrow> nat \<Rightarrow> bool" where
  "bits2_get b i = (if i div 64 = 0 then bit (fst b) (i mod 64) else bit (snd b) (i mod 64))"

definition bits2_set :: "bits2 \<Rightarrow> nat \<Rightarrow> bool \<Rightarrow> bits2" where
  "bits2_set b i v =
     (let m = push_bit (i mod 64) 1;
          upd = (\<lambda>w. if v then w OR m else w AND NOT m)
      in if i div 64 = 0 then (upd (fst b), snd b) else (fst b, upd (snd b)))"

lemma bits2_get_set:
  assumes "i < 128" "j < 128"
  shows "bits2_get (bits2_set b i v) j = (if j = i then v else bits2_get b j)"
proof -
  have same: "j = i" if "i div 64 = j div 64" "i mod 64 = j mod 64"
    using that by (metis div_mult_mod_eq)
  have "i div 64 < 2" "j div 64 < 2" using assms by auto
  moreover have "i mod 64 < 64" by simp
  ultimately show ?thesis
    using same by (auto simp: bits2_get_def bits2_set_def Let_def bit_or_iff bit_and_iff bit_not_iff bit_exp_iff)
qed

lemma bits2_get_low: "i < 64 \<Longrightarrow> bits2_get b i = bit (fst b) i"
  and bits2_get_high: "64 \<le> i \<Longrightarrow> i < 128 \<Longrightarrow> bits2_get b i = bit (snd b) (i - 64)"
  by (auto simp: bits2_get_def div_nat_eqI mod_if)

lemma bits2_eqI: "(\<And>i. i < 128 \<Longrightarrow> bits2_get b i = bits2_get c i) \<Longrightarrow> b = c"
proof (rule prod_eqI; rule bit_word_eqI)
  fix n assume *: "\<And>i. i < 128 \<Longrightarrow> bits2_get b i = bits2_get c i" and "n < LENGTH(64)"
  then show "bit (fst b) n = bit (fst c) n" using *[of n] by (simp add: bits2_get_low)
next
  fix n assume *: "\<And>i. i < 128 \<Longrightarrow> bits2_get b i = bits2_get c i" and "n < LENGTH(64)"
  then show "bit (snd b) n = bit (snd c) n" using *[of "n + 64"] by (simp add: bits2_get_high)
qed

lemma bits2_zero_iff: "fst b OR snd b = 0 \<longleftrightarrow> (\<forall>i<128. \<not> bits2_get b i)"
proof
  assume z: "fst b OR snd b = 0"
  then have "\<not> bit (fst b) n" "\<not> bit (snd b) n" for n
    using bit_or_iff [of "fst b" "snd b" n] by auto
  then show "\<forall>i<128. \<not> bits2_get b i" by (simp add: bits2_get_def)
next
  assume "\<forall>i<128. \<not> bits2_get b i"
  then have "b = (0, 0)" by (intro bits2_eqI) (simp add: bits2_get_def)
  then show "fst b OR snd b = 0" by simp
qed

section \<open>Definitions\<close>

definition bits2_to_128 :: "bits2 \<Rightarrow> 128 word" where
  "bits2_to_128 b = push_bit 64 (ucast (snd b)) OR ucast (fst b)"

definition ia64_copy_bit_range :: "bits2 \<Rightarrow> nat \<Rightarrow> bits2 \<Rightarrow> nat \<Rightarrow> nat \<Rightarrow> bits2" where
  "ia64_copy_bit_range dst dst_bit src src_bit count =
     (if count = 0 then dst
      else
        let source = bits2_to_128 src;
            target = bits2_to_128 dst;
            mask0 = (if count = 128 then NOT 0 else push_bit count 1 - 1);
            mask1 = push_bit dst_bit mask0;
            target' = (target AND NOT mask1) OR (push_bit dst_bit (drop_bit src_bit source) AND mask1)
        in (ucast target', ucast (drop_bit 64 target')))"

definition ia64_clear_bit_range :: "bits2 \<Rightarrow> nat \<Rightarrow> nat \<Rightarrow> bits2" where
  "ia64_clear_bit_range bits first count =
     (let word = first div 64;
          shift = first mod 64;
          n = min count (64 - shift);
          clear = (\<lambda>(w :: nat) m b. if w = 0 then (fst b AND NOT m, snd b) else (fst b, snd b AND NOT m))
      in if count = 0 then bits
         else
           let bits1 = clear word (if n = 64 then - 1 else push_bit shift (push_bit n 1 - 1)) bits;
               count1 = count - n
           in if count1 \<noteq> 0
              then clear (word + 1) (if count1 = 64 then - 1 else push_bit count1 1 - 1) bits1
              else bits1)"

definition ia64_rotate_low_bits_left_one :: "bits2 \<Rightarrow> nat \<Rightarrow> bits2" where
  "ia64_rotate_low_bits_left_one bits count =
     (let old0 = fst bits in
      if count \<le> 64 then
        let m = (if count = 64 then - 1 else push_bit count 1 - 1);
            carry = drop_bit (count - 1) old0 AND 1
        in ((old0 AND NOT m) OR ((push_bit 1 old0 OR carry) AND m), snd bits)
      else
        let count1 = count - 64;
            m = push_bit count1 1 - 1;
            carry = drop_bit (count1 - 1) (snd bits) AND 1
        in (push_bit 1 old0 OR carry,
            (snd bits AND NOT m) OR ((push_bit 1 (snd bits) OR drop_bit 63 old0) AND m)))"

section \<open>Bit-level descriptions\<close>

lemma bit_bits2_to_128: "i < 128 \<Longrightarrow> bit (bits2_to_128 b) i = bits2_get b i"
  by (cases "i < 64")
    (auto simp: bits2_to_128_def bit_or_iff bit_push_bit_iff bit_ucast_iff bits2_get_low bits2_get_high
      dest: bit_word_lt_length)

lemma bits2_get_of_128:
  "i < 128 \<Longrightarrow> bits2_get (ucast (w :: 128 word), ucast (drop_bit 64 w)) i = bit w i"
  by (cases "i < 64") (auto simp: bits2_get_low bits2_get_high bit_ucast_iff bit_drop_bit_eq)

lemma bits2_get_copy:
  assumes "dst_bit + count \<le> 128" "src_bit + count \<le> 128" "i < 128"
  shows "bits2_get (ia64_copy_bit_range dst dst_bit src src_bit count) i =
    (if dst_bit \<le> i \<and> i < dst_bit + count then bits2_get src (i - dst_bit + src_bit) else bits2_get dst i)"
proof (cases "count = 0")
  case True
  then show ?thesis by (auto simp: ia64_copy_bit_range_def)
next
  case False
  let ?m = "if count = 128 then NOT 0 else push_bit count (1 :: 128 word) - 1"
  let ?X = "push_bit dst_bit (drop_bit src_bit (bits2_to_128 src))"
  have "bit ?m k \<longleftrightarrow> k < count" if "k < 128" for k
    using that assms(1) unfolding low_mask_eq by (auto simp: bit_mask_iff bit_not_iff)
  then have m: "bit (push_bit dst_bit ?m) i \<longleftrightarrow> dst_bit \<le> i \<and> i < dst_bit + count"
    using assms(3) by (auto simp: bit_push_bit_iff)
  have x: "bit ?X i = bits2_get src (i - dst_bit + src_bit)" if "dst_bit \<le> i" "i < dst_bit + count"
    using that assms by (simp add: bit_push_bit_iff bit_drop_bit_eq bit_bits2_to_128 add.commute)
  have "ia64_copy_bit_range dst dst_bit src src_bit count =
      (let t = (bits2_to_128 dst AND NOT (push_bit dst_bit ?m)) OR (?X AND push_bit dst_bit ?m)
       in (ucast t, ucast (drop_bit 64 t)))"
    using False by (simp only: ia64_copy_bit_range_def Let_def if_False)
  then have "bits2_get (ia64_copy_bit_range dst dst_bit src src_bit count) i =
      (if bit (push_bit dst_bit ?m) i then bit ?X i else bit (bits2_to_128 dst) i)"
    using assms(3) by (simp only: Let_def bits2_get_of_128 bit_or_iff bit_and_iff bit_not_iff) auto
  then show ?thesis unfolding m using x assms(3) by (simp add: bit_bits2_to_128)
qed

text \<open>The masks of the two words a range touches.\<close>

lemma bit_range_mask:
  assumes "s + n \<le> 64" "k < 64"
  shows "bit (if n = 64 then - 1 else push_bit s (push_bit n (1 :: u64) - 1)) k \<longleftrightarrow> s \<le> k \<and> k < s + n"
  using assms unfolding low_mask_eq by (auto simp: bit_push_bit_iff bit_mask_iff)

lemma bit_low_mask:
  assumes "n \<le> 64" "k < 64"
  shows "bit (if n = 64 then - 1 else push_bit n (1 :: u64) - 1) k \<longleftrightarrow> k < n"
  using assms unfolding low_mask_eq by (auto simp: bit_mask_iff)

lemma bits2_get_and_not:
  "i < 64 \<Longrightarrow> bits2_get (x AND NOT m, y) i \<longleftrightarrow> bit x i \<and> \<not> bit m i"
  "64 \<le> i \<Longrightarrow> i < 128 \<Longrightarrow> bits2_get (x, y AND NOT m) i \<longleftrightarrow> bit y (i - 64) \<and> \<not> bit m (i - 64)"
  by (auto simp: bits2_get_low bits2_get_high bit_and_iff bit_not_iff)

lemma bits2_get_clear:
  assumes "first + count \<le> 128" "i < 128"
  shows "bits2_get (ia64_clear_bit_range bits first count) i \<longleftrightarrow>
    bits2_get bits i \<and> \<not> (first \<le> i \<and> i < first + count)"
proof (cases "count = 0")
  case True
  then show ?thesis by (auto simp: ia64_clear_bit_range_def)
next
  case False
  let ?M = "\<lambda>n s. if n = 64 then - 1 else push_bit s (push_bit n (1 :: u64) - 1)"
  let ?L = "\<lambda>n. if n = 64 then - 1 else push_bit n (1 :: u64) - 1"
  show ?thesis
  proof (cases "first < 64")
    case True
    let ?n = "min count (64 - first)"
    have eq: "ia64_clear_bit_range bits first count =
        (if count - ?n \<noteq> 0 then (fst bits AND NOT (?M ?n first), snd bits AND NOT (?L (count - ?n)))
         else (fst bits AND NOT (?M ?n first), snd bits))"
      using True False by (simp only: ia64_clear_bit_range_def Let_def) simp
    show ?thesis
    proof (cases "i < 64")
      case low: True
      have "first + ?n \<le> 64" using True by simp
      note m = bit_range_mask [OF this low]
      have "bits2_get (ia64_clear_bit_range bits first count) i \<longleftrightarrow>
          bit (fst bits) i \<and> \<not> bit (?M ?n first) i"
        using low unfolding eq by (cases "count - ?n = 0") (simp_all only: bits2_get_and_not if_True if_False simp_thms)
      then show ?thesis using low unfolding m by (auto simp: bits2_get_low)
    next
      case high: False
      with assms have "i - 64 < 64" "count - ?n \<le> 64" by auto
      note m = bit_low_mask [OF this(2,1)]
      have "bits2_get (ia64_clear_bit_range bits first count) i \<longleftrightarrow>
          bit (snd bits) (i - 64) \<and> \<not> (count - ?n \<noteq> 0 \<and> bit (?L (count - ?n)) (i - 64))"
      proof (cases "count - ?n = 0")
        case True
        then show ?thesis using high assms unfolding eq
          by (simp only: bits2_get_high not_less snd_conv simp_thms if_False)
      next
        case False
        then show ?thesis using high assms unfolding eq
          by (simp only: bits2_get_and_not not_less if_True simp_thms)
      qed
      then show ?thesis using high assms True unfolding m by (auto simp: bits2_get_high)
    qed
  next
    case high: False
    with assms False have f: "first div 64 = 1" "first mod 64 = first - 64" "count \<le> 64 - (first - 64)"
      by (auto simp: div_nat_eqI mod_if)
    then have eq: "ia64_clear_bit_range bits first count =
        (fst bits, snd bits AND NOT (?M count (first - 64)))"
      using False by (simp only: ia64_clear_bit_range_def Let_def) (simp add: min_absorb1)
    show ?thesis
    proof (cases "i < 64")
      case True
      with high show ?thesis unfolding eq by (simp add: bits2_get_low)
    next
      case ihigh: False
      with assms f have "first - 64 + count \<le> 64" "i - 64 < 64" by auto
      note m = bit_range_mask [OF this]
      have "bits2_get (ia64_clear_bit_range bits first count) i \<longleftrightarrow>
          bit (snd bits) (i - 64) \<and> \<not> bit (?M count (first - 64)) (i - 64)"
        using ihigh assms unfolding eq by (simp only: bits2_get_and_not not_less)
      then show ?thesis using high ihigh assms unfolding m by (auto simp: bits2_get_high)
    qed
  qed
qed

lemma bit_shift_in:
  assumes "k < 64"
  shows "bit (push_bit 1 w OR (c :: u64) AND 1) k = (if k = 0 then bit c 0 else bit w (k - 1))"
proof -
  have "bit (push_bit 1 w) k \<longleftrightarrow> 1 \<le> k \<and> bit w (k - 1)"
    using assms by (simp only: bit_push_bit_iff) simp
  moreover have "bit (c AND 1) k \<longleftrightarrow> k = 0 \<and> bit c 0"
    by (auto simp: bit_and_iff bit_1_iff)
  ultimately show ?thesis by (simp only: bit_or_iff) auto
qed

lemma bit_rotated_word:
  assumes "0 < n" "n \<le> 64" "k < 64"
  shows "bit ((w AND NOT (if n = 64 then - 1 else push_bit n (1 :: u64) - 1)) OR
      ((push_bit 1 w OR c AND 1) AND (if n = 64 then - 1 else push_bit n 1 - 1))) k =
    (if k < n then (if k = 0 then bit c 0 else bit w (k - 1)) else bit w k)"
proof -
  note m = bit_low_mask [OF assms(2,3)]
  have sel: "bit ((w AND NOT M) OR (x AND M)) k = (if bit M k then bit x k else bit w k)" for x M :: u64
    using assms(3) by (auto simp: bit_or_iff bit_and_iff bit_not_iff)
  show ?thesis unfolding sel m bit_shift_in [OF assms(3)] ..
qed

lemma bits2_get_rotate:
  assumes "0 < count" "count < 128" "i < 128"
  shows "bits2_get (ia64_rotate_low_bits_left_one bits count) i =
    (if i < count then bits2_get bits (if i = 0 then count - 1 else i - 1) else bits2_get bits i)"
proof (cases "count \<le> 64")
  case True
  then show ?thesis
    using assms bit_rotated_word [OF assms(1) True, of i "fst bits" "drop_bit (count - 1) (fst bits)"]
    by (cases "i < 64") (simp_all only: ia64_rotate_low_bits_left_one_def Let_def bits2_get_low bits2_get_high
        bit_drop_bit_eq if_True fst_conv snd_conv not_less, auto simp: bits2_get_low bits2_get_high)
next
  case False
  let ?c = "count - 64"
  from False assms have c: "0 < ?c" "?c \<le> 64" "?c \<noteq> 64" by auto
  have one: "drop_bit 63 (fst bits) = drop_bit 63 (fst bits) AND 1"
    by (rule bit_word_eqI) (auto simp: bit_drop_bit_eq bit_and_iff bit_1_iff dest: bit_word_lt_length)
  have eq: "ia64_rotate_low_bits_left_one bits count =
      (push_bit 1 (fst bits) OR (drop_bit (?c - 1) (snd bits) AND 1),
       (snd bits AND NOT (if ?c = 64 then - 1 else push_bit ?c 1 - 1)) OR
       ((push_bit 1 (snd bits) OR drop_bit 63 (fst bits) AND 1) AND (if ?c = 64 then - 1 else push_bit ?c 1 - 1)))"
    using False c(3) one by (simp only: ia64_rotate_low_bits_left_one_def Let_def if_False simp_thms)
  show ?thesis
  proof (cases "i < 64")
    case True
    then show ?thesis
      using False assms unfolding eq
      by (simp only: bits2_get_low fst_conv bit_shift_in bit_drop_bit_eq) (auto simp: bits2_get_low bits2_get_high)
  next
    case high: False
    with assms have "i - 64 < 64" by auto
    from bit_rotated_word [OF c(1,2) this, of "snd bits" "drop_bit 63 (fst bits)"] high assms False
    show ?thesis unfolding eq
      by (simp only: bits2_get_high not_less snd_conv bit_drop_bit_eq) (auto simp: bits2_get_low bits2_get_high)
  qed
qed

end
