(* ===== verification/Rse_Address.thy ===== *)
theory Rse_Address
  imports Ia64_Prelude
begin

text \<open>
  Addresses of the register stack backing store, from \<^verbatim>\<open>target/ia64/arch/rse.c\<close>: every
  64th word of the store holds the NaT bits of the 63 registers below it.  The functions
  count those collection words when a pointer moves; the lemmas state the counts as integer
  arithmetic on the collection bit \<^verbatim>\<open>addr{8:3}\<close>, the form the engine's proofs use.
\<close>

section \<open>Definitions\<close>

text \<open>The C remainder of a negative dividend is negative; the code then adds the modulus.\<close>

definition ia64_rse_wrap_phys_slow :: "int \<Rightarrow> int" where
  "ia64_rse_wrap_phys_slow idx =
     (let r = (if idx < 0 then - ((- idx) mod 96) else idx mod 96)
      in if r < 0 then r + 96 else r)"

definition ia64_rse_wrap_phys :: "int \<Rightarrow> nat" where
  "ia64_rse_wrap_phys idx =
     nat (if idx \<ge> - 96 \<and> idx < 2 * 96 then
            (if idx < 0 then idx + 96 else if idx \<ge> 96 then idx - 96 else idx)
          else ia64_rse_wrap_phys_slow idx)"

definition ia64_rse_collect_bit :: "u64 \<Rightarrow> u32" where
  "ia64_rse_collect_bit addr = ucast (drop_bit 3 addr AND 0x3f)"

definition ia64_rse_collect_word :: "u64 \<Rightarrow> u64" where
  "ia64_rse_collect_word addr = (addr AND NOT 0x1ff) OR push_bit 3 63"

definition ia64_rse_rnat_low_mask :: "u32 \<Rightarrow> u64" where
  "ia64_rse_rnat_low_mask b =
     (if b \<ge> 62 then 0x7FFFFFFFFFFFFFFF else push_bit (unat (b + 1)) 1 - 1)"

definition ia64_rse_nat_word_count_slow :: "u32 \<Rightarrow> u32" where
  "ia64_rse_nat_word_count_slow words = words div 63"

definition ia64_rse_nat_word_count :: "u32 \<Rightarrow> u32" where
  "ia64_rse_nat_word_count words =
     (if words < 3 * 63 then
        (if words \<ge> 63 then 1 else 0) + (if words \<ge> 2 * 63 then 1 else 0)
      else ia64_rse_nat_word_count_slow words)"

definition ia64_rse_nat_words_grow :: "u64 \<Rightarrow> u32 \<Rightarrow> u32" where
  "ia64_rse_nat_words_grow addr nregs =
     (let words = ia64_rse_collect_bit addr + nregs in ia64_rse_nat_word_count words)"

definition ia64_rse_nat_words_shrink :: "u64 \<Rightarrow> u32 \<Rightarrow> u32" where
  "ia64_rse_nat_words_shrink addr nregs =
     (let words = 62 - ia64_rse_collect_bit addr + nregs in ia64_rse_nat_word_count words)"

definition ia64_rse_register_words_below :: "u64 \<Rightarrow> u32 \<Rightarrow> u32" where
  "ia64_rse_register_words_below addr words =
     (let first_nat = ia64_rse_collect_bit addr + 1;
          nat_words = (if words < first_nat then 0 else 1 + (words - first_nat) div 64)
      in words - nat_words)"

section \<open>Physical register indices\<close>

lemma wrap_phys_slow_mod: "ia64_rse_wrap_phys_slow idx = idx mod 96"
proof (cases "idx < 0")
  case True
  have "idx mod 96 = (if (- idx) mod 96 = 0 then 0 else 96 - (- idx) mod 96)"
    using zmod_zminus1_eq_if [of "- idx" 96] by simp
  moreover have "0 \<le> (- idx) mod 96" "(- idx) mod 96 < 96" by simp_all
  ultimately show ?thesis
    using True unfolding ia64_rse_wrap_phys_slow_def Let_def by auto
next
  case False
  then show ?thesis by (simp add: ia64_rse_wrap_phys_slow_def Let_def not_less)
qed

lemma int_wrap_phys: "int (ia64_rse_wrap_phys idx) = idx mod 96"
proof (cases "idx \<ge> - 96 \<and> idx < 2 * 96")
  case True
  then show ?thesis
    unfolding ia64_rse_wrap_phys_def
    using mod_pos_pos_trivial [of idx 96] mod_pos_pos_trivial [of "idx + 96" 96]
      mod_pos_pos_trivial [of "idx - 96" 96] mod_add_self2 [of idx 96] minus_mod_self2 [of idx 96]
    by (auto simp: not_le not_less)
next
  case False
  then show ?thesis by (auto simp: ia64_rse_wrap_phys_def wrap_phys_slow_mod)
qed

lemma wrap_phys_less [simp]: "ia64_rse_wrap_phys idx < 96"
  using int_wrap_phys [of idx] pos_mod_bound [of 96 idx] by linarith

lemma wrap_phys_cong: "i mod 96 = j mod 96 \<Longrightarrow> ia64_rse_wrap_phys i = ia64_rse_wrap_phys j"
  using int_wrap_phys [of i] int_wrap_phys [of j] by simp

section \<open>Collection bits\<close>

text \<open>The collection bit as an integer.\<close>

definition rnat_bit :: "u64 \<Rightarrow> int" where
  "rnat_bit addr = uint addr div 8 mod 64"

lemma take_drop_take_64: "take_bit 6 (drop_bit 3 (take_bit 64 x)) = take_bit 6 (drop_bit 3 (x :: int))"
  by (rule bit_eqI) (auto simp: bit_take_bit_iff bit_drop_bit_eq)

lemma mod_div_mod_512: "x mod 2 ^ 64 div 8 mod 64 = x div 8 mod (64 :: int)"
  using take_drop_take_64 [of x] by (simp add: take_bit_eq_mod drop_bit_eq_div)

lemma uint_collect_bit: "uint (ia64_rse_collect_bit addr) = rnat_bit addr"
proof -
  have "drop_bit 3 addr AND 0x3f = take_bit 6 (drop_bit 3 addr)"
    using and_low_mask [of "drop_bit 3 addr" 6] by simp
  then have "uint (ia64_rse_collect_bit addr) = uint (take_bit 6 (drop_bit 3 addr))"
    by (simp add: ia64_rse_collect_bit_def unsigned_ucast_eq unsigned_take_bit_eq)
  also have "\<dots> = take_bit 6 (drop_bit 3 (uint addr))"
    by (simp add: unsigned_take_bit_eq unsigned_drop_bit_eq take_drop_take_64)
  also have "\<dots> = rnat_bit addr"
    by (simp add: take_bit_eq_mod drop_bit_eq_div rnat_bit_def)
  finally show ?thesis .
qed

lemma rnat_bit_bounds [simp]: "0 \<le> rnat_bit addr" "rnat_bit addr < 64"
  by (simp_all add: rnat_bit_def)

lemma unat_collect_bit: "unat (ia64_rse_collect_bit addr) = nat (rnat_bit addr)"
  using uint_collect_bit [of addr] by (simp add: unat_eq_nat_uint)

lemma collect_bit_less: "ia64_rse_collect_bit addr < 64"
  using uint_collect_bit [of addr] rnat_bit_bounds [of addr] by (simp add: word_less_def)

lemma uint_add_of_int: "uint (addr + word_of_int x :: u64) = (uint addr + x) mod 2 ^ 64"
  by (simp add: uint_word_ariths uint_word_of_int_eq take_bit_eq_mod mod_add_right_eq)

lemma rnat_bit_shift: "rnat_bit (addr + word_of_int (8 * k)) = (rnat_bit addr + k) mod 64"
proof -
  have "rnat_bit (addr + word_of_int (8 * k)) = (uint addr + 8 * k) mod 2 ^ 64 div 8 mod 64"
    unfolding rnat_bit_def uint_add_of_int ..
  also have "\<dots> = (uint addr + 8 * k) div 8 mod 64"
    by (rule mod_div_mod_512)
  also have "\<dots> = (uint addr div 8 + k) mod 64" by (simp add: add.commute)
  also have "\<dots> = (rnat_bit addr + k) mod 64" by (simp add: rnat_bit_def mod_add_left_eq)
  finally show ?thesis .
qed

lemma uint_add_fits:
  "uint a + uint b < 2 ^ LENGTH('a) \<Longrightarrow> uint (a + b :: 'a :: len word) = uint a + uint b"
  by (simp add: uint_word_ariths)

lemma uint_sub_fits: "uint b \<le> uint a \<Longrightarrow> uint (a - b :: 'a :: len word) = uint a - uint b"
  by (simp add: uint_sub_if')

section \<open>Counting collection words\<close>

lemma uint_nat_word_count: "uint (ia64_rse_nat_word_count w) = uint w div 63"
proof (cases "w < 189")
  case True
  have "(if uint w \<ge> 63 then 1 else 0) + (if uint w \<ge> 126 then 1 else 0) = uint w div 63"
    if "0 \<le> uint w" "uint w < 189" using that by (auto simp: not_le)
  with True show ?thesis by (auto simp: ia64_rse_nat_word_count_def word_less_def word_le_def)
next
  case False
  then show ?thesis
    by (simp add: ia64_rse_nat_word_count_def ia64_rse_nat_word_count_slow_def uint_div)
qed

lemma uint_nat_words_grow:
  assumes "uint n < 2 ^ 31"
  shows "uint (ia64_rse_nat_words_grow addr n) = (rnat_bit addr + uint n) div 63"
proof -
  have "uint (ia64_rse_collect_bit addr + n) = rnat_bit addr + uint n"
    using assms rnat_bit_bounds(2) [of addr]
    by (subst uint_add_fits) (simp_all add: uint_collect_bit del: rnat_bit_bounds)
  then show ?thesis by (simp add: ia64_rse_nat_words_grow_def uint_nat_word_count)
qed

lemma uint_nat_words_shrink:
  assumes "rnat_bit addr < 63" "uint n < 2 ^ 31"
  shows "uint (ia64_rse_nat_words_shrink addr n) = (62 - rnat_bit addr + uint n) div 63"
proof -
  have "uint (62 - ia64_rse_collect_bit addr) = 62 - rnat_bit addr"
    using assms(1) by (subst uint_sub_fits) (simp_all add: uint_collect_bit)
  then have "uint (62 - ia64_rse_collect_bit addr + n) = 62 - rnat_bit addr + uint n"
    using assms rnat_bit_bounds(1) [of addr]
    by (subst uint_add_fits) (simp_all del: rnat_bit_bounds)
  then show ?thesis by (simp add: ia64_rse_nat_words_shrink_def uint_nat_word_count)
qed

text \<open>
  The number of collection words among the \<open>k\<close> backing store words below an address whose
  collection bit is \<open>c\<close>.  A negative \<open>k\<close> counts the words above the address, negatively.
\<close>

definition rnat_slots :: "int \<Rightarrow> int \<Rightarrow> int" where
  "rnat_slots c k = (k + 63 - c) div 64"

lemma split_64:
  fixes x :: int
  obtains q r where "x = r + 64 * q" "0 \<le> r" "r < 64" "x mod 64 = r" "x div 64 = q"
  using that [of "x mod 64" "x div 64"] by simp

lemma div_mod_64I: "x = r + 64 * q \<Longrightarrow> 0 \<le> r \<Longrightarrow> r < 64 \<Longrightarrow> x mod 64 = r \<and> x div 64 = (q :: int)"
  by simp

lemma mod_succ_64: "(x + 1) mod 64 = (if x mod 64 = 63 then 0 else x mod 64 + (1 :: int))"
  and div_succ_64: "(x + 1) div 64 = x div 64 + (if x mod 64 = 63 then 1 else (0 :: int))"
proof -
  obtain q r where x: "x = r + 64 * q" "0 \<le> r" "r < 64" "x mod 64 = r" "x div 64 = q"
    by (rule split_64)
  have "(x + 1) mod 64 = (if r = 63 then 0 else r + 1) \<and> (x + 1) div 64 = q + (if r = 63 then 1 else 0)"
  proof (cases "r = 63")
    case True
    with x(1) have "x + 1 = 64 * (q + 1)" by simp
    with True show ?thesis by simp
  next
    case False
    with x have "x + 1 = (r + 1) + 64 * q" "0 \<le> r + 1" "r + 1 < 64" by simp_all
    from div_mod_64I [OF this] False show ?thesis by simp
  qed
  with x show "(x + 1) mod 64 = (if x mod 64 = 63 then 0 else x mod 64 + (1 :: int))"
    "(x + 1) div 64 = x div 64 + (if x mod 64 = 63 then 1 else 0)" by simp_all
qed

lemma minus_mod_64: "(- y - 1) mod 64 = 63 - y mod (64 :: int)"
proof -
  obtain q r where y: "y = r + 64 * q" "0 \<le> r" "r < 64" "y mod 64 = r" "y div 64 = q"
    by (rule split_64)
  then have "- y - 1 = (63 - r) + 64 * (- q - 1)" "0 \<le> 63 - r" "63 - r < 64" by simp_all
  from div_mod_64I [OF this] y(4) show ?thesis by simp
qed

lemma rnat_slots_succ:
  "rnat_slots c (k + 1) = rnat_slots c k + (if (c - (k + 1)) mod 64 = 63 then 1 else 0)"
proof -
  have e: "k + 1 + 63 - c = k + 63 - c + 1" and c: "c - (k + 1) = - (k - c) - 1" by simp_all
  have "(k + 63 - c) mod 64 = 63 \<longleftrightarrow> (k - c) mod 64 = 0"
  proof -
    have "(k - c) mod 64 = (k - c + 64) mod 64" by (rule mod_add_self2 [symmetric])
    also have "k - c + 64 = k + 63 - c + 1" by simp
    finally have m: "(k - c) mod 64 = (if (k + 63 - c) mod 64 = 63 then 0 else (k + 63 - c) mod 64 + 1)"
      unfolding mod_succ_64 .
    have "0 \<le> (k + 63 - c) mod 64" by simp
    then show ?thesis unfolding m by (simp only: split: if_split) linarith
  qed
  then have "(k + 63 - c) mod 64 = 63 \<longleftrightarrow> (c - (k + 1)) mod 64 = 63"
    unfolding c minus_mod_64 by simp
  then show ?thesis unfolding rnat_slots_def e div_succ_64 by simp
qed

lemma rnat_slots_card:
  assumes "0 \<le> c" "c < 64" "0 \<le> k"
  shows "rnat_slots c k = int (card {j. 1 \<le> j \<and> j \<le> k \<and> (c - j) mod 64 = 63})"
  using assms(3)
proof (induction k rule: int_ge_induct)
  case base
  have none: "{j. 1 \<le> j \<and> j \<le> (0::int) \<and> (c - j) mod 64 = 63} = {}" by auto
  show ?case unfolding none using assms by (simp add: rnat_slots_def)
next
  case (step k)
  let ?S = "\<lambda>k. {j. 1 \<le> j \<and> j \<le> k \<and> (c - j) mod 64 = 63}"
  have fin: "finite (?S k)" by (rule finite_subset [of _ "{1..k}"]) auto
  have "?S (k + 1) = (if (c - (k + 1)) mod 64 = 63 then insert (k + 1) (?S k) else ?S k)"
    using step.hyps by (auto simp: le_less)
  then have "int (card (?S (k + 1))) = int (card (?S k)) + (if (c - (k + 1)) mod 64 = 63 then 1 else 0)"
    using fin by (simp split: if_splits)
  then show ?case using step.IH by (simp add: rnat_slots_succ)
qed

text \<open>Both pointer movements change the number of collection words by the code's counts.\<close>

lemma add_div_63:
  fixes v :: int
  shows "(v + v div 63) div 64 = v div 63" and "(v + v div 63) mod 64 = v mod 63"
proof -
  have e: "v + v div 63 = v mod 63 + 64 * (v div 63)" by simp
  have "0 \<le> v mod 63" "v mod 63 < 64" by simp (smt (verit) pos_mod_bound)
  then show "(v + v div 63) div 64 = v div 63" "(v + v div 63) mod 64 = v mod 63"
    unfolding e by simp_all
qed

lemma rnat_slots_add: "c' = c + d - 64 * m \<Longrightarrow> rnat_slots c' (k + d) = rnat_slots c k + m"
proof -
  assume "c' = c + d - 64 * m"
  then have "k + d + 63 - c' = (k + 63 - c) + m * 64" by simp
  then show ?thesis unfolding rnat_slots_def by simp
qed

lemma grow_geometry:
  fixes c n :: int
  assumes "0 \<le> c" "c < 63" "0 \<le> n"
  defines "m \<equiv> (c + n) div 63"
  shows "(c + n + m) mod 64 < 63"
    and "rnat_slots ((c + n + m) mod 64) (k + (n + m)) = rnat_slots c k + m"
proof -
  show "(c + n + m) mod 64 < 63" unfolding m_def add_div_63 by simp
  show "rnat_slots ((c + n + m) mod 64) (k + (n + m)) = rnat_slots c k + m"
    by (rule rnat_slots_add) (simp add: m_def add_div_63 minus_mult_div_eq_mod [symmetric])
qed

lemma shrink_geometry:
  fixes c n :: int
  assumes "0 \<le> c" "c < 63" "0 \<le> n"
  defines "m \<equiv> (62 - c + n) div 63"
  shows "(c - n - m) mod 64 < 63"
    and "rnat_slots ((c - n - m) mod 64) (k - (n + m)) = rnat_slots c k - m"
proof -
  let ?u = "62 - c + n"
  have r: "0 \<le> ?u mod 63" "?u mod 63 < 63" by simp_all
  have "c - n - m = (62 - ?u mod 63) + 64 * (- m)"
    unfolding m_def minus_mult_div_eq_mod [symmetric] by simp
  moreover have "0 \<le> 62 - ?u mod 63" "62 - ?u mod 63 < 64" using r by linarith+
  ultimately have c': "(c - n - m) mod 64 = 62 - ?u mod 63" using div_mod_64I by blast
  show "(c - n - m) mod 64 < 63" using r unfolding c' by simp
  show "rnat_slots ((c - n - m) mod 64) (k - (n + m)) = rnat_slots c k - m"
  proof -
    have "62 - ?u mod 63 = c + - (n + m) - 64 * (- m)"
      unfolding m_def minus_mult_div_eq_mod [symmetric] by simp
    from rnat_slots_add [OF this, of k] show ?thesis unfolding c' diff_conv_add_uminus [of k]
        diff_conv_add_uminus [of "rnat_slots c k"] .
  qed
qed

lemma grow_shrink_inverse:
  fixes c n :: int
  assumes "0 \<le> c" "c < 63" "0 \<le> n"
  shows "(62 - (c + n + (c + n) div 63) mod 64 + n) div 63 = (c + n) div 63"
proof -
  have e: "62 - (c + n) mod 63 + n = (62 - c) + ((c + n) div 63) * 63"
    unfolding minus_mult_div_eq_mod [symmetric] by simp
  have "(62 - c + (c + n) div 63 * 63) div 63 = (c + n) div 63" using assms by simp
  then show ?thesis unfolding add_div_63 e .
qed

text \<open>
  The collection words of a partition of \<open>r\<close> registers, counted with one register more as in
  \<^verbatim>\<open>ia64_rse_new_frame\<close>, is a consistent count.
\<close>

lemma shrink_fixpoint:
  fixes c r :: int
  assumes "0 \<le> c" "c < 63" "0 \<le> r"
  shows "rnat_slots c (r + (62 - c + (r + 1)) div 63) = (62 - c + (r + 1)) div 63"
proof -
  let ?v = "62 - c + (r + 1)"
  have e: "r + ?v div 63 + 63 - c = ?v + ?v div 63" by simp
  show ?thesis unfolding rnat_slots_def e add_div_63 ..
qed

text \<open>Counting from the page numbers of two pointers, in 64 bit arithmetic cast to \<^verbatim>\<open>int32_t\<close>.\<close>

lemma uint_drop_bit: "uint (drop_bit n w) = uint (w :: u64) div 2 ^ n"
proof -
  have "take_bit 64 (uint w) = uint w"
    using unsigned_less [of w] by (intro take_bit_int_eq_self) simp_all
  moreover have "uint (drop_bit n w) = drop_bit n (take_bit 64 (uint w))"
    by (simp add: unsigned_drop_bit_eq)
  ultimately show ?thesis by (simp only: drop_bit_eq_div)
qed

lemma minus_div_64: "(- y - 1) div 64 = - (y div 64) - (1 :: int)"
proof -
  obtain q r where y: "y = r + 64 * q" "0 \<le> r" "r < 64" "y mod 64 = r" "y div 64 = q"
    by (rule split_64)
  then have "- y - 1 = (63 - r) + 64 * (- q - 1)" "0 \<le> 63 - r" "63 - r < 64" by simp_all
  from div_mod_64I [OF this] y(5) show ?thesis by simp
qed

lemma rnat_slots_pages: "h div 64 - (h - k) div 64 = rnat_slots (h mod 64) k"
proof -
  obtain q r where h: "h = r + 64 * q" "0 \<le> r" "r < 64" "h mod 64 = r" "h div 64 = q"
    by (rule split_64)
  let ?y = "k - r - 1"
  have "(h - k) div 64 = ((r - k) + 64 * q) div 64" using h(1) by (simp add: algebra_simps)
  also have "\<dots> = (r - k) div 64 + q" by simp
  also have "r - k = - ?y - 1" by simp
  also have "(- ?y - 1) div 64 = - (?y div 64) - 1" by (rule minus_div_64)
  finally have lo: "(h - k) div 64 = q - (?y div 64) - 1" by simp
  have "k + 63 - r = ?y + 64 * 1" by simp
  then have "(k + 63 - r) div 64 = ?y div 64 + 1" by simp
  then show ?thesis unfolding lo rnat_slots_def h(4,5) by simp
qed

lemma signed_32_plus_multiple:
  assumes "- (2 ^ 31) \<le> s" "s < 2 ^ 31"
  shows "signed_take_bit 31 (s + 2 ^ 55 * q) = (s :: int)"
proof -
  have "(s + 2 ^ 55 * q + 2 ^ 31) mod 2 ^ 32 = (s + 2 ^ 31 + 2 ^ 32 * (2 ^ 23 * q)) mod 2 ^ 32"
    by (simp add: algebra_simps)
  also have "\<dots> = (s + 2 ^ 31) mod 2 ^ 32" by (rule mod_mult_self2)
  also have "\<dots> = s + 2 ^ 31" using assms by (intro mod_pos_pos_trivial) simp_all
  finally show ?thesis
    by (simp add: signed_take_bit_eq_take_bit_shift take_bit_eq_mod)
qed

lemma page_difference:
  assumes lo: "lo = hi + word_of_int (8 * (- k))" and k: "\<bar>k\<bar> < 2 ^ 30" and aligned: "uint hi mod 8 = 0"
  shows "signed_take_bit 31 (uint (drop_bit 9 hi) - uint (drop_bit 9 lo)) = rnat_slots (rnat_bit hi) k"
proof -
  obtain h where hi: "uint hi = 8 * h" using aligned by auto
  obtain q where "(uint hi + 8 * (- k)) mod 2 ^ 64 = uint hi + 8 * (- k) - 2 ^ 64 * q"
    by (metis minus_mult_div_eq_mod)
  then have "uint lo = uint hi + 8 * (- k) - 2 ^ 64 * q" unfolding lo uint_add_of_int .
  then have lo8: "uint lo = 8 * (h - k + 64 * (- (2 ^ 55 * q)))" unfolding hi by simp
  have div512: "8 * x div 512 = x div 64" for x :: int
    using div_mult_mult1 [of 8 x 64] by simp
  have "uint lo div 512 = (h - k) div 64 - 2 ^ 55 * q"
    unfolding lo8 div512 div_mult_self2 [OF zero_neq_numeral [symmetric]] by simp
  moreover have "uint hi div 512 = h div 64" unfolding hi by (rule div512)
  moreover have "rnat_bit hi = h mod 64" unfolding rnat_bit_def hi by simp
  ultimately have d: "uint (drop_bit 9 hi) - uint (drop_bit 9 lo) = rnat_slots (rnat_bit hi) k + 2 ^ 55 * q"
    using rnat_slots_pages [of h k] by (simp add: uint_drop_bit)
  have "- (2 ^ 31) \<le> rnat_slots (rnat_bit hi) k \<and> rnat_slots (rnat_bit hi) k < 2 ^ 31"
  proof -
    have c: "0 \<le> rnat_bit hi" "rnat_bit hi < 64" by simp_all
    from k have "- 1073741824 < k" "k < 1073741824" by (simp_all add: abs_less_iff)
    with c have "- 2147483648 * 64 \<le> k + 63 - rnat_bit hi" "k + 63 - rnat_bit hi \<le> 2147483647 * 64"
      by linarith+
    from zdiv_mono1 [OF this(1), of 64] zdiv_mono1 [OF this(2), of 64] show ?thesis
      unfolding rnat_slots_def by simp
  qed
  then show ?thesis unfolding d by (intro signed_32_plus_multiple) simp_all
qed

lemma uint_register_words_below:
  assumes "uint words < 2 ^ 31"
  shows "uint (ia64_rse_register_words_below addr words) =
    uint words - rnat_slots (rnat_bit addr) (uint words)"
proof -
  let ?c = "rnat_bit addr" and ?f = "ia64_rse_collect_bit addr + 1"
  have c: "0 \<le> ?c" "?c < 64" by simp_all
  have f: "uint ?f = ?c + 1"
    using c by (subst uint_add_fits) (simp_all add: uint_collect_bit del: rnat_bit_bounds)
  show ?thesis
  proof (cases "words < ?f")
    case True
    then have "uint words < ?c + 1" using f by (simp add: word_less_def)
    moreover have "0 \<le> uint words" by simp
    ultimately have "uint words + 63 - ?c < 64" "0 \<le> uint words + 63 - ?c" using c by linarith+
    then have "rnat_slots ?c (uint words) = 0" unfolding rnat_slots_def by simp
    with True show ?thesis by (simp add: ia64_rse_register_words_below_def)
  next
    case False
    then have le: "?c + 1 \<le> uint words" using f by (simp add: word_less_def)
    then have d: "uint (words - ?f) = uint words - (?c + 1)" using f by (subst uint_sub_fits) simp_all
    let ?q = "(uint words - (?c + 1)) div 64"
    have "0 \<le> ?q" using le by (simp add: pos_imp_zdiv_nonneg_iff)
    moreover obtain r where "uint words - (?c + 1) = r + 64 * ?q" "0 \<le> r"
      by (rule split_64 [of "uint words - (?c + 1)"]) simp
    ultimately have q: "0 \<le> ?q" "?q \<le> uint words - (?c + 1)" by linarith+
    have n: "uint (1 + (words - ?f) div 64) = 1 + ?q"
      using q assms c by (subst uint_add_fits) (simp_all add: uint_div d del: rnat_bit_bounds)
    have "uint words + 63 - ?c = (uint words - (?c + 1)) + 1 * 64" by simp
    then have "rnat_slots ?c (uint words) = 1 + ?q" unfolding rnat_slots_def by simp
    moreover have "uint (words - (1 + (words - ?f) div 64)) = uint words - (1 + ?q)"
      using q c n by (subst uint_sub_fits) linarith+
    ultimately show ?thesis using False by (simp add: ia64_rse_register_words_below_def Let_def)
  qed
qed

text \<open>
  The subtraction of \<^verbatim>\<open>ia64_rse_nat_words_shrink\<close> is done in 32 bits: with a stack pointer on a
  collection word and no register to move it wraps, and the count is 68174084 words instead of
  the zero of the formula in its comment.
\<close>

lemma shrink_wraps_on_collection_word:
  assumes "ia64_rse_collect_bit addr = 63"
  shows "ia64_rse_nat_words_shrink addr 0 = 68174084"
  using assms by (simp add: ia64_rse_nat_words_shrink_def ia64_rse_nat_word_count_def
      ia64_rse_nat_word_count_slow_def)

end
