(* ===== verification/Rse_Rnat.thy ===== *)
theory Rse_Rnat
  imports Rse_Address
begin

text \<open>
  The NaT collection state of the register stack engine, from \<^verbatim>\<open>target/ia64/arch/rse.c\<close>:
  the spill-side latch (\<^verbatim>\<open>AR.RNAT\<close> with the mask of its defined bits), the fill-side latch,
  the writeback image retained across \<^verbatim>\<open>loadrs\<close>, and the table of suspended partial
  collections.  Each operation is described on the knowledge it keeps: a partial map from
  collection address and bit number to a NaT bit.
\<close>

section \<open>State\<close>

text \<open>\<^verbatim>\<open>IA64RnatShadowEntry\<close> and \<^verbatim>\<open>IA64RnatWritebackImage\<close> have the same fields.\<close>

record rnat_entry =
  re_value :: u64
  re_addr :: u64
  re_defined :: u64
  re_valid :: bool

record rnat_state =
  ar_rnat :: u64
  rse_rnat_addr :: u64
  rse_rnat_defined :: u64
  rse_load_rnat :: u64
  rse_load_rnat_addr :: u64
  rse_load_rnat_defined :: u64
  rse_load_rnat_valid :: bool
  rse_writeback_rnat :: rnat_entry
  rse_rnat_shadow :: "nat \<Rightarrow> rnat_entry"
  rse_rnat_shadow_count :: nat
  rse_rnat_shadow_last :: nat

text \<open>\<^verbatim>\<open>INT64_MAX\<close>: a collection has 63 bits.\<close>

abbreviation rnat_mask :: u64 where
  "rnat_mask \<equiv> 0x7FFFFFFFFFFFFFFF"

definition rnat_entry_zero :: rnat_entry where
  "rnat_entry_zero = \<lparr>re_value = 0, re_addr = 0, re_defined = 0, re_valid = False\<rparr>"

section \<open>The shadow table\<close>

text \<open>The hint of the last slot is tried first; \<^term>\<open>None\<close> stands for the C result \<open>-1\<close>.\<close>

definition ia64_rse_rnat_shadow_lookup :: "rnat_state \<Rightarrow> u64 \<Rightarrow> nat option" where
  "ia64_rse_rnat_shadow_lookup s addr =
     (let i = rse_rnat_shadow_last s - 1 in
      if rse_rnat_shadow_last s \<noteq> 0 \<and> i < rse_rnat_shadow_count s \<and>
         re_valid (rse_rnat_shadow s i) \<and> re_addr (rse_rnat_shadow s i) = addr
      then Some i
      else List.find (\<lambda>i. re_valid (rse_rnat_shadow s i) \<and> re_addr (rse_rnat_shadow s i) = addr)
             [0..<rse_rnat_shadow_count s])"

definition ia64_rse_rnat_shadow_find :: "u64 \<Rightarrow> rnat_state \<Rightarrow> rnat_state \<times> nat option" where
  "ia64_rse_rnat_shadow_find addr s =
     (let slot = ia64_rse_rnat_shadow_lookup s addr
      in (s\<lparr>rse_rnat_shadow_last := (case slot of None \<Rightarrow> 0 | Some i \<Rightarrow> i + 1)\<rparr>, slot))"

definition ia64_rse_rnat_shadow_delete :: "nat \<Rightarrow> rnat_state \<Rightarrow> rnat_state" where
  "ia64_rse_rnat_shadow_delete slot s =
     (let last_slot = rse_rnat_shadow_count s - 1;
          tab = rse_rnat_shadow s;
          tab1 = (if slot \<noteq> last_slot then tab(slot := tab last_slot) else tab)
      in s\<lparr>rse_rnat_shadow_count := last_slot, rse_rnat_shadow_last := 0,
           rse_rnat_shadow := tab1(last_slot := rnat_entry_zero)\<rparr>)"

definition ia64_rse_rnat_shadow_clear_all :: "rnat_state \<Rightarrow> rnat_state" where
  "ia64_rse_rnat_shadow_clear_all s =
     s\<lparr>rse_rnat_shadow := (\<lambda>_. rnat_entry_zero), rse_rnat_shadow_count := 0,
       rse_rnat_shadow_last := 0\<rparr>"

definition ia64_rse_rnat_shadow_remove :: "u64 \<Rightarrow> rnat_state \<Rightarrow> rnat_state" where
  "ia64_rse_rnat_shadow_remove addr s =
     (case ia64_rse_rnat_shadow_find addr s of
        (s1, None) \<Rightarrow> s1
      | (s1, Some slot) \<Rightarrow> ia64_rse_rnat_shadow_delete slot s1)"

definition ia64_rse_rnat_shadow_overlay :: "rnat_state \<Rightarrow> u64 \<Rightarrow> u64 \<times> u64 \<Rightarrow> u64 \<times> u64" where
  "ia64_rse_rnat_shadow_overlay s addr = (\<lambda>(value, defined).
     case ia64_rse_rnat_shadow_lookup s addr of
       None \<Rightarrow> (value, defined)
     | Some slot \<Rightarrow>
         let entry = rse_rnat_shadow s slot;
             shadow_defined = re_defined entry AND rnat_mask
         in ((value AND NOT shadow_defined) OR (re_value entry AND shadow_defined),
             defined OR shadow_defined))"

definition rnat_merge_entry :: "u64 \<Rightarrow> u64 \<Rightarrow> u64 \<Rightarrow> bool \<Rightarrow> rnat_entry \<Rightarrow> rnat_entry" where
  "rnat_merge_entry addr value defined incoming_newer entry =
     (let entry1 =
        (if re_valid entry \<and> re_addr entry = addr then
           (if incoming_newer then
              entry\<lparr>re_value := (re_value entry AND NOT defined) OR value,
                    re_defined := re_defined entry OR defined\<rparr>
            else
              let missing = defined AND NOT (re_defined entry)
              in entry\<lparr>re_value := re_value entry OR (value AND missing),
                       re_defined := re_defined entry OR missing\<rparr>)
         else \<lparr>re_value = value, re_addr = addr, re_defined = defined, re_valid = True\<rparr>)
      in entry1\<lparr>re_value := re_value entry1 AND (re_defined entry1 AND rnat_mask),
                re_defined := re_defined entry1 AND rnat_mask\<rparr>)"

definition ia64_rse_rnat_shadow_merge :: "u64 \<Rightarrow> u64 \<Rightarrow> u64 \<Rightarrow> bool \<Rightarrow> rnat_state \<Rightarrow> rnat_state" where
  "ia64_rse_rnat_shadow_merge addr value0 defined0 incoming_newer s =
     (let defined = defined0 AND rnat_mask;
          value = value0 AND defined
      in if addr = - 1 \<or> defined = 0 then s
         else
           let (s1, found) = ia64_rse_rnat_shadow_find addr s;
               (slot, count) =
                 (case found of
                    Some i \<Rightarrow> (i, rse_rnat_shadow_count s1)
                  | None \<Rightarrow>
                      if rse_rnat_shadow_count s1 = 96 then (0, rse_rnat_shadow_count s1)
                      else (rse_rnat_shadow_count s1, rse_rnat_shadow_count s1 + 1))
           in s1\<lparr>rse_rnat_shadow_count := count,
                 rse_rnat_shadow := (rse_rnat_shadow s1)(slot :=
                   rnat_merge_entry addr value defined incoming_newer (rse_rnat_shadow s1 slot)),
                 rse_rnat_shadow_last := slot + 1\<rparr>)"

definition ia64_rse_rnat_shadow_stash :: "rnat_state \<Rightarrow> rnat_state" where
  "ia64_rse_rnat_shadow_stash s =
     ia64_rse_rnat_shadow_merge (rse_rnat_addr s) (ar_rnat s) (rse_rnat_defined s) True s"

definition ia64_rse_load_rnat_stash :: "u64 \<Rightarrow> rnat_state \<Rightarrow> rnat_state" where
  "ia64_rse_load_rnat_stash next_addr s =
     (if \<not> rse_load_rnat_valid s \<or> rse_load_rnat_addr s = next_addr then s
      else ia64_rse_rnat_shadow_merge (rse_load_rnat_addr s) (rse_load_rnat s)
             (rse_load_rnat_defined s) False s)"

definition ia64_rse_rnat_shadow_take :: "u64 \<Rightarrow> rnat_state \<Rightarrow> rnat_state \<times> (u64 \<times> u64) option" where
  "ia64_rse_rnat_shadow_take addr s =
     (case ia64_rse_rnat_shadow_find addr s of
        (s1, None) \<Rightarrow> (s1, None)
      | (s1, Some slot) \<Rightarrow>
          let entry = rse_rnat_shadow s1 slot;
              defined = re_defined entry AND rnat_mask
          in (ia64_rse_rnat_shadow_delete slot s1, Some (re_value entry AND defined, defined)))"

definition rnat_clip_slot :: "nat \<Rightarrow> u64 \<Rightarrow> rnat_state \<Rightarrow> rnat_state \<times> bool" where
  "rnat_clip_slot slot keep s =
     (let entry = rse_rnat_shadow s slot;
          defined = re_defined entry AND keep;
          s1 = s\<lparr>rse_rnat_shadow := (rse_rnat_shadow s)(slot :=
                   entry\<lparr>re_defined := defined, re_value := re_value entry AND defined\<rparr>)\<rparr>
      in if defined = 0 then (ia64_rse_rnat_shadow_delete slot s1, True) else (s1, False))"

definition ia64_rse_rnat_shadow_clip :: "u64 \<Rightarrow> u64 \<Rightarrow> rnat_state \<Rightarrow> rnat_state" where
  "ia64_rse_rnat_shadow_clip addr keep s =
     (case ia64_rse_rnat_shadow_find addr s of
        (s1, None) \<Rightarrow> s1
      | (s1, Some slot) \<Rightarrow> fst (rnat_clip_slot slot (keep AND rnat_mask) s1))"

definition rnat_range_keep :: "u64 \<Rightarrow> u64 \<Rightarrow> u64 \<Rightarrow> u64" where
  "rnat_range_keep first past addr =
     (let base = addr AND NOT 0x1ff;
          lower = max first base;
          upper = min past addr
      in if lower < upper then
           let low_bit = unat (drop_bit 3 (lower - base));
               high_bit = unat (drop_bit 3 (upper - base));
               below_low = (if low_bit = 0 then 0 else push_bit low_bit 1 - 1);
               below_high = (if high_bit = 63 then rnat_mask else push_bit high_bit 1 - 1)
           in below_high AND NOT below_low
         else 0)"

function rnat_retain_from :: "nat \<Rightarrow> u64 \<Rightarrow> u64 \<Rightarrow> rnat_state \<Rightarrow> rnat_state" where
  "rnat_retain_from slot first past s =
     (if slot < rse_rnat_shadow_count s then
        let keep = rnat_range_keep first past (re_addr (rse_rnat_shadow s slot));
            (s1, deleted) = rnat_clip_slot slot keep s
        in if deleted then rnat_retain_from slot first past s1
           else rnat_retain_from (slot + 1) first past s1
      else s)"
  by pat_completeness auto
termination
  by (relation "measure (\<lambda>(slot, _, _, s). rse_rnat_shadow_count s - slot)")
    (auto simp: rnat_clip_slot_def ia64_rse_rnat_shadow_delete_def Let_def split: if_splits)

declare rnat_retain_from.simps [simp del]

definition ia64_rse_rnat_shadow_retain_range :: "u64 \<Rightarrow> u64 \<Rightarrow> rnat_state \<Rightarrow> rnat_state" where
  "ia64_rse_rnat_shadow_retain_range first past s = rnat_retain_from 0 first past s"

section \<open>The latches\<close>

text \<open>
  The bits of the spill latch laid over a pair of a value and a mask of defined bits, when the
  latch holds the collection.
\<close>

definition rnat_spill_overlay :: "rnat_state \<Rightarrow> u64 \<Rightarrow> u64 \<times> u64 \<Rightarrow> u64 \<times> u64" where
  "rnat_spill_overlay s addr = (\<lambda>(value, defined).
     if rse_rnat_addr s = addr then
       let spill_defined = rse_rnat_defined s AND rnat_mask
       in ((value AND NOT spill_defined) OR (ar_rnat s AND spill_defined), defined OR spill_defined)
     else (value, defined))"

definition rnat_load_latch :: "rnat_state \<Rightarrow> u64 \<Rightarrow> u64 \<times> u64" where
  "rnat_load_latch s addr =
     (if rse_load_rnat_valid s \<and> rse_load_rnat_addr s = addr then
        let defined = rse_load_rnat_defined s AND rnat_mask
        in (rse_load_rnat s AND defined, defined)
      else (0, 0))"

definition ia64_rse_compose_rnat :: "u64 \<Rightarrow> rnat_state \<Rightarrow> u64 \<times> u64" where
  "ia64_rse_compose_rnat bspstore s =
     (let collection_addr = ia64_rse_collect_word bspstore in
      if rse_rnat_addr s = - 1 \<and> \<not> rse_load_rnat_valid s then (0, 0)
      else
        let (value, defined) =
          rnat_spill_overlay s collection_addr
            (ia64_rse_rnat_shadow_overlay s collection_addr (rnat_load_latch s collection_addr))
        in (value AND defined AND rnat_mask, defined AND rnat_mask))"

definition ia64_rse_read_rnat :: "u64 \<Rightarrow> rnat_state \<Rightarrow> u64" where
  "ia64_rse_read_rnat bspstore s =
     (let visible = ia64_rse_rnat_low_mask (ia64_rse_collect_bit bspstore);
          (value, defined) = ia64_rse_compose_rnat bspstore s
      in value AND defined AND visible)"

definition ia64_rse_read_rnat_defined :: "u64 \<Rightarrow> rnat_state \<Rightarrow> u64" where
  "ia64_rse_read_rnat_defined bspstore s =
     (let visible = ia64_rse_rnat_low_mask (ia64_rse_collect_bit bspstore);
          (_, defined) = ia64_rse_compose_rnat bspstore s
      in defined AND visible)"

definition ia64_rse_invalidate_load_rnat :: "rnat_state \<Rightarrow> rnat_state" where
  "ia64_rse_invalidate_load_rnat s =
     s\<lparr>rse_load_rnat := 0, rse_load_rnat_addr := 0, rse_load_rnat_defined := 0,
       rse_load_rnat_valid := False\<rparr>"

definition ia64_rse_rnat_writeback_clear :: "rnat_state \<Rightarrow> rnat_state" where
  "ia64_rse_rnat_writeback_clear s = s\<lparr>rse_writeback_rnat := rnat_entry_zero\<rparr>"

definition ia64_rse_rnat_writeback_capture_loadrs :: "u64 \<Rightarrow> rnat_state \<Rightarrow> rnat_state" where
  "ia64_rse_rnat_writeback_capture_loadrs bspstore s =
     (let image = rse_writeback_rnat s;
          collection_addr = ia64_rse_collect_word bspstore;
          keep = ia64_rse_rnat_low_mask (ia64_rse_collect_bit bspstore);
          (base, s1) =
            (if re_valid image \<and> re_addr image = collection_addr then
               let defined = re_defined image AND rnat_mask
               in ((re_value image AND defined, defined), s)
             else if re_valid image then ((0, 0), ia64_rse_rnat_writeback_clear s)
             else ((0, 0), s));
          (value0, defined0) =
            rnat_spill_overlay s1 collection_addr
              (ia64_rse_rnat_shadow_overlay s1 collection_addr base);
          defined = defined0 AND (keep AND rnat_mask);
          value = value0 AND defined
      in if defined = 0 then ia64_rse_rnat_writeback_clear s1
         else s1\<lparr>rse_writeback_rnat :=
           \<lparr>re_value = value, re_addr = collection_addr, re_defined = defined, re_valid = True\<rparr>\<rparr>)"

definition ia64_rse_rnat_bind :: "u64 \<Rightarrow> rnat_state \<Rightarrow> rnat_state" where
  "ia64_rse_rnat_bind collection_addr s =
     (if rse_rnat_addr s = collection_addr then s
      else
        let s1 = ia64_rse_rnat_shadow_stash s;
            (value, defined) = rnat_load_latch s1 collection_addr;
            (s2, taken) = ia64_rse_rnat_shadow_take collection_addr s1;
            (value', defined') =
              (case taken of
                 None \<Rightarrow> (value, defined)
               | Some (shadow_value, shadow_defined) \<Rightarrow>
                   ((value AND NOT shadow_defined) OR (shadow_value AND shadow_defined),
                    defined OR shadow_defined))
        in s2\<lparr>ar_rnat := value', rse_rnat_addr := collection_addr, rse_rnat_defined := defined'\<rparr>)"

definition ia64_rse_rnat_reloaded :: "u64 \<Rightarrow> rnat_state \<Rightarrow> rnat_state" where
  "ia64_rse_rnat_reloaded bspstore s =
     (let b = ia64_rse_collect_bit bspstore;
          collection_addr = ia64_rse_collect_word bspstore;
          s1 = ia64_rse_rnat_writeback_clear s;
          s2 = (if rse_load_rnat_valid s1 \<and> rse_load_rnat_addr s1 = collection_addr
                then ia64_rse_invalidate_load_rnat s1 else s1);
          s3 = (if rse_rnat_addr s2 \<noteq> collection_addr then ia64_rse_rnat_shadow_stash s2 else s2);
          s4 = ia64_rse_rnat_shadow_remove collection_addr s3;
          defined = ia64_rse_rnat_low_mask b
      in s4\<lparr>rse_rnat_addr := collection_addr, rse_rnat_defined := defined,
            ar_rnat := ar_rnat s4 AND defined\<rparr>)"

definition ia64_rse_rnat_detach :: "bool \<Rightarrow> rnat_state \<Rightarrow> rnat_state" where
  "ia64_rse_rnat_detach discard_writeback s =
     (let s1 = ia64_rse_invalidate_load_rnat
                 (s\<lparr>ar_rnat := 0, rse_rnat_addr := - 1, rse_rnat_defined := 0\<rparr>)
      in if discard_writeback
         then ia64_rse_rnat_writeback_clear (ia64_rse_rnat_shadow_clear_all s1)
         else s1)"

definition ia64_rse_rnat_undefined :: "rnat_state \<Rightarrow> rnat_state" where
  "ia64_rse_rnat_undefined s = ia64_rse_rnat_detach True s"

text \<open>\<^verbatim>\<open>ia64_rse_rnat_move_bspstore\<close>; the caller also stores the new \<^verbatim>\<open>AR.BSPSTORE\<close>.\<close>

definition ia64_rse_rnat_move_bspstore :: "u64 \<Rightarrow> rnat_state \<Rightarrow> rnat_state" where
  "ia64_rse_rnat_move_bspstore bspstore s =
     (let collection_addr = ia64_rse_collect_word bspstore;
          keep = ia64_rse_rnat_low_mask (ia64_rse_collect_bit bspstore);
          s1 = (if rse_rnat_addr s = collection_addr then
                  let defined = rse_rnat_defined s AND keep
                  in s\<lparr>rse_rnat_defined := defined, ar_rnat := ar_rnat s AND defined\<rparr>
                else s)
      in ia64_rse_rnat_shadow_clip collection_addr keep s1)"

section \<open>Well-formed tables\<close>

definition rnat_entry_ok :: "rnat_entry \<Rightarrow> bool" where
  "rnat_entry_ok e \<longleftrightarrow> re_valid e \<and> re_defined e \<noteq> 0 \<and> re_defined e AND rnat_mask = re_defined e \<and>
     re_value e AND re_defined e = re_value e \<and> ia64_rse_collect_word (re_addr e) = re_addr e"

definition shadow_ok :: "rnat_state \<Rightarrow> bool" where
  "shadow_ok s \<longleftrightarrow> rse_rnat_shadow_count s \<le> 96 \<and>
     (\<forall>i<rse_rnat_shadow_count s. rnat_entry_ok (rse_rnat_shadow s i)) \<and>
     (\<forall>i<rse_rnat_shadow_count s. \<forall>j<rse_rnat_shadow_count s.
        re_addr (rse_rnat_shadow s i) = re_addr (rse_rnat_shadow s j) \<longrightarrow> i = j) \<and>
     (\<forall>i. rse_rnat_shadow_count s \<le> i \<longrightarrow> rse_rnat_shadow s i = rnat_entry_zero)"

lemma shadow_okD:
  assumes "shadow_ok s"
  shows "rse_rnat_shadow_count s \<le> 96"
    and "i < rse_rnat_shadow_count s \<Longrightarrow> rnat_entry_ok (rse_rnat_shadow s i)"
    and "i < rse_rnat_shadow_count s \<Longrightarrow> j < rse_rnat_shadow_count s \<Longrightarrow>
      re_addr (rse_rnat_shadow s i) = re_addr (rse_rnat_shadow s j) \<Longrightarrow> i = j"
    and "rse_rnat_shadow_count s \<le> i \<Longrightarrow> rse_rnat_shadow s i = rnat_entry_zero"
  using assms unfolding shadow_ok_def by blast+

lemma shadow_okI:
  assumes "rse_rnat_shadow_count s \<le> 96"
    and "\<And>i. i < rse_rnat_shadow_count s \<Longrightarrow> rnat_entry_ok (rse_rnat_shadow s i)"
    and "\<And>i j. i < rse_rnat_shadow_count s \<Longrightarrow> j < rse_rnat_shadow_count s \<Longrightarrow>
      re_addr (rse_rnat_shadow s i) = re_addr (rse_rnat_shadow s j) \<Longrightarrow> i = j"
    and "\<And>i. rse_rnat_shadow_count s \<le> i \<Longrightarrow> rse_rnat_shadow s i = rnat_entry_zero"
  shows "shadow_ok s"
  using assms unfolding shadow_ok_def by blast

lemma shadow_lookup_Some:
  assumes "ia64_rse_rnat_shadow_lookup s a = Some i"
  shows "i < rse_rnat_shadow_count s \<and> re_addr (rse_rnat_shadow s i) = a"
proof (cases "rse_rnat_shadow_last s \<noteq> 0 \<and> rse_rnat_shadow_last s - 1 < rse_rnat_shadow_count s \<and>
    re_valid (rse_rnat_shadow s (rse_rnat_shadow_last s - 1)) \<and>
    re_addr (rse_rnat_shadow s (rse_rnat_shadow_last s - 1)) = a")
  case True
  with assms show ?thesis by (auto simp: ia64_rse_rnat_shadow_lookup_def Let_def)
next
  case False
  with assms have "List.find (\<lambda>i. re_valid (rse_rnat_shadow s i) \<and> re_addr (rse_rnat_shadow s i) = a)
      [0..<rse_rnat_shadow_count s] = Some i"
    unfolding ia64_rse_rnat_shadow_lookup_def Let_def by (simp only: if_False)
  from find_upt_Some [OF this] show ?thesis by blast
qed

text \<open>With unique addresses the hint never changes the result of a lookup.\<close>

lemma shadow_lookup_iff:
  assumes "shadow_ok s"
  shows "ia64_rse_rnat_shadow_lookup s a = Some i \<longleftrightarrow>
    i < rse_rnat_shadow_count s \<and> re_addr (rse_rnat_shadow s i) = a"
proof
  assume "ia64_rse_rnat_shadow_lookup s a = Some i"
  then show "i < rse_rnat_shadow_count s \<and> re_addr (rse_rnat_shadow s i) = a"
    by (rule shadow_lookup_Some)
next
  assume i: "i < rse_rnat_shadow_count s \<and> re_addr (rse_rnat_shadow s i) = a"
  then have "re_valid (rse_rnat_shadow s i)"
    using shadow_okD(2) [OF assms] by (simp add: rnat_entry_ok_def)
  with i have "List.find (\<lambda>i. re_valid (rse_rnat_shadow s i) \<and> re_addr (rse_rnat_shadow s i) = a)
      [0..<rse_rnat_shadow_count s] \<noteq> None"
    by (auto simp: find_upt_None)
  then have "ia64_rse_rnat_shadow_lookup s a \<noteq> None"
    by (simp add: ia64_rse_rnat_shadow_lookup_def Let_def)
  then obtain j where j: "ia64_rse_rnat_shadow_lookup s a = Some j" by auto
  with shadow_lookup_Some [OF j] i shadow_okD(3) [OF assms] show "ia64_rse_rnat_shadow_lookup s a = Some i"
    by auto
qed

definition shadow_map :: "rnat_state \<Rightarrow> u64 \<Rightarrow> (u64 \<times> u64) option" where
  "shadow_map s a =
     map_option (\<lambda>i. (re_value (rse_rnat_shadow s i), re_defined (rse_rnat_shadow s i)))
       (ia64_rse_rnat_shadow_lookup s a)"

lemma shadow_map_iff:
  assumes "shadow_ok s"
  shows "shadow_map s a = Some vd \<longleftrightarrow> (\<exists>i<rse_rnat_shadow_count s. re_addr (rse_rnat_shadow s i) = a \<and>
    (re_value (rse_rnat_shadow s i), re_defined (rse_rnat_shadow s i)) = vd)"
  unfolding shadow_map_def by (auto simp: shadow_lookup_iff [OF assms])

lemma shadow_map_None:
  assumes "shadow_ok s"
  shows "shadow_map s a = None \<longleftrightarrow> (\<forall>i<rse_rnat_shadow_count s. re_addr (rse_rnat_shadow s i) \<noteq> a)"
  using shadow_lookup_iff [OF assms, of a] by (cases "ia64_rse_rnat_shadow_lookup s a") (auto simp: shadow_map_def)

lemma shadow_map_eqI:
  assumes "shadow_ok t"
    and "\<And>vd. m = Some vd \<Longrightarrow> \<exists>i<rse_rnat_shadow_count t. re_addr (rse_rnat_shadow t i) = a \<and>
      (re_value (rse_rnat_shadow t i), re_defined (rse_rnat_shadow t i)) = vd"
    and "m = None \<Longrightarrow> \<forall>i<rse_rnat_shadow_count t. re_addr (rse_rnat_shadow t i) \<noteq> a"
  shows "shadow_map t a = m"
proof (cases m)
  case None
  then show ?thesis using assms(3) shadow_map_None [OF assms(1)] by simp
next
  case (Some vd)
  then show ?thesis using assms(2) shadow_map_iff [OF assms(1)] by simp
qed

text \<open>Fields outside the table and its hint are irrelevant, and so is the hint.\<close>

lemma shadow_same_table:
  assumes "shadow_ok s" "rse_rnat_shadow t = rse_rnat_shadow s"
    "rse_rnat_shadow_count t = rse_rnat_shadow_count s"
  shows "shadow_ok t" "shadow_map t = shadow_map s"
proof -
  show ok: "shadow_ok t" using assms by (simp add: shadow_ok_def)
  show "shadow_map t = shadow_map s"
  proof
    fix a
    show "shadow_map t a = shadow_map s a"
      by (rule shadow_map_eqI [OF ok])
        (simp_all add: assms(2,3) shadow_map_iff [OF assms(1)] shadow_map_None [OF assms(1)])
  qed
qed

lemma shadow_delete:
  assumes ok: "shadow_ok s" and slot: "slot < rse_rnat_shadow_count s"
  shows "shadow_ok (ia64_rse_rnat_shadow_delete slot s)"
    and "shadow_map (ia64_rse_rnat_shadow_delete slot s) =
      (shadow_map s)(re_addr (rse_rnat_shadow s slot) := None)"
proof -
  let ?t = "ia64_rse_rnat_shadow_delete slot s"
  let ?l = "rse_rnat_shadow_count s - 1"
  have l: "?l < rse_rnat_shadow_count s" using slot by simp
  have count: "rse_rnat_shadow_count ?t = ?l"
    by (simp add: ia64_rse_rnat_shadow_delete_def Let_def)
  have tab: "rse_rnat_shadow ?t i = (if i = ?l then rnat_entry_zero
      else if i = slot then rse_rnat_shadow s ?l else rse_rnat_shadow s i)" for i
    by (simp add: ia64_rse_rnat_shadow_delete_def Let_def)
  note u = shadow_okD(3) [OF ok]
  show ok': "shadow_ok ?t"
  proof (rule shadow_okI)
    show "rse_rnat_shadow_count ?t \<le> 96" using shadow_okD(1) [OF ok] by (simp add: count)
    show "rnat_entry_ok (rse_rnat_shadow ?t i)" if "i < rse_rnat_shadow_count ?t" for i
      using that slot shadow_okD(2) [OF ok] by (simp add: count tab)
    show "i = j" if "i < rse_rnat_shadow_count ?t" "j < rse_rnat_shadow_count ?t"
      "re_addr (rse_rnat_shadow ?t i) = re_addr (rse_rnat_shadow ?t j)" for i j
    proof -
      from that have ij: "i < ?l" "j < ?l" by (simp_all add: count)
      with l have lt: "i < rse_rnat_shadow_count s" "j < rse_rnat_shadow_count s" by linarith+
      from u [OF lt] u [OF lt(1) l] u [OF l lt(2)] that(3) ij show ?thesis
        by (auto simp: tab split: if_splits)
    qed
    show "rse_rnat_shadow ?t i = rnat_entry_zero" if "rse_rnat_shadow_count ?t \<le> i" for i
      using that slot shadow_okD(4) [OF ok, of i] by (auto simp: count tab)
  qed
  show "shadow_map ?t = (shadow_map s)(re_addr (rse_rnat_shadow s slot) := None)"
  proof
    fix a
    let ?m = "((shadow_map s)(re_addr (rse_rnat_shadow s slot) := None)) a"
    show "shadow_map ?t a = ?m"
    proof (rule shadow_map_eqI [OF ok'])
      fix vd assume "?m = Some vd"
      then obtain i where i: "i < rse_rnat_shadow_count s" "re_addr (rse_rnat_shadow s i) = a"
          "(re_value (rse_rnat_shadow s i), re_defined (rse_rnat_shadow s i)) = vd"
        and ne: "a \<noteq> re_addr (rse_rnat_shadow s slot)"
        by (auto simp: shadow_map_iff [OF ok] split: if_splits)
      then have "i \<noteq> slot" by auto
      show "\<exists>i<rse_rnat_shadow_count ?t. re_addr (rse_rnat_shadow ?t i) = a \<and>
          (re_value (rse_rnat_shadow ?t i), re_defined (rse_rnat_shadow ?t i)) = vd"
      proof (cases "i = ?l")
        case True
        with i \<open>i \<noteq> slot\<close> slot show ?thesis by (intro exI [of _ slot]) (auto simp: count tab)
      next
        case False
        with i \<open>i \<noteq> slot\<close> show ?thesis by (intro exI [of _ i]) (auto simp: count tab)
      qed
    next
      assume none: "?m = None"
      show "\<forall>i<rse_rnat_shadow_count ?t. re_addr (rse_rnat_shadow ?t i) \<noteq> a"
      proof (intro allI impI)
        fix i assume "i < rse_rnat_shadow_count ?t"
        then have "i < ?l" by (simp add: count)
        define j where "j = (if i = slot then ?l else i)"
        have j: "j < rse_rnat_shadow_count s" "j \<noteq> slot" "rse_rnat_shadow ?t i = rse_rnat_shadow s j"
          using l \<open>i < ?l\<close> by (auto simp: tab j_def)
        show "re_addr (rse_rnat_shadow ?t i) \<noteq> a"
        proof
          assume "re_addr (rse_rnat_shadow ?t i) = a"
          with j u [of j slot] slot none show False
            by (auto simp: shadow_map_None [OF ok] split: if_splits)
        qed
      qed
    qed
  qed
qed

section \<open>Knowledge of NaT bits\<close>

definition nat_view :: "u64 \<Rightarrow> u64 \<Rightarrow> nat \<rightharpoonup> bool" where
  "nat_view value defined = (\<lambda>i. if bit defined i then Some (bit value i) else None)"

definition shadow_view :: "rnat_state \<Rightarrow> u64 \<Rightarrow> nat \<rightharpoonup> bool" where
  "shadow_view s a = (case shadow_map s a of None \<Rightarrow> Map.empty | Some (v, d) \<Rightarrow> nat_view v d)"

lemma bit_and_not_word: "bit (x AND NOT y) i \<longleftrightarrow> bit x i \<and> \<not> bit (y :: u64) i"
  by (auto simp: bit_and_iff bit_not_iff dest: bit_word_lt_length)

lemma bit_not_u64: "bit (NOT y) i \<longleftrightarrow> i < 64 \<and> \<not> bit (y :: u64) i"
  by (simp add: bit_not_iff)

lemma bit_u64_less: "bit (w :: u64) i \<Longrightarrow> i < 64"
  using bit_word_lt_length [of w i] by simp

lemma and_eq_self_iff: "x AND y = x \<longleftrightarrow> (\<forall>i. bit x i \<longrightarrow> bit (y :: u64) i)"
proof
  assume eq: "x AND y = x"
  have "bit (x AND y) i \<longrightarrow> bit y i" for i by (simp add: bit_and_iff)
  then show "\<forall>i. bit x i \<longrightarrow> bit y i" unfolding eq by blast
next
  assume "\<forall>i. bit x i \<longrightarrow> bit y i"
  then show "x AND y = x" by (intro bit_word_eqI) (auto simp: bit_and_iff)
qed

lemma word_or_eq_0: "x OR y = (0 :: u64) \<Longrightarrow> y = 0"
proof (rule bit_word_eqI)
  fix n
  assume "x OR y = 0"
  then have "\<not> bit (x OR y) n" by simp
  then show "bit y n = bit 0 n" by (simp add: bit_or_iff)
qed

lemma nat_view_zero [simp]: "nat_view v 0 = Map.empty"
  by (simp add: nat_view_def)

lemma nat_view_masked [simp]: "nat_view (v AND d) d = nat_view v d"
  by (rule ext) (simp add: nat_view_def bit_and_iff)

lemma nat_view_overlay: "nat_view ((v AND NOT d') OR (v' AND d')) (d OR d') = nat_view v d ++ nat_view v' d'"
  by (rule ext) (auto simp: nat_view_def map_add_def bit_or_iff bit_and_iff bit_not_u64 dest: bit_u64_less)

lemma nat_view_overlay': "v' AND d' = v' \<Longrightarrow> nat_view ((v AND NOT d') OR v') (d OR d') = nat_view v d ++ nat_view v' d'"
  by (rule ext) (auto simp: nat_view_def map_add_def bit_or_iff bit_and_not_word and_eq_self_iff)

lemma nat_view_underlay:
  "v AND d = v \<Longrightarrow>
    nat_view (v OR (v' AND (d' AND NOT d))) (d OR (d' AND NOT d)) = nat_view v' d' ++ nat_view v d"
  by (rule ext) (auto simp: nat_view_def map_add_def bit_or_iff bit_and_iff bit_not_u64 and_eq_self_iff dest: bit_u64_less)

lemma nat_view_restrict: "nat_view (v AND (d AND k)) (d AND k) = nat_view v d |` {i. bit k i}"
  by (rule ext) (auto simp: nat_view_def restrict_map_def bit_and_iff)

lemma rnat_mask_mask: "rnat_mask = mask 63"
  by (simp add: mask_eq_exp_minus_1)

lemma bit_rnat_mask: "bit rnat_mask i \<longleftrightarrow> i < 63"
  unfolding rnat_mask_mask by (auto simp: bit_mask_iff)

section \<open>The table operations on the knowledge\<close>

lemma shadow_find_eq:
  "ia64_rse_rnat_shadow_find a s = (t, found) \<Longrightarrow>
    found = ia64_rse_rnat_shadow_lookup s a \<and> rse_rnat_shadow t = rse_rnat_shadow s \<and>
    rse_rnat_shadow_count t = rse_rnat_shadow_count s"
  by (auto simp: ia64_rse_rnat_shadow_find_def Let_def)

lemma shadow_remove:
  assumes ok: "shadow_ok s"
  shows "shadow_ok (ia64_rse_rnat_shadow_remove a s) \<and>
    shadow_map (ia64_rse_rnat_shadow_remove a s) = (shadow_map s)(a := None)"
proof -
  obtain t found where f: "ia64_rse_rnat_shadow_find a s = (t, found)" by force
  note ff = shadow_find_eq [OF f]
  have t: "shadow_ok t" "shadow_map t = shadow_map s" using ff shadow_same_table [OF ok, of t] by simp_all
  show ?thesis
  proof (cases found)
    case None
    then have "shadow_map s a = None" using ff by (simp add: shadow_map_def)
    then have "(shadow_map s)(a := None) = shadow_map s" by (rule fun_upd_idem)
    with None t show ?thesis by (simp add: ia64_rse_rnat_shadow_remove_def f)
  next
    case (Some i)
    with ff have l: "ia64_rse_rnat_shadow_lookup s a = Some i" by simp
    from shadow_lookup_Some [OF l] ff have i: "i < rse_rnat_shadow_count t" "re_addr (rse_rnat_shadow t i) = a"
      by simp_all
    from Some t i shadow_delete [OF t(1) i(1)] show ?thesis by (simp add: ia64_rse_rnat_shadow_remove_def f)
  qed
qed

lemma shadow_take:
  assumes ok: "shadow_ok s" and take: "ia64_rse_rnat_shadow_take a s = (t, r)"
  shows "shadow_ok t \<and> shadow_map t = (shadow_map s)(a := None) \<and> r = shadow_map s a"
proof -
  obtain u found where f: "ia64_rse_rnat_shadow_find a s = (u, found)" by force
  note ff = shadow_find_eq [OF f]
  have u: "shadow_ok u" "shadow_map u = shadow_map s" using ff shadow_same_table [OF ok, of u] by simp_all
  show ?thesis
  proof (cases found)
    case None
    then have none: "shadow_map s a = None" using ff by (simp add: shadow_map_def)
    then have "(shadow_map s)(a := None) = shadow_map s" by (rule fun_upd_idem)
    moreover from None take have "t = u" "r = None" by (simp_all add: ia64_rse_rnat_shadow_take_def f)
    ultimately show ?thesis using u none by simp
  next
    case (Some i)
    with ff have l: "ia64_rse_rnat_shadow_lookup s a = Some i" by simp
    from shadow_lookup_Some [OF l] ff have i: "i < rse_rnat_shadow_count u" "re_addr (rse_rnat_shadow u i) = a"
      by simp_all
    have m: "shadow_map s a = Some (re_value (rse_rnat_shadow u i), re_defined (rse_rnat_shadow u i))"
      using Some ff by (simp add: shadow_map_def)
    from shadow_okD(2) [OF u(1) i(1)]
    have "re_defined (rse_rnat_shadow u i) AND rnat_mask = re_defined (rse_rnat_shadow u i)"
      "re_value (rse_rnat_shadow u i) AND re_defined (rse_rnat_shadow u i) = re_value (rse_rnat_shadow u i)"
      by (simp_all add: rnat_entry_ok_def)
    with Some take m have "t = ia64_rse_rnat_shadow_delete i u" "r = shadow_map s a"
      by (simp_all add: ia64_rse_rnat_shadow_take_def f Let_def)
    with shadow_delete [OF u(1) i(1)] i u show ?thesis by simp
  qed
qed

lemma shadow_overlay:
  assumes ok: "shadow_ok s" and ov: "ia64_rse_rnat_shadow_overlay s a (v, d) = (v', d')"
  shows "nat_view v' d' = nat_view v d ++ shadow_view s a"
proof (cases "ia64_rse_rnat_shadow_lookup s a")
  case None
  with ov show ?thesis by (simp add: ia64_rse_rnat_shadow_overlay_def shadow_view_def shadow_map_def)
next
  case (Some i)
  then have "rnat_entry_ok (rse_rnat_shadow s i)" using shadow_lookup_Some shadow_okD(2) [OF ok] by blast
  then have d: "re_defined (rse_rnat_shadow s i) AND rnat_mask = re_defined (rse_rnat_shadow s i)"
    by (simp add: rnat_entry_ok_def)
  have "v' = (v AND NOT (re_defined (rse_rnat_shadow s i))) OR
      (re_value (rse_rnat_shadow s i) AND re_defined (rse_rnat_shadow s i)) \<and>
    d' = d OR re_defined (rse_rnat_shadow s i)"
    using ov unfolding ia64_rse_rnat_shadow_overlay_def Let_def prod.case Some option.case d prod.inject by simp
  then have "nat_view v' d' = nat_view v d ++ nat_view (re_value (rse_rnat_shadow s i)) (re_defined (rse_rnat_shadow s i))"
    using nat_view_overlay by simp
  with Some show ?thesis by (simp add: shadow_view_def shadow_map_def)
qed

lemma merge_entry:
  fixes newer :: bool
  assumes d: "d \<noteq> 0" "d AND rnat_mask = d" "v AND d = v" and a: "ia64_rse_collect_word a = a"
    and e: "re_valid e \<and> re_addr e = a \<Longrightarrow> rnat_entry_ok e"
  defines "r \<equiv> rnat_merge_entry a v d newer e"
  shows "rnat_entry_ok r \<and> re_addr r = a \<and> nat_view (re_value r) (re_defined r) =
    (if re_valid e \<and> re_addr e = a
     then (if newer then nat_view (re_value e) (re_defined e) ++ nat_view v d
           else nat_view v d ++ nat_view (re_value e) (re_defined e))
     else nat_view v d)"
proof (cases "re_valid e \<and> re_addr e = a")
  case False
  then have "r = \<lparr>re_value = v AND (d AND rnat_mask), re_addr = a, re_defined = d AND rnat_mask, re_valid = True\<rparr>"
    by (simp only: r_def rnat_merge_entry_def Let_def if_False rnat_entry.simps)
  with d a show ?thesis unfolding if_not_P [OF False] by (simp add: rnat_entry_ok_def)
next
  case True
  from e [OF True] have ok: "re_defined e \<noteq> 0" "re_defined e AND rnat_mask = re_defined e"
    "re_value e AND re_defined e = re_value e" by (simp_all add: rnat_entry_ok_def)
  define nd where "nd = re_defined e OR d"
  define nv where "nv = (if newer then (re_value e AND NOT d) OR v else re_value e OR (v AND (d AND NOT (re_defined e))))"
  have nd: "nd AND rnat_mask = nd" unfolding nd_def bit.conj_disj_distrib2 d(2) ok(2) ..
  have nz: "nd \<noteq> 0" using d(1) word_or_eq_0 unfolding nd_def by blast
  have nd': "re_defined e OR (d AND NOT (re_defined e)) = nd"
    by (rule bit_word_eqI) (auto simp: nd_def bit_or_iff bit_and_not_word)
  have view: "nat_view nv nd = (if newer then nat_view (re_value e) (re_defined e) ++ nat_view v d
      else nat_view v d ++ nat_view (re_value e) (re_defined e))"
  proof (cases newer)
    case True
    then show ?thesis unfolding nv_def nd_def by (simp add: nat_view_overlay' [OF d(3)])
  next
    case False
    then show ?thesis unfolding nv_def nd' [symmetric] by (simp add: nat_view_underlay [OF ok(3)])
  qed
  obtain ev ed where e_eq: "e = \<lparr>re_value = ev, re_addr = a, re_defined = ed, re_valid = True\<rparr>"
    using True by (cases e) simp
  have r: "r = \<lparr>re_value = nv AND nd, re_addr = a, re_defined = nd, re_valid = True\<rparr>"
  proof (cases newer)
    case True
    have "r = \<lparr>re_value = nv AND (nd AND rnat_mask), re_addr = a, re_defined = nd AND rnat_mask, re_valid = True\<rparr>"
      unfolding r_def rnat_merge_entry_def Let_def nv_def nd_def e_eq if_P [OF True]
      by (simp only: rnat_entry.simps simp_thms if_True)
    then show ?thesis unfolding nd .
  next
    case False
    have "r = \<lparr>re_value = nv AND (nd AND rnat_mask), re_addr = a, re_defined = nd AND rnat_mask, re_valid = True\<rparr>"
      unfolding r_def rnat_merge_entry_def Let_def nv_def nd' [symmetric] e_eq if_not_P [OF False]
      by (simp only: rnat_entry.simps simp_thms if_True)
    then show ?thesis unfolding nd .
  qed
  show ?thesis using True nd nz a view unfolding r by (simp add: rnat_entry_ok_def and.assoc)
qed

lemma collect_word_not_minus_1: "ia64_rse_collect_word a = a \<Longrightarrow> a \<noteq> - 1"
proof
  assume eq: "ia64_rse_collect_word a = a" and "a = - 1"
  then have "bit (ia64_rse_collect_word a) 0" by simp
  then show False by (simp add: ia64_rse_collect_word_def bit_or_iff bit_and_iff)
qed

lemma shadow_put:
  assumes ok: "shadow_ok s" and e: "rnat_entry_ok e" "re_addr e = a"
    and slot: "slot \<le> rse_rnat_shadow_count s" "slot < 96"
    and uniq: "\<And>j. j < rse_rnat_shadow_count s \<Longrightarrow> j \<noteq> slot \<Longrightarrow> re_addr (rse_rnat_shadow s j) \<noteq> a"
    and t: "rse_rnat_shadow t = (rse_rnat_shadow s)(slot := e)"
      "rse_rnat_shadow_count t = max (rse_rnat_shadow_count s) (slot + 1)"
  shows "shadow_ok t"
    and "shadow_map t b = (if b = a then Some (re_value e, re_defined e)
      else if slot < rse_rnat_shadow_count s \<and> b = re_addr (rse_rnat_shadow s slot) then None
      else shadow_map s b)"
proof -
  have less: "j < rse_rnat_shadow_count t \<longleftrightarrow> j = slot \<or> j < rse_rnat_shadow_count s" for j
    using slot(1) by (auto simp: t(2))
  show ok': "shadow_ok t"
  proof (rule shadow_okI)
    show "rse_rnat_shadow_count t \<le> 96" using shadow_okD(1) [OF ok] slot(2) by (simp add: t(2))
    show "rnat_entry_ok (rse_rnat_shadow t i)" if "i < rse_rnat_shadow_count t" for i
      using that e(1) shadow_okD(2) [OF ok, of i] by (auto simp: less t(1))
    show "i = j" if i: "i < rse_rnat_shadow_count t" and j: "j < rse_rnat_shadow_count t"
      and eq: "re_addr (rse_rnat_shadow t i) = re_addr (rse_rnat_shadow t j)" for i j
    proof (cases "i = slot \<or> j = slot")
      case True
      with i j eq uniq [of i] uniq [of j] e(2) show ?thesis by (auto simp: less t(1) split: if_splits)
    next
      case False
      with i j eq shadow_okD(3) [OF ok, of i j] show ?thesis by (auto simp: less t(1))
    qed
    show "rse_rnat_shadow t i = rnat_entry_zero" if "rse_rnat_shadow_count t \<le> i" for i
      using that shadow_okD(4) [OF ok, of i] by (auto simp: t)
  qed
  show "shadow_map t b = (if b = a then Some (re_value e, re_defined e)
      else if slot < rse_rnat_shadow_count s \<and> b = re_addr (rse_rnat_shadow s slot) then None
      else shadow_map s b)" (is "_ = ?m")
  proof (rule shadow_map_eqI [OF ok'])
    fix vd assume m: "?m = Some vd"
    show "\<exists>i<rse_rnat_shadow_count t. re_addr (rse_rnat_shadow t i) = b \<and>
        (re_value (rse_rnat_shadow t i), re_defined (rse_rnat_shadow t i)) = vd"
    proof (cases "b = a")
      case True
      with m e(2) show ?thesis by (intro exI [of _ slot]) (auto simp: less t(1))
    next
      case False
      with m have "shadow_map s b = Some vd" and ns: "\<not> (slot < rse_rnat_shadow_count s \<and> b = re_addr (rse_rnat_shadow s slot))"
        by (simp_all split: if_splits)
      then obtain i where i: "i < rse_rnat_shadow_count s" "re_addr (rse_rnat_shadow s i) = b"
          "(re_value (rse_rnat_shadow s i), re_defined (rse_rnat_shadow s i)) = vd"
        unfolding shadow_map_iff [OF ok] by blast
      with ns have "i \<noteq> slot" by auto
      with i show ?thesis by (intro exI [of _ i]) (auto simp: less t(1))
    qed
  next
    assume m: "?m = None"
    then have ba: "b \<noteq> a" by auto
    show "\<forall>i<rse_rnat_shadow_count t. re_addr (rse_rnat_shadow t i) \<noteq> b"
    proof (intro allI impI)
      fix i assume i: "i < rse_rnat_shadow_count t"
      show "re_addr (rse_rnat_shadow t i) \<noteq> b"
      proof (cases "i = slot")
        case True
        with ba e(2) show ?thesis by (simp add: t(1))
      next
        case False
        with i have ic: "i < rse_rnat_shadow_count s" by (simp add: less)
        show ?thesis
        proof (cases "slot < rse_rnat_shadow_count s \<and> b = re_addr (rse_rnat_shadow s slot)")
          case True
          with False ic shadow_okD(3) [OF ok, of i slot] show ?thesis by (auto simp: t(1))
        next
          case nb: False
          with m ba have "shadow_map s b = None" by (simp split: if_splits)
          with ic False show ?thesis by (simp add: shadow_map_None [OF ok] t(1))
        qed
      qed
    qed
  qed
qed

text \<open>
  A merge adds the incoming bits to the knowledge of one collection: over the stored bits when
  the incoming ones are newer, below them otherwise.
\<close>

lemma shadow_merge:
  fixes newer :: bool and v d :: u64
  assumes ok: "shadow_ok s" and a: "ia64_rse_collect_word a = a"
  defines "t \<equiv> ia64_rse_rnat_shadow_merge a v d newer s"
  defines "nv \<equiv> nat_view v (d AND rnat_mask)"
  shows "shadow_ok t"
    and "shadow_map s a \<noteq> None \<or> rse_rnat_shadow_count s < 96 \<Longrightarrow>
      shadow_view t = (shadow_view s)(a := if newer then shadow_view s a ++ nv else nv ++ shadow_view s a)"
proof -
  let ?d = "d AND rnat_mask" and ?v = "v AND (d AND rnat_mask)"
  have nv: "nat_view ?v ?d = nv" by (simp only: nv_def nat_view_masked)
  have "shadow_ok t \<and> (shadow_map s a \<noteq> None \<or> rse_rnat_shadow_count s < 96 \<longrightarrow>
      shadow_view t = (shadow_view s)(a := if newer then shadow_view s a ++ nv else nv ++ shadow_view s a))"
  proof (cases "?d = 0")
    case True
    then have "t = s" "nv = Map.empty"
      by (simp_all add: t_def nv_def ia64_rse_rnat_shadow_merge_def)
    with ok show ?thesis by simp
  next
    case False
    obtain u found where f: "ia64_rse_rnat_shadow_find a s = (u, found)" by force
    note ff = shadow_find_eq [OF f]
    have uok: "shadow_ok u" "shadow_map u = shadow_map s" using ff shadow_same_table [OF ok, of u] by simp_all
    define slot where "slot = (case found of Some i \<Rightarrow> i
      | None \<Rightarrow> if rse_rnat_shadow_count u = 96 then 0 else rse_rnat_shadow_count u)"
    let ?e = "rnat_merge_entry a ?v ?d newer (rse_rnat_shadow u slot)"
    have tab: "rse_rnat_shadow t = (rse_rnat_shadow u)(slot := ?e)"
      "rse_rnat_shadow_count t = (case found of Some i \<Rightarrow> rse_rnat_shadow_count u
        | None \<Rightarrow> if rse_rnat_shadow_count u = 96 then rse_rnat_shadow_count u else rse_rnat_shadow_count u + 1)"
      using False collect_word_not_minus_1 [OF a] unfolding t_def ia64_rse_rnat_shadow_merge_def Let_def f slot_def
      by (simp_all split: option.split)
    have le96: "rse_rnat_shadow_count u \<le> 96" using shadow_okD(1) [OF uok(1)] .
    have found: "found = Some i \<longleftrightarrow> i < rse_rnat_shadow_count u \<and> re_addr (rse_rnat_shadow u i) = a" for i
      using ff shadow_lookup_iff [OF ok, of a i] by simp
    have matches: "re_valid (rse_rnat_shadow u slot) \<and> re_addr (rse_rnat_shadow u slot) = a \<longleftrightarrow> found \<noteq> None"
    proof (cases found)
      case None
      then have "\<not> (i < rse_rnat_shadow_count u \<and> re_addr (rse_rnat_shadow u i) = a)" for i
        using found [of i] by simp
      moreover have "rse_rnat_shadow u i = rnat_entry_zero" if "\<not> i < rse_rnat_shadow_count u" for i
        using shadow_okD(4) [OF uok(1), of i] that by simp
      ultimately have "\<not> (re_valid (rse_rnat_shadow u i) \<and> re_addr (rse_rnat_shadow u i) = a)" for i
        by (cases "i < rse_rnat_shadow_count u") (auto simp: rnat_entry_zero_def)
      with None show ?thesis by blast
    next
      case (Some i)
      with found [of i] shadow_okD(2) [OF uok(1), of i] show ?thesis by (auto simp: slot_def rnat_entry_ok_def)
    qed
    have e_ok: "rnat_entry_ok (rse_rnat_shadow u slot)"
      if "re_valid (rse_rnat_shadow u slot) \<and> re_addr (rse_rnat_shadow u slot) = a"
    proof -
      from that matches obtain i where i: "found = Some i" by auto
      with found [of i] shadow_okD(2) [OF uok(1), of i] show ?thesis by (simp add: slot_def)
    qed
    have vd: "?d AND rnat_mask = ?d" "?v AND ?d = ?v" by (simp_all add: and.assoc)
    note me = merge_entry [OF False vd a e_ok, of newer]
    have slot: "slot \<le> rse_rnat_shadow_count u" "slot < 96"
      using le96 found by (auto simp: slot_def split: option.split)
    have cnt: "rse_rnat_shadow_count t = max (rse_rnat_shadow_count u) (slot + 1)"
      using found le96 by (auto simp: tab(2) slot_def split: option.split)
    have uniq: "re_addr (rse_rnat_shadow u j) \<noteq> a" if "j < rse_rnat_shadow_count u" "j \<noteq> slot" for j
      using that found [of j] by (auto simp: slot_def)
    note put = shadow_put [OF uok(1) conjunct1 [OF me] conjunct1 [OF conjunct2 [OF me]] slot uniq tab(1) cnt]
    have "shadow_view t = (shadow_view s)(a := if newer then shadow_view s a ++ nv else nv ++ shadow_view s a)"
      if room: "shadow_map s a \<noteq> None \<or> rse_rnat_shadow_count s < 96"
    proof
      fix b
      show "shadow_view t b = ((shadow_view s)(a := if newer then shadow_view s a ++ nv else nv ++ shadow_view s a)) b"
      proof (cases "b = a")
        case True
        have old: "shadow_view s a = (if found \<noteq> None then nat_view (re_value (rse_rnat_shadow u slot)) (re_defined (rse_rnat_shadow u slot)) else Map.empty)"
          using ff by (auto simp: shadow_view_def shadow_map_def slot_def split: option.splits)
        have "shadow_view t a = nat_view (re_value ?e) (re_defined ?e)"
          using put(2) [of a] by (simp add: shadow_view_def)
        with True me old show ?thesis unfolding matches nv by (simp split: if_splits)
      next
        case False
        have "\<not> (slot < rse_rnat_shadow_count u \<and> b = re_addr (rse_rnat_shadow u slot))"
        proof (cases found)
          case None
          then have "shadow_map s a = None" using ff by (simp add: shadow_map_def)
          with room ff None show ?thesis by (simp add: slot_def)
        next
          case (Some i)
          with found [of i] False show ?thesis by (simp add: slot_def)
        qed
        with put(2) [of b] False uok(2) show ?thesis by (simp add: shadow_view_def)
      qed
    qed
    with put(1) show ?thesis by blast
  qed
  then show "shadow_ok t"
    and "shadow_map s a \<noteq> None \<or> rse_rnat_shadow_count s < 96 \<Longrightarrow>
      shadow_view t = (shadow_view s)(a := if newer then shadow_view s a ++ nv else nv ++ shadow_view s a)"
    by blast+
qed

section \<open>Clipping\<close>

lemma shadow_view_upd: "shadow_map t = (shadow_map s)(a := None) \<Longrightarrow> shadow_view t = (shadow_view s)(a := Map.empty)"
  by (rule ext) (simp add: shadow_view_def)

text \<open>Clipping one slot keeps the table well formed and restricts one collection to the kept bits.\<close>

lemma clip_slot:
  assumes ok: "shadow_ok s" and i: "i < rse_rnat_shadow_count s" and a: "re_addr (rse_rnat_shadow s i) = a"
    and clip: "rnat_clip_slot i k s = (t, gone)"
  shows "shadow_ok t" "shadow_view t = (shadow_view s)(a := shadow_view s a |` {n. bit k n})"
    "\<not> gone \<Longrightarrow> rse_rnat_shadow_count t = rse_rnat_shadow_count s"
    "gone \<Longrightarrow> rse_rnat_shadow_count t = rse_rnat_shadow_count s - 1"
    "j < i \<or> j = i \<and> \<not> gone \<Longrightarrow> re_addr (rse_rnat_shadow t j) = re_addr (rse_rnat_shadow s j)"
proof -
  define e where "e = rse_rnat_shadow s i"
  define e' where "e' = e\<lparr>re_defined := re_defined e AND k, re_value := re_value e AND (re_defined e AND k)\<rparr>"
  define u where "u = s\<lparr>rse_rnat_shadow := (rse_rnat_shadow s)(i := e')\<rparr>"
  have t: "(t, gone) = (if re_defined e' = 0 then (ia64_rse_rnat_shadow_delete i u, True) else (u, False))"
    by (subst clip [symmetric]) (simp add: rnat_clip_slot_def Let_def e_def e'_def u_def)
  have eok: "rnat_entry_ok e" using shadow_okD(2) [OF ok i] by (simp add: e_def)
  have ea: "re_addr e' = a" using a by (simp add: e'_def e_def)
  have old: "shadow_view s a = nat_view (re_value e) (re_defined e)"
    using shadow_map_iff [OF ok, of a "(re_value e, re_defined e)"] i a by (auto simp: shadow_view_def e_def)
  have new: "nat_view (re_value e') (re_defined e') = shadow_view s a |` {n. bit k n}"
    unfolding old nat_view_restrict [symmetric] by (simp add: e'_def)
  have del: "ia64_rse_rnat_shadow_delete i u = ia64_rse_rnat_shadow_delete i s"
    by (auto simp: ia64_rse_rnat_shadow_delete_def u_def Let_def)
  show "shadow_ok t" "shadow_view t = (shadow_view s)(a := shadow_view s a |` {n. bit k n})"
  proof (atomize(full), cases "re_defined e' = 0")
    case True
    with t have "t = ia64_rse_rnat_shadow_delete i s" by (simp add: del)
    moreover have "shadow_view s a |` {n. bit k n} = Map.empty"
      using new True by simp
    ultimately show "shadow_ok t \<and> shadow_view t = (shadow_view s)(a := shadow_view s a |` {n. bit k n})"
      using shadow_delete [OF ok i] a by (simp add: shadow_view_upd)
  next
    case False
    with t have tu: "t = u" by simp
    have e'ok: "rnat_entry_ok e'"
      using eok False unfolding rnat_entry_ok_def by (auto simp: e'_def and_eq_self_iff bit_and_iff)
    have uniq: "re_addr (rse_rnat_shadow s j) \<noteq> a" if "j < rse_rnat_shadow_count s" "j \<noteq> i" for j
      using shadow_okD(3) [OF ok that(1) i] that(2) a by auto
    have i96: "i < 96" using i shadow_okD(1) [OF ok] by simp
    have cnt: "rse_rnat_shadow_count u = max (rse_rnat_shadow_count s) (i + 1)" "rse_rnat_shadow u = (rse_rnat_shadow s)(i := e')"
      using i by (simp_all add: u_def)
    note put = shadow_put [OF ok e'ok ea less_imp_le [OF i] i96 uniq cnt(2) cnt(1)]
    have "shadow_view u b = ((shadow_view s)(a := shadow_view s a |` {n. bit k n})) b" for b
      using put(2) [of b] i a new [symmetric] by (simp add: shadow_view_def)
    with put(1) tu show "shadow_ok t \<and> shadow_view t = (shadow_view s)(a := shadow_view s a |` {n. bit k n})"
      by blast
  qed
  show "\<not> gone \<Longrightarrow> rse_rnat_shadow_count t = rse_rnat_shadow_count s"
    "gone \<Longrightarrow> rse_rnat_shadow_count t = rse_rnat_shadow_count s - 1"
    using t by (simp_all add: u_def ia64_rse_rnat_shadow_delete_def Let_def split: if_splits)
  show "j < i \<or> j = i \<and> \<not> gone \<Longrightarrow> re_addr (rse_rnat_shadow t j) = re_addr (rse_rnat_shadow s j)"
    using t i ea a by (auto simp: u_def ia64_rse_rnat_shadow_delete_def Let_def split: if_splits)
qed

lemma shadow_clip:
  fixes k a :: u64
  assumes ok: "shadow_ok s"
  defines "t \<equiv> ia64_rse_rnat_shadow_clip a k s"
  shows "shadow_ok t \<and> shadow_view t = (shadow_view s)(a := shadow_view s a |` {n. bit (k AND rnat_mask) n})"
proof -
  obtain u found where f: "ia64_rse_rnat_shadow_find a s = (u, found)" by force
  note ff = shadow_find_eq [OF f]
  have u: "shadow_ok u" "shadow_map u = shadow_map s" using ff shadow_same_table [OF ok, of u] by simp_all
  have v: "shadow_view u = shadow_view s" by (rule ext) (simp add: shadow_view_def u)
  show ?thesis
  proof (cases found)
    case None
    then have "shadow_view s a = Map.empty" using ff by (simp add: shadow_view_def shadow_map_def)
    moreover have "t = u" by (simp add: t_def ia64_rse_rnat_shadow_clip_def f None)
    ultimately show ?thesis using u v by (simp add: fun_upd_idem)
  next
    case (Some i)
    with ff have l: "ia64_rse_rnat_shadow_lookup s a = Some i" by simp
    from shadow_lookup_Some [OF l] ff have i: "i < rse_rnat_shadow_count u" "re_addr (rse_rnat_shadow u i) = a"
      by simp_all
    obtain w g where c: "rnat_clip_slot i (k AND rnat_mask) u = (w, g)" by force
    have "t = w" by (simp add: t_def ia64_rse_rnat_shadow_clip_def f Some c)
    with clip_slot(1,2) [OF u(1) i c] v show ?thesis by simp
  qed
qed

text \<open>The loop of \<^verbatim>\<open>retain_range\<close> clips every collection to the bits of the range.\<close>

abbreviation range_bits :: "u64 \<Rightarrow> u64 \<Rightarrow> u64 \<Rightarrow> nat set" where
  "range_bits first past a \<equiv> {n. bit (rnat_range_keep first past a) n}"

lemma shadow_retain_from:
  assumes "shadow_ok s"
    and "\<forall>j< slot. j < rse_rnat_shadow_count s \<longrightarrow>
      (let a = re_addr (rse_rnat_shadow s j) in shadow_view s a |` range_bits first past a = shadow_view s a)"
  shows "shadow_ok (rnat_retain_from slot first past s) \<and>
    shadow_view (rnat_retain_from slot first past s) = (\<lambda>b. shadow_view s b |` range_bits first past b)"
  using assms
proof (induction slot first past s rule: rnat_retain_from.induct)
  case (1 slot first past s)
  show ?case
  proof (cases "slot < rse_rnat_shadow_count s")
    case False
    have "shadow_view s b |` range_bits first past b = shadow_view s b" for b
    proof (cases "shadow_map s b")
      case None
      then show ?thesis by (simp add: shadow_view_def)
    next
      case (Some vd)
      then obtain j where "j < rse_rnat_shadow_count s" "re_addr (rse_rnat_shadow s j) = b"
        unfolding shadow_map_iff [OF "1.prems"(1)] by blast
      with "1.prems"(2) False show ?thesis by (auto simp: Let_def)
    qed
    with False "1.prems"(1) show ?thesis by (simp add: rnat_retain_from.simps)
  next
    case True
    define a where "a = re_addr (rse_rnat_shadow s slot)"
    obtain t gone where c: "rnat_clip_slot slot (rnat_range_keep first past a) s = (t, gone)" by force
    note clip = clip_slot [OF "1.prems"(1) True a_def [symmetric] c]
    have same: "shadow_view t b |` range_bits first past b = shadow_view s b |` range_bits first past b" for b
      by (simp add: clip(2))
    have done': "shadow_view t a |` range_bits first past a = shadow_view t a" by (simp add: clip(2))
    have low: "shadow_view t b |` range_bits first past b = shadow_view t b"
      if "j < slot" "b = re_addr (rse_rnat_shadow t j)" for j b
      using "1.prems"(2) that True clip(5) [of j] by (auto simp: clip(2) Let_def)
    show ?thesis
    proof (cases gone)
      case g: True
      have "shadow_ok (rnat_retain_from slot first past t) \<and>
        shadow_view (rnat_retain_from slot first past t) = (\<lambda>b. shadow_view t b |` range_bits first past b)"
        using "1.IH"(1) [OF True refl, of "(t, gone)" t gone] c clip(1) low g by (simp add: a_def Let_def)
      then show ?thesis
        unfolding rnat_retain_from.simps [of slot first past s] using True c g same by (simp add: a_def Let_def)
    next
      case g: False
      have "\<forall>j < slot + 1. j < rse_rnat_shadow_count t \<longrightarrow>
        (let a = re_addr (rse_rnat_shadow t j) in shadow_view t a |` range_bits first past a = shadow_view t a)"
        using low done' clip(5) [of slot] g by (auto simp: less_Suc_eq Let_def a_def)
      then have "shadow_ok (rnat_retain_from (slot + 1) first past t) \<and>
        shadow_view (rnat_retain_from (slot + 1) first past t) = (\<lambda>b. shadow_view t b |` range_bits first past b)"
        using "1.IH"(2) [OF True refl, of "(t, gone)" t gone] c clip(1) g by (simp add: a_def)
      then show ?thesis
        unfolding rnat_retain_from.simps [of slot first past s] using True c g same by (simp add: a_def Let_def)
    qed
  qed
qed

section \<open>Addresses of a collection\<close>

lemma unat_collection_base: "unat (a AND NOT 0x1ff :: u64) = unat a - unat a mod 512"
proof -
  have m: "(0x1ff :: u64) = mask 9" by (simp add: mask_eq_exp_minus_1)
  have "(a AND NOT (mask 9)) + take_bit 9 a = a"
    by (subst disjunctive_add_eq_or)
      (auto intro!: bit_word_eqI simp: bit_simps)
  then have "a AND NOT 0x1ff = a - take_bit 9 a" unfolding m by (metis add_diff_cancel)
  moreover have "take_bit 9 a \<le> a"
    by (simp add: word_le_nat_alt unsigned_take_bit_eq take_bit_nat_less_eq_self)
  ultimately have "unat (a AND NOT 0x1ff) = unat a - unat (take_bit 9 a)"
    by (simp add: unat_sub)
  moreover have "unat (take_bit 9 a) = unat a mod 512"
    by (simp only: unsigned_take_bit_eq) (simp add: take_bit_eq_mod)
  ultimately show ?thesis by (simp only:)
qed

lemma collect_word_base:
  assumes "ia64_rse_collect_word a = a"
  shows "unat a = unat (a AND NOT 0x1ff) + 504" and "512 dvd unat (a AND NOT 0x1ff)"
proof -
  have "(a AND NOT 0x1ff) + 504 = (a AND NOT 0x1ff) OR (504 :: u64)"
  proof (rule disjunctive_add_eq_or)
    have "(504 :: u64) AND NOT 0x1ff = 0" by simp
    then show "(a AND NOT 0x1ff) AND 504 = 0" by (metis and.assoc and.commute and_zero_eq)
  qed
  then have eq: "a = (a AND NOT 0x1ff) + 504"
    using assms by (simp add: ia64_rse_collect_word_def push_bit_eq_mult)
  let ?b = "unat (a AND NOT 0x1ff)"
  have b: "?b = unat a - unat a mod 512" by (rule unat_collection_base)
  then have b': "?b = 512 * (unat a div 512)" by (simp add: minus_mod_eq_mult_div)
  then show "512 dvd ?b" by simp
  have "?b < 2 ^ 64" by (rule unat_u64_less)
  with b' have "?b + 504 < 2 ^ 64" by simp
  then have "unat ((a AND NOT 0x1ff) + 504) = ?b + 504" by (simp add: unat_word_ariths)
  with eq show "unat a = ?b + 504" by metis
qed

text \<open>The bits that \<^const>\<open>rnat_range_keep\<close> keeps are those of the register words in the range.\<close>

lemma bit_range_keep:
  assumes a: "ia64_rse_collect_word a = a" and al: "8 dvd unat first" "8 dvd unat past"
  shows "bit (rnat_range_keep first past a) n \<longleftrightarrow> n < 63 \<and>
    unat first \<le> unat a - 504 + 8 * n \<and> unat a - 504 + 8 * n < unat past"
proof -
  define base where "base = a AND NOT 0x1ff"
  define lower where "lower = max first base"
  define upper where "upper = min past a"
  define l where "l = unat (drop_bit 3 (lower - base))"
  define h where "h = unat (drop_bit 3 (upper - base))"
  have b: "unat a = unat base + 504" "512 dvd unat base"
    using collect_word_base [OF a] by (simp_all add: base_def)
  have lo: "unat lower = max (unat first) (unat base)" and up: "unat upper = min (unat past) (unat a)"
    by (simp_all add: lower_def upper_def max_def min_def word_le_nat_alt)
  show ?thesis
  proof (cases "lower < upper")
    case False
    then have "rnat_range_keep first past a = 0"
      by (simp only: rnat_range_keep_def Let_def base_def lower_def upper_def if_False)
    moreover have "max (unat first) (unat base) \<ge> min (unat past) (unat a)"
      using False unfolding lo [symmetric] up [symmetric] word_less_nat_alt by simp
    ultimately show ?thesis using b by auto
  next
    case True
    then have lt: "max (unat first) (unat base) < min (unat past) (unat a)" unfolding lo [symmetric] up [symmetric] word_less_nat_alt .
    have dv: "8 dvd unat base" using b(2) by (rule dvd_trans [rotated]) simp
    have "unat (lower - base) = unat lower - unat base" "unat (upper - base) = unat upper - unat base"
      using lo up lt by (simp_all add: unat_sub word_le_nat_alt)
    then have l': "l = (unat lower - unat base) div 8" and h': "h = (unat upper - unat base) div 8"
      unfolding l_def h_def by (simp_all add: drop_bit_eq_div unat_div)
    have "8 dvd unat lower - unat base" "8 dvd unat upper - unat base"
      using al b dv unfolding lo up max_def min_def by (auto intro!: dvd_diff_nat dvd_add)
    then have l: "8 * l = max (unat first) (unat base) - unat base"
      and h: "8 * h = min (unat past) (unat a) - unat base"
      unfolding l' h' lo up by simp_all
    have "rnat_range_keep first past a =
      (if h = 63 then rnat_mask else push_bit h 1 - 1) AND NOT (if l = 0 then 0 else push_bit l 1 - 1)"
      using True by (simp only: rnat_range_keep_def Let_def base_def lower_def upper_def l_def h_def if_True)
    also have "\<dots> = mask h AND NOT (mask l)"
      unfolding low_mask_eq by (simp add: rnat_mask_mask)
    finally have "bit (rnat_range_keep first past a) n \<longleftrightarrow> n < 64 \<and> n < h \<and> \<not> n < l"
      by (auto simp: bit_and_iff bit_not_iff bit_mask_iff)
    then show ?thesis using l h b lt by (auto simp: max_def min_def split: if_splits)
  qed
qed

text \<open>
  The suspended collections as a map from collection address to known bits: the laws that the
  latches below rely on.
\<close>

locale collection_store =
  fixes ok :: "'s \<Rightarrow> bool" and view :: "'s \<Rightarrow> u64 \<Rightarrow> nat \<rightharpoonup> bool"
    and room :: "'s \<Rightarrow> u64 \<Rightarrow> bool"
    and put :: "u64 \<Rightarrow> u64 \<Rightarrow> u64 \<Rightarrow> bool \<Rightarrow> 's \<Rightarrow> 's"
    and drop_word :: "u64 \<Rightarrow> 's \<Rightarrow> 's"
  assumes put_ok: "ok s \<Longrightarrow> ia64_rse_collect_word a = a \<Longrightarrow> ok (put a v d newer s)"
    and put_view: "ok s \<Longrightarrow> ia64_rse_collect_word a = a \<Longrightarrow> room s a \<Longrightarrow>
      view (put a v d newer s) = (view s)(a := if newer then view s a ++ nat_view v (d AND rnat_mask)
        else nat_view v (d AND rnat_mask) ++ view s a)"
    and drop_ok: "ok s \<Longrightarrow> ok (drop_word a s)"
    and drop_view: "ok s \<Longrightarrow> view (drop_word a s) = (view s)(a := Map.empty)"
begin

text \<open>An older image never changes a bit that is already known, a newer one always wins.\<close>

lemma put_older_keeps:
  assumes "ok s" "ia64_rse_collect_word a = a" "room s a" "view s a i = Some x"
  shows "view (put a v d False s) a i = Some x"
  using assms by (simp add: put_view map_add_def)

lemma put_newer_wins:
  assumes "ok s" "ia64_rse_collect_word a = a" "room s a" "i < 63" "bit d i"
  shows "view (put a v d True s) a i = Some (bit v i)"
proof -
  have "bit (d AND rnat_mask) i" using assms(4,5) unfolding bit_and_iff bit_rnat_mask by simp
  with assms(1-3) show ?thesis by (simp add: put_view map_add_def nat_view_def)
qed

lemma put_twice:
  assumes "ok s" "ia64_rse_collect_word a = a" "room s a" "room (put a v d True s) a"
  shows "view (put a v d False (put a v d True s)) = view (put a v d True s)"
  using assms by (simp add: put_view put_ok) (auto simp: map_add_def fun_eq_iff split: option.split)

lemma drop_put:
  assumes "ok s" "ia64_rse_collect_word a = a" "room s a"
  shows "view (drop_word a (put a v d newer s)) = view (drop_word a s)"
  using assms by (simp add: put_view put_ok drop_view)

end

definition shadow_room :: "rnat_state \<Rightarrow> u64 \<Rightarrow> bool" where
  "shadow_room s a \<longleftrightarrow> shadow_map s a \<noteq> None \<or> rse_rnat_shadow_count s < 96"

interpretation shadow: collection_store shadow_ok shadow_view shadow_room
  ia64_rse_rnat_shadow_merge ia64_rse_rnat_shadow_remove
proof
  fix s a v d newer
  assume ok: "shadow_ok s"
  show "shadow_ok (ia64_rse_rnat_shadow_remove a s)"
    "shadow_view (ia64_rse_rnat_shadow_remove a s) = (shadow_view s)(a := Map.empty)"
    using shadow_remove [OF ok, of a] by (simp_all add: shadow_view_upd)
  assume a: "ia64_rse_collect_word a = a"
  show "shadow_ok (ia64_rse_rnat_shadow_merge a v d newer s)" by (rule shadow_merge(1) [OF ok a])
  assume "shadow_room s a"
  then show "shadow_view (ia64_rse_rnat_shadow_merge a v d newer s) =
    (shadow_view s)(a := if newer then shadow_view s a ++ nat_view v (d AND rnat_mask)
      else nat_view v (d AND rnat_mask) ++ shadow_view s a)"
    unfolding shadow_room_def by (rule shadow_merge(2) [OF ok a])
qed

section \<open>What the collections know\<close>

text \<open>
  The NaT bits the engine knows for a collection: the fill latch below the suspended image
  below the spill latch.
\<close>

definition spill_view :: "rnat_state \<Rightarrow> u64 \<Rightarrow> nat \<rightharpoonup> bool" where
  "spill_view s a = (if rse_rnat_addr s = a then nat_view (ar_rnat s) (rse_rnat_defined s AND rnat_mask) else Map.empty)"

definition load_view :: "rnat_state \<Rightarrow> u64 \<Rightarrow> nat \<rightharpoonup> bool" where
  "load_view s a = (if rse_load_rnat_valid s \<and> rse_load_rnat_addr s = a
     then nat_view (rse_load_rnat s) (rse_load_rnat_defined s AND rnat_mask) else Map.empty)"

definition rnat_known :: "rnat_state \<Rightarrow> u64 \<Rightarrow> nat \<rightharpoonup> bool" where
  "rnat_known s a = load_view s a ++ shadow_view s a ++ spill_view s a"

definition rnat_ok :: "rnat_state \<Rightarrow> bool" where
  "rnat_ok s \<longleftrightarrow> shadow_ok s \<and>
     (if rse_rnat_addr s = - 1 then rse_rnat_defined s AND rnat_mask = 0
      else ia64_rse_collect_word (rse_rnat_addr s) = rse_rnat_addr s) \<and>
     (rse_load_rnat_valid s \<longrightarrow> ia64_rse_collect_word (rse_load_rnat_addr s) = rse_load_rnat_addr s)"

lemma rnat_load_latch_view: "rnat_load_latch s a = (v, d) \<Longrightarrow> nat_view v d = load_view s a"
  by (auto simp: rnat_load_latch_def load_view_def Let_def split: if_splits)

lemma rnat_spill_overlay_view:
  assumes "rnat_spill_overlay s a (v, d) = (v', d')"
  shows "nat_view v' d' = nat_view v d ++ spill_view s a"
proof (cases "rse_rnat_addr s = a")
  case True
  let ?d = "rse_rnat_defined s AND rnat_mask"
  have "((v AND NOT ?d) OR (ar_rnat s AND ?d), d OR ?d) = (v', d')"
    using assms unfolding rnat_spill_overlay_def prod.case Let_def if_P [OF True] .
  then have "v' = (v AND NOT ?d) OR (ar_rnat s AND ?d)" "d' = d OR ?d" unfolding prod.inject by blast+
  then have "nat_view v' d' = nat_view v d ++ nat_view (ar_rnat s) ?d" using nat_view_overlay by metis
  with True show ?thesis by (simp add: spill_view_def)
next
  case False
  with assms show ?thesis by (simp add: rnat_spill_overlay_def spill_view_def)
qed

lemma shadow_view_dom:
  assumes "shadow_ok s" "shadow_view s a i = Some x"
  shows "i < 63 \<and> ia64_rse_collect_word a = a"
proof -
  from assms(2) obtain v d where m: "shadow_map s a = Some (v, d)" and b: "bit d i"
    by (auto simp: shadow_view_def nat_view_def split: option.splits if_splits)
  then obtain j where j: "j < rse_rnat_shadow_count s" "re_addr (rse_rnat_shadow s j) = a" "re_defined (rse_rnat_shadow s j) = d"
    unfolding shadow_map_iff [OF assms(1)] by auto
  with shadow_okD(2) [OF assms(1) j(1)] have "d AND rnat_mask = d" "ia64_rse_collect_word a = a"
    by (simp_all add: rnat_entry_ok_def)
  with b bit_rnat_mask [of i] show ?thesis by (auto simp: and_eq_self_iff)
qed

lemma nat_view_rnat_mask: "nat_view v (d AND rnat_mask) i = Some x \<Longrightarrow> i < 63"
  using bit_rnat_mask [of i] by (auto simp: nat_view_def bit_and_iff split: if_splits)

lemma rnat_known_dom:
  assumes "shadow_ok s" "rnat_known s a i = Some x"
  shows "i < 63"
  using assms(2) shadow_view_dom [OF assms(1)] nat_view_rnat_mask
  by (fastforce simp: rnat_known_def map_add_Some_iff load_view_def spill_view_def split: if_splits)

lemma nat_view_within:
  assumes "\<And>i x. nat_view v d i = Some x \<Longrightarrow> i < 63"
  shows "d AND rnat_mask = d"
  using assms bit_rnat_mask unfolding and_eq_self_iff nat_view_def by metis

lemma compose_rnat_known:
  assumes ok: "shadow_ok s" and act: "rse_rnat_addr s \<noteq> - 1 \<or> rse_load_rnat_valid s"
    and c: "ia64_rse_compose_rnat b s = (v, d)"
  shows "nat_view v d = rnat_known s (ia64_rse_collect_word b)"
proof -
  let ?a = "ia64_rse_collect_word b"
  obtain v1 d1 where l: "rnat_load_latch s ?a = (v1, d1)" by force
  obtain v2 d2 where o: "ia64_rse_rnat_shadow_overlay s ?a (v1, d1) = (v2, d2)" by force
  obtain v3 d3 where p: "rnat_spill_overlay s ?a (v2, d2) = (v3, d3)" by force
  have eq: "nat_view v3 d3 = rnat_known s ?a"
    using rnat_load_latch_view [OF l] shadow_overlay [OF ok o] rnat_spill_overlay_view [OF p]
    by (simp add: rnat_known_def)
  have nb: "\<not> (rse_rnat_addr s = - 1 \<and> \<not> rse_load_rnat_valid s)" using act by blast
  have "v = v3 AND d3 AND rnat_mask" "d = d3 AND rnat_mask"
    using c unfolding ia64_rse_compose_rnat_def Let_def if_not_P [OF nb] l o p prod.case prod.inject by (blast intro: sym)+
  moreover have "d3 AND rnat_mask = d3"
    by (rule nat_view_within [of v3]) (simp add: eq rnat_known_dom [OF ok])
  ultimately show ?thesis using eq by simp
qed

lemma low_mask_bit:
  assumes "i < 63"
  shows "bit (ia64_rse_rnat_low_mask (ia64_rse_collect_bit b)) i \<longleftrightarrow> int i \<le> rnat_bit b"
proof -
  let ?b = "ia64_rse_collect_bit b"
  have u: "int (unat ?b) = rnat_bit b" using uint_collect_bit [of b] by simp
  show ?thesis
  proof (cases "62 \<le> ?b")
    case True
    then have "62 \<le> unat ?b" by (simp add: word_le_nat_alt)
    with assms u have "int i \<le> rnat_bit b" by linarith
    with True assms show ?thesis unfolding ia64_rse_rnat_low_mask_def if_P [OF True] bit_rnat_mask by simp
  next
    case False
    then have lt: "unat ?b < 62" by (simp add: word_le_nat_alt)
    then have "unat (?b + 1) = unat ?b + 1" by (simp add: unat_word_ariths)
    then have "bit (ia64_rse_rnat_low_mask ?b) i \<longleftrightarrow> i < unat ?b + 1"
      using assms unfolding ia64_rse_rnat_low_mask_def if_not_P [OF False] low_mask_eq by (auto simp: bit_mask_iff)
    then show ?thesis unfolding u [symmetric] by linarith
  qed
qed

lemma compose_rnat_none:
  "rse_rnat_addr s = - 1 \<Longrightarrow> \<not> rse_load_rnat_valid s \<Longrightarrow> ia64_rse_compose_rnat b s = (0, 0)"
  by (simp add: ia64_rse_compose_rnat_def)

text \<open>
  C7: While the spill or the fill latch is active, the guest-visible \<^verbatim>\<open>AR.RNAT\<close> shows exactly what the engine knows of
  the collection at \<^verbatim>\<open>AR.BSPSTORE\<close>, up to the bit of the store pointer: a bit reads as one only when the newest source
  that defines it (spill latch over suspended image over fill latch) says so, and the defined mask lists exactly the known
  bits.  With neither latch active the register reads as zero with no bit defined, even where a suspended image is known.
\<close>

theorem read_rnat_known:
  assumes ok: "shadow_ok s"
  shows "(bit (ia64_rse_read_rnat b s) i \<longleftrightarrow>
      (rse_rnat_addr s \<noteq> - 1 \<or> rse_load_rnat_valid s) \<and>
      int i \<le> rnat_bit b \<and> rnat_known s (ia64_rse_collect_word b) i = Some True) \<and>
    (bit (ia64_rse_read_rnat_defined b s) i \<longleftrightarrow>
      (rse_rnat_addr s \<noteq> - 1 \<or> rse_load_rnat_valid s) \<and>
      int i \<le> rnat_bit b \<and> rnat_known s (ia64_rse_collect_word b) i \<noteq> None)"
proof (cases "rse_rnat_addr s \<noteq> - 1 \<or> rse_load_rnat_valid s")
  case False
  then have "ia64_rse_compose_rnat b s = (0, 0)" by (intro compose_rnat_none) simp_all
  then show ?thesis using False by (simp add: ia64_rse_read_rnat_def ia64_rse_read_rnat_defined_def)
next
  case act: True
  obtain v d where c: "ia64_rse_compose_rnat b s = (v, d)" by force
  have k: "rnat_known s (ia64_rse_collect_word b) i = nat_view v d i"
    using compose_rnat_known [OF ok act c] by simp
  have lt: "i < 63" if "bit d i"
    using rnat_known_dom [OF ok, of "ia64_rse_collect_word b" i "bit v i"] k that by (simp add: nat_view_def)
  show ?thesis
    unfolding ia64_rse_read_rnat_def ia64_rse_read_rnat_defined_def Let_def c prod.case k
    using act lt low_mask_bit [of i b] by (auto simp: bit_and_iff nat_view_def split: if_splits)
qed

lemma stash_known:
  assumes ok: "rnat_ok s" and room: "shadow_room s (rse_rnat_addr s)"
  defines "t \<equiv> ia64_rse_rnat_shadow_stash s"
  shows "shadow_ok t \<and> (rse_rnat_addr s \<noteq> - 1 \<longrightarrow>
    shadow_view t = (shadow_view s)(rse_rnat_addr s := shadow_view s (rse_rnat_addr s) ++ spill_view s (rse_rnat_addr s)))
    \<and> (rse_rnat_addr s = - 1 \<longrightarrow> t = s)"
proof (cases "rse_rnat_addr s = - 1")
  case True
  then have "t = s" by (simp add: t_def ia64_rse_rnat_shadow_stash_def ia64_rse_rnat_shadow_merge_def Let_def)
  with True ok show ?thesis by (simp add: rnat_ok_def)
next
  case False
  with ok have a: "ia64_rse_collect_word (rse_rnat_addr s) = rse_rnat_addr s" and sok: "shadow_ok s"
    by (simp_all add: rnat_ok_def)
  show ?thesis
    using False shadow.put_ok [OF sok a] shadow.put_view [OF sok a room]
    by (simp add: t_def ia64_rse_rnat_shadow_stash_def spill_view_def)
qed

lemma merge_frame:
  "rse_load_rnat (ia64_rse_rnat_shadow_merge a v d n s) = rse_load_rnat s"
  "rse_load_rnat_addr (ia64_rse_rnat_shadow_merge a v d n s) = rse_load_rnat_addr s"
  "rse_load_rnat_defined (ia64_rse_rnat_shadow_merge a v d n s) = rse_load_rnat_defined s"
  "rse_load_rnat_valid (ia64_rse_rnat_shadow_merge a v d n s) = rse_load_rnat_valid s"
  "ar_rnat (ia64_rse_rnat_shadow_merge a v d n s) = ar_rnat s"
  "rse_rnat_addr (ia64_rse_rnat_shadow_merge a v d n s) = rse_rnat_addr s"
  "rse_rnat_defined (ia64_rse_rnat_shadow_merge a v d n s) = rse_rnat_defined s"
  unfolding ia64_rse_rnat_shadow_merge_def ia64_rse_rnat_shadow_find_def Let_def prod.case case_prod_beta
  by (simp_all add: if_distrib [of rse_load_rnat] if_distrib [of rse_load_rnat_addr])

lemma take_frame:
  assumes "ia64_rse_rnat_shadow_take a s = (t, r)"
  shows "rse_load_rnat t = rse_load_rnat s \<and> rse_load_rnat_addr t = rse_load_rnat_addr s \<and>
    rse_load_rnat_defined t = rse_load_rnat_defined s \<and> rse_load_rnat_valid t = rse_load_rnat_valid s"
  using assms unfolding ia64_rse_rnat_shadow_take_def ia64_rse_rnat_shadow_find_def Let_def prod.case
  by (auto simp: ia64_rse_rnat_shadow_delete_def Let_def split: option.splits)

lemma stash_load_view: "load_view (ia64_rse_rnat_shadow_stash s) = load_view s"
  by (rule ext) (simp add: load_view_def ia64_rse_rnat_shadow_stash_def merge_frame)

lemma stash_shadow_view:
  assumes ok: "rnat_ok s" and room: "shadow_room s (rse_rnat_addr s)"
  shows "shadow_view (ia64_rse_rnat_shadow_stash s) b =
    (if b = rse_rnat_addr s then shadow_view s b ++ spill_view s b else shadow_view s b)"
proof (cases "rse_rnat_addr s = - 1")
  case True
  with ok have "spill_view s b = Map.empty" for b by (simp add: rnat_ok_def spill_view_def)
  with stash_known [OF ok room] True show ?thesis by simp
next
  case False
  with stash_known [OF ok room] show ?thesis by simp
qed

text \<open>The latch that a rebinding builds: the fill latch of the group under its suspended collection.\<close>

lemma bound_latch:
  assumes ok: "rnat_ok s" and room: "shadow_room s (rse_rnat_addr s)" and na: "rse_rnat_addr s \<noteq> a"
  obtains s2 tk v d where "ia64_rse_rnat_shadow_take a (ia64_rse_rnat_shadow_stash s) = (s2, tk)"
    "ia64_rse_rnat_bind a s = s2\<lparr>ar_rnat := v, rse_rnat_addr := a, rse_rnat_defined := d\<rparr>"
    "nat_view v d = load_view s a ++ shadow_view s a" "d AND rnat_mask = d"
proof -
  define s1 where "s1 = ia64_rse_rnat_shadow_stash s"
  note st = stash_known [OF ok room, folded s1_def]
  obtain v d where l: "rnat_load_latch s1 a = (v, d)" by force
  obtain s2 tk where tk: "ia64_rse_rnat_shadow_take a s1 = (s2, tk)" by force
  note t2 = shadow_take [OF conjunct1 [OF st] tk]
  define vd where "vd = (case tk of None \<Rightarrow> (v, d) | Some (sv, sd) \<Rightarrow> ((v AND NOT sd) OR (sv AND sd), d OR sd))"
  have bind: "ia64_rse_rnat_bind a s = s2\<lparr>ar_rnat := fst vd, rse_rnat_addr := a, rse_rnat_defined := snd vd\<rparr>"
    unfolding ia64_rse_rnat_bind_def if_not_P [OF na] s1_def [symmetric] Let_def l prod.case tk vd_def [symmetric]
    by (simp add: case_prod_beta)
  have "nat_view (fst vd) (snd vd) = nat_view v d ++ shadow_view s1 a"
    using t2 unfolding vd_def shadow_view_def by (auto simp: nat_view_overlay split: option.splits)
  then have v: "nat_view (fst vd) (snd vd) = load_view s a ++ shadow_view s a"
    using na rnat_load_latch_view [OF l] stash_load_view [of s, folded s1_def] stash_shadow_view [OF ok room, of a, folded s1_def] by simp
  have "snd vd AND rnat_mask = snd vd"
  proof (rule nat_view_within [of "fst vd"])
    fix i x assume "nat_view (fst vd) (snd vd) i = Some x"
    then have "rnat_known s a i = Some x" using v na by (simp add: rnat_known_def spill_view_def)
    then show "i < 63" using ok rnat_known_dom [of s a i x] by (simp add: rnat_ok_def)
  qed
  with tk [unfolded s1_def] bind v show ?thesis by (rule that)
qed

lemma bound_state:
  assumes ok: "rnat_ok s" and room: "shadow_room s (rse_rnat_addr s)" and a: "ia64_rse_collect_word a = a" and na: "rse_rnat_addr s \<noteq> a"
  defines "t \<equiv> ia64_rse_rnat_bind a s"
  shows "rnat_ok t \<and> rse_rnat_addr t = a \<and> load_view t = load_view s \<and>
    shadow_view t = (shadow_view (ia64_rse_rnat_shadow_stash s))(a := Map.empty) \<and>
    (\<forall>b. spill_view t b = (if b = a then load_view s a ++ shadow_view s a else Map.empty))"
proof -
  obtain s2 tk v d where tk: "ia64_rse_rnat_shadow_take a (ia64_rse_rnat_shadow_stash s) = (s2, tk)"
    and t: "t = s2\<lparr>ar_rnat := v, rse_rnat_addr := a, rse_rnat_defined := d\<rparr>"
    and v: "nat_view v d = load_view s a ++ shadow_view s a" "d AND rnat_mask = d"
    unfolding t_def by (rule bound_latch [OF ok room na])
  note t2 = shadow_take [OF conjunct1 [OF stash_known [OF ok room]] tk]
  have lv: "load_view t = load_view s"
    using take_frame [OF tk] merge_frame by (simp add: fun_eq_iff load_view_def t ia64_rse_rnat_shadow_stash_def)
  have tab: "shadow_ok s2" "rse_rnat_shadow t = rse_rnat_shadow s2" "rse_rnat_shadow_count t = rse_rnat_shadow_count s2"
    using t2 by (simp_all add: t)
  note same = shadow_same_table [OF tab]
  have "shadow_view t = shadow_view s2" using same(2) by (simp add: shadow_view_def fun_eq_iff)
  then have sv: "shadow_view t = (shadow_view (ia64_rse_rnat_shadow_stash s))(a := Map.empty)" using t2 shadow_view_upd by metis
  have "rnat_ok t"
    using same t2 a ok collect_word_not_minus_1 [OF a] take_frame [OF tk] merge_frame
    by (simp add: rnat_ok_def t ia64_rse_rnat_shadow_stash_def)
  then show ?thesis using lv sv v by (simp add: spill_view_def t)
qed

text \<open>
  C4: Moving the spill latch to another collection loses nothing and invents nothing, as long as
  the table of suspended collections is not full (or already has an entry for the image): the image
  it leaves is suspended with its bits over the older ones, the image it enters is composed of
  the fill latch and the suspended bits, and what the engine knows of every collection is
  unchanged.
\<close>

theorem rnat_bind_known:
  assumes ok: "rnat_ok s" and room: "shadow_room s (rse_rnat_addr s)" and a: "ia64_rse_collect_word a = a"
  shows "rnat_ok (ia64_rse_rnat_bind a s) \<and> rse_rnat_addr (ia64_rse_rnat_bind a s) = a \<and>
    rnat_known (ia64_rse_rnat_bind a s) = rnat_known s"
proof (cases "rse_rnat_addr s = a")
  case True
  with ok show ?thesis by (simp add: ia64_rse_rnat_bind_def)
next
  case False
  note t = bound_state [OF ok room a False]
  have "rnat_known (ia64_rse_rnat_bind a s) b = rnat_known s b" for b
  proof (cases "b = a")
    case True
    with False have "spill_view s b = Map.empty" by (simp add: spill_view_def)
    with True t show ?thesis by (auto simp: rnat_known_def map_add_def fun_eq_iff split: option.split)
  next
    case nb: False
    have "spill_view s b = Map.empty" if "b \<noteq> rse_rnat_addr s" using that by (simp add: spill_view_def)
    with nb t show ?thesis by (simp add: rnat_known_def stash_shadow_view [OF ok room])
  qed
  then show ?thesis using t by blast
qed

text \<open>A small state: one suspended collection, a spill latch on another and a fill latch on a third.\<close>

definition rnat_example :: rnat_state where
  "rnat_example = \<lparr>ar_rnat = 5, rse_rnat_addr = 0x11F8, rse_rnat_defined = 7, rse_load_rnat = 1,
     rse_load_rnat_addr = 0x15F8, rse_load_rnat_defined = 3, rse_load_rnat_valid = True,
     rse_writeback_rnat = rnat_entry_zero,
     rse_rnat_shadow = (\<lambda>_. rnat_entry_zero)(0 := \<lparr>re_value = 2, re_addr = 0x13F8, re_defined = 2, re_valid = True\<rparr>),
     rse_rnat_shadow_count = 1, rse_rnat_shadow_last = 0\<rparr>"

lemma rnat_example_ok: "rnat_ok rnat_example" "shadow_room rnat_example a"
  by (simp_all add: rnat_ok_def shadow_ok_def rnat_example_def rnat_entry_ok_def ia64_rse_collect_word_def shadow_room_def)

theorem rnat_bind_known_witness:
  "rnat_known (ia64_rse_rnat_bind 0x13F8 rnat_example) 0x13F8 1 = Some True \<and>
   rnat_known (ia64_rse_rnat_bind 0x13F8 rnat_example) 0x11F8 2 = Some True"
proof -
  have "ia64_rse_collect_word 0x13F8 = 0x13F8" by (simp add: ia64_rse_collect_word_def)
  then have "rnat_known (ia64_rse_rnat_bind 0x13F8 rnat_example) = rnat_known rnat_example"
    using rnat_bind_known [OF rnat_example_ok] by blast
  then show ?thesis
    by (simp add: rnat_known_def load_view_def spill_view_def shadow_view_def shadow_map_def nat_view_def
        ia64_rse_rnat_shadow_lookup_def rnat_example_def bit_iff_odd map_add_def)
qed

theorem read_rnat_known_witness:
  "bit (ia64_rse_read_rnat 0x1010 rnat_example) 2 \<and> \<not> bit (ia64_rse_read_rnat 0x1008 rnat_example) 2"
proof -
  have k: "rnat_known rnat_example 0x11F8 2 = Some True"
    by (simp add: rnat_known_def load_view_def spill_view_def nat_view_def rnat_example_def bit_iff_odd map_add_def)
  have ok: "shadow_ok rnat_example" and act: "rse_rnat_addr rnat_example \<noteq> - 1 \<or> rse_load_rnat_valid rnat_example"
    using rnat_example_ok by (simp_all add: rnat_ok_def rnat_example_def)
  note r = read_rnat_known [OF ok, of _ 2]
  have "rnat_bit 0x1010 = 2" "rnat_bit 0x1008 = 1" by (simp_all add: rnat_bit_def)
  moreover have "ia64_rse_collect_word 0x1010 = 0x11F8" "ia64_rse_collect_word 0x1008 = 0x11F8"
    by (simp_all add: ia64_rse_collect_word_def)
  ultimately show ?thesis using r [of "0x1010"] r [of "0x1008"] k act by simp
qed

text \<open>
  C8: Before the fill latch is loaded with another collection its image is suspended below the
  bits already known, as long as the table of suspended collections has room for it, so replacing
  the latch changes what is known of the new collection only.
\<close>

theorem load_rnat_stash_known:
  assumes ok: "rnat_ok s" and room: "shadow_room s (rse_load_rnat_addr s)" and b: "b \<noteq> next_addr"
  shows "rnat_known ((ia64_rse_load_rnat_stash next_addr s)\<lparr>rse_load_rnat := v, rse_load_rnat_addr := next_addr,
      rse_load_rnat_defined := d, rse_load_rnat_valid := True\<rparr>) b = rnat_known s b"
    (is "rnat_known ?t b = _")
proof -
  let ?u = "ia64_rse_load_rnat_stash next_addr s"
  have sok: "shadow_ok s" using ok by (simp add: rnat_ok_def)
  have lv: "load_view ?t b = Map.empty" using b by (simp add: load_view_def)
  have spv: "spill_view ?t b = spill_view s b"
    by (simp add: spill_view_def ia64_rse_load_rnat_stash_def merge_frame)
  show ?thesis
  proof (cases "rse_load_rnat_valid s \<and> rse_load_rnat_addr s \<noteq> next_addr")
    case False
    then have u: "?u = s" by (auto simp: ia64_rse_load_rnat_stash_def)
    have "load_view s b = Map.empty" using False b by (auto simp: load_view_def)
    moreover have "shadow_view ?t b = shadow_view s b"
      using shadow_same_table(2) [OF sok, of ?t] unfolding u by (simp add: shadow_view_def)
    ultimately show ?thesis using lv spv by (simp add: rnat_known_def)
  next
    case True
    let ?l = "rse_load_rnat_addr s"
    have l: "ia64_rse_collect_word ?l = ?l" using True ok by (simp add: rnat_ok_def)
    have u: "?u = ia64_rse_rnat_shadow_merge ?l (rse_load_rnat s) (rse_load_rnat_defined s) False s"
      using True by (auto simp: ia64_rse_load_rnat_stash_def)
    have "shadow_map ?t = shadow_map ?u"
      by (rule shadow_same_table(2)) (simp_all add: u shadow.put_ok [OF sok l])
    then have "shadow_view ?t b = shadow_view ?u b" by (simp add: shadow_view_def)
    also have "\<dots> = load_view s b ++ shadow_view s b"
      unfolding u shadow.put_view [OF sok l room] using True by (auto simp: load_view_def)
    finally show ?thesis using lv spv by (simp add: rnat_known_def map_add_assoc)
  qed
qed

theorem load_rnat_stash_witness:
  "rnat_known ((ia64_rse_load_rnat_stash 0x17F8 rnat_example)\<lparr>rse_load_rnat := 0, rse_load_rnat_addr := 0x17F8,
     rse_load_rnat_defined := rnat_mask, rse_load_rnat_valid := True\<rparr>) 0x15F8 0 = Some True"
proof -
  have "rnat_known rnat_example 0x15F8 0 = Some True"
    by (simp add: rnat_known_def load_view_def spill_view_def shadow_view_def shadow_map_def nat_view_def
        ia64_rse_rnat_shadow_lookup_def rnat_example_def bit_iff_odd map_add_def)
  then show ?thesis
    using load_rnat_stash_known [OF rnat_example_ok, where b = "0x15F8" and next_addr = "0x17F8" and v = 0 and d = rnat_mask] by simp
qed

text \<open>
  C9: After a frame is discarded the suspended images keep exactly the bits of the register words
  in the retained range of the backing store, and no others.
\<close>

theorem retain_range_view:
  assumes ok: "shadow_ok s" and al: "8 dvd unat first" "8 dvd unat past"
  shows "shadow_ok (ia64_rse_rnat_shadow_retain_range first past s) \<and>
    shadow_view (ia64_rse_rnat_shadow_retain_range first past s) a i =
      (if unat first \<le> unat a - 504 + 8 * i \<and> unat a - 504 + 8 * i < unat past
       then shadow_view s a i else None)"
proof -
  have r: "shadow_ok (ia64_rse_rnat_shadow_retain_range first past s)"
    "shadow_view (ia64_rse_rnat_shadow_retain_range first past s) a = shadow_view s a |` range_bits first past a"
    using shadow_retain_from [OF ok, of 0 first past] by (simp_all add: ia64_rse_rnat_shadow_retain_range_def)
  show ?thesis
  proof (cases "shadow_view s a i")
    case None
    with r show ?thesis by (simp add: restrict_map_def)
  next
    case (Some x)
    from shadow_view_dom [OF ok this] have "i < 63" "ia64_rse_collect_word a = a" by simp_all
    with r bit_range_keep [OF _ al, of a i] show ?thesis by (simp add: restrict_map_def)
  qed
qed

theorem retain_range_witness:
  "shadow_view (ia64_rse_rnat_shadow_retain_range 0x1200 0x1208 rnat_example) 0x13F8 1 = None \<and>
   shadow_view (ia64_rse_rnat_shadow_retain_range 0x1200 0x1210 rnat_example) 0x13F8 1 = Some True"
proof -
  have "shadow_ok rnat_example" using rnat_example_ok by (simp add: rnat_ok_def)
  note r = retain_range_view [OF this, of "0x1200"]
  show ?thesis
    using r [of "0x1208" "0x13F8" 1] r [of "0x1210" "0x13F8" 1]
    by (simp add: shadow_view_def shadow_map_def nat_view_def ia64_rse_rnat_shadow_lookup_def rnat_example_def bit_iff_odd)
qed

end
