(* ===== verification/Alat.thy ===== *)
theory Alat
  imports Ia64_Prelude
begin

text \<open>
  The Advanced Load Address Table of \<^verbatim>\<open>target/ia64/arch/alat.c\<close>: 32 entries, a derived
  register index, a derived occupancy bitmap and a derived entry count, and the write-scope
  token of one store.  The table is an abstract map from a register to the physical range
  its advanced load read; \<open>alat_wf\<close> ties the derived fields to the entries, and the
  operations are shown to be updates and restrictions of that map.

  The emulator samples counters that other threads advance: the external RAM write
  generation and the store sequence of every virtual CPU.  Every sampling point of the code
  is an argument that holds the values its atomic loads return, so that the definitions make
  no assumption on the interleaving.  Address translation (\<^verbatim>\<open>ia64_data_address_to_phys\<close>) is an
  argument as well.
\<close>

section \<open>State\<close>

record alat_entry =
  e_phys_addr :: u64
  e_size :: u8
  e_reg :: nat
  e_fp :: bool
  e_valid :: bool

record alat_state =
  alat :: "nat \<Rightarrow> alat_entry"
  alat_active_count :: nat
  alat_reg_slot :: "bool \<Rightarrow> nat \<Rightarrow> nat"
  alat_occupied :: u32
  alat_full :: bool
  write_active :: bool
  write_observed :: bool
  write_generation :: u64
  memory_write_generation :: u64

text \<open>
  What one run of \<^verbatim>\<open>ia64_alat_memory_generation\<close> reads: the external generation and the
  sequence of each CPU.  A closing sample also reads the active writer count twice and the
  external generation once more (\<^verbatim>\<open>physical_memory_write_generation_changed\<close>), and takes a
  fresh generation when the window turns out to have changed.
\<close>

record gen_sample =
  g_external :: u64
  g_sequences :: "u64 list"

record window_sample =
  w_gen :: gen_sample
  w_active_before :: nat
  w_current :: u64
  w_active_after :: nat
  w_fresh :: gen_sample

datatype memory_speculation = Mem_Non_Speculative | Mem_Limited_Speculation | Mem_Speculative

definition ia64_memory_allows_advanced_load :: "memory_speculation \<Rightarrow> bool" where
  "ia64_memory_allows_advanced_load spec \<longleftrightarrow> spec \<noteq> Mem_Non_Speculative"

section \<open>Entries\<close>

definition ia64_alat_invalidate_entry :: "nat \<Rightarrow> alat_state \<Rightarrow> alat_state" where
  "ia64_alat_invalidate_entry i s =
     (let entry = alat s i in
      if \<not> e_valid entry then s
      else s\<lparr>alat := (alat s)(i := entry\<lparr>e_valid := False\<rparr>),
             alat_reg_slot := (alat_reg_slot s)(e_fp entry :=
               (alat_reg_slot s (e_fp entry))(e_reg entry := 0)),
             alat_occupied := alat_occupied s AND NOT (push_bit i 1),
             alat_active_count :=
               (if alat_active_count s > 0 then alat_active_count s - 1
                else alat_active_count s)\<rparr>)"

definition ia64_alat_clear :: "alat_state \<Rightarrow> alat_state" where
  "ia64_alat_clear s =
     (let s1 = s\<lparr>alat_reg_slot := (\<lambda>_ _. 0), alat_occupied := 0\<rparr> in
      if alat_active_count s1 = 0 then s1
      else s1\<lparr>alat := (\<lambda>i. if i < 32 then (alat s1 i)\<lparr>e_valid := False\<rparr> else alat s1 i),
              alat_active_count := 0\<rparr>)"

section \<open>Write generations\<close>

text \<open>The single-CPU fast path returns the only sequence, otherwise the sequences are summed.\<close>

definition ia64_alat_cpu_generation :: "u64 list \<Rightarrow> u64 \<times> bool" where
  "ia64_alat_cpu_generation sequences =
     (if length sequences = 1 then (hd sequences, hd sequences AND 1 \<noteq> 0)
      else fold (\<lambda>sequence (generation, active).
                   (generation + sequence, active \<or> sequence AND 1 \<noteq> 0))
             sequences (0, False))"

definition ia64_alat_memory_generation :: "gen_sample \<Rightarrow> u64" where
  "ia64_alat_memory_generation g =
     g_external g + fst (ia64_alat_cpu_generation (g_sequences g))"

definition physical_memory_write_generation_changed :: "window_sample \<Rightarrow> u64 \<Rightarrow> bool" where
  "physical_memory_write_generation_changed w generation \<longleftrightarrow>
     w_active_before w \<noteq> 0 \<or> w_active_after w \<noteq> 0 \<or> w_current w \<noteq> generation"

definition ia64_alat_memory_generation_changed :: "window_sample \<Rightarrow> u64 \<Rightarrow> bool" where
  "ia64_alat_memory_generation_changed w generation =
     (let external = g_external (w_gen w);
          (cpu_generation, active) = ia64_alat_cpu_generation (g_sequences (w_gen w));
          current = external + cpu_generation
      in active \<or> current \<noteq> generation \<or> physical_memory_write_generation_changed w external)"

definition ia64_alat_sync_memory_writes :: "gen_sample \<Rightarrow> alat_state \<Rightarrow> alat_state \<times> bool" where
  "ia64_alat_sync_memory_writes g s =
     (let generation = ia64_alat_memory_generation g in
      if generation \<noteq> memory_write_generation s
      then ((ia64_alat_clear s)\<lparr>memory_write_generation := generation\<rparr>, True)
      else (s, False))"

definition ia64_alat_memory_window_changed ::
  "window_sample \<Rightarrow> u64 \<Rightarrow> alat_state \<Rightarrow> alat_state \<times> bool" where
  "ia64_alat_memory_window_changed w generation s =
     (if \<not> ia64_alat_memory_generation_changed w generation then (s, False)
      else ((ia64_alat_clear s)\<lparr>memory_write_generation := ia64_alat_memory_generation (w_fresh w)\<rparr>,
            True))"

section \<open>Range invalidation\<close>

definition ia64_invalidate_alat_reg_range :: "nat \<Rightarrow> nat \<Rightarrow> bool \<Rightarrow> alat_state \<Rightarrow> alat_state" where
  "ia64_invalidate_alat_reg_range first past fp s =
     scan_bits (\<lambda>i s.
       if e_fp (alat s i) = fp \<and> e_reg (alat s i) \<ge> first \<and> e_reg (alat s i) < past
       then ia64_alat_invalidate_entry i s else s) (alat_occupied s) s"

definition ia64_ranges_overlap :: "u64 \<Rightarrow> u64 \<Rightarrow> u64 \<Rightarrow> u64 \<Rightarrow> bool" where
  "ia64_ranges_overlap start sz other_start other_size =
     (if sz = 0 \<or> other_size = 0 then False
      else
        let end0 = start + sz - 1;
            end1 = (if end0 < start then -1 else end0);
            other_end0 = other_start + other_size - 1;
            other_end1 = (if other_end0 < other_start then -1 else other_end0)
        in start \<le> other_end1 \<and> other_start \<le> end1)"

definition ia64_invalidate_alat_phys_range ::
  "gen_sample \<Rightarrow> u64 \<Rightarrow> u64 \<Rightarrow> alat_state \<Rightarrow> alat_state" where
  "ia64_invalidate_alat_phys_range g pa sz s =
     (if alat_active_count s = 0 then s
      else
        let (s1, synced) = ia64_alat_sync_memory_writes g s in
        if synced then s1
        else
          scan_bits (\<lambda>i s.
            if ia64_ranges_overlap pa sz (e_phys_addr (alat s i)) (ucast (e_size (alat s i)))
            then ia64_alat_invalidate_entry i s else s) (alat_occupied s1) s1)"

definition ia64_invalidate_stacked_alat :: "alat_state \<Rightarrow> alat_state" where
  "ia64_invalidate_stacked_alat s = ia64_invalidate_alat_reg_range 32 128 False s"

definition ia64_invalidate_rotating_fp_alat :: "alat_state \<Rightarrow> alat_state" where
  "ia64_invalidate_rotating_fp_alat s = ia64_invalidate_alat_reg_range 32 128 True s"

section \<open>Checks and registration\<close>

text \<open>
  \<^verbatim>\<open>chk.a\<close> either finds an entry and returns zero, or records \<^verbatim>\<open>cr_ifa\<close> and leaves the
  translated block with a general exception: the left result, with the state it leaves.
\<close>

definition ia64_alat_chk_a ::
  "gen_sample \<Rightarrow> window_sample \<Rightarrow> u64 \<Rightarrow> nat \<Rightarrow> alat_state \<Rightarrow> (u64 \<times> alat_state) + (u64 \<times> alat_state)"
where
  "ia64_alat_chk_a g w va reg s =
     (let (s1, generation, found) =
        (if alat_active_count s \<noteq> 0 then
           let (s1, synced) = ia64_alat_sync_memory_writes g s in
           if \<not> synced then
             (s1, memory_write_generation s1,
              reg < 128 \<and> (alat_reg_slot s1 False reg \<noteq> 0 \<or> alat_reg_slot s1 True reg \<noteq> 0))
           else (s1, 0, False)
         else (s, 0, False))
      in if found then
           let (s2, changed) = ia64_alat_memory_window_changed w generation s1 in
           if \<not> changed then Inr (0, s2) else Inl (va, s2)
         else Inl (va, s1))"

definition ia64_alat_invala :: "gen_sample \<Rightarrow> alat_state \<Rightarrow> alat_state" where
  "ia64_alat_invala g s =
     (ia64_alat_clear s)\<lparr>memory_write_generation := ia64_alat_memory_generation g\<rparr>"

definition ia64_alat_load_begin :: "gen_sample \<Rightarrow> alat_state \<Rightarrow> alat_state \<times> u64" where
  "ia64_alat_load_begin g s =
     (let (s1, _) = ia64_alat_sync_memory_writes g s in (s1, memory_write_generation s1))"

text \<open>
  \<^verbatim>\<open>ia64_set_alat\<close>.  The address is translated only when no qualified physical address was
  passed (\<^verbatim>\<open>pa == UINT64_MAX\<close>); \<open>xlat_attr\<close> is \<^verbatim>\<open>ia64_data_address_to_phys_attr\<close>.
\<close>

definition alat_register_slot :: "bool \<Rightarrow> nat \<Rightarrow> alat_state \<Rightarrow> nat option" where
  "alat_register_slot fp reg s =
     (let slot = alat_reg_slot s fp reg in
      if slot = 0 then
        (if alat_occupied s = -1 then None else Some (ctz_word (NOT (alat_occupied s))))
      else Some (slot - 1))"

definition alat_publish :: "nat \<Rightarrow> u64 \<Rightarrow> u32 \<Rightarrow> nat \<Rightarrow> bool \<Rightarrow> alat_state \<Rightarrow> alat_state" where
  "alat_publish i pa sz reg fp s =
     (let count = (if \<not> e_valid (alat s i) then alat_active_count s + 1 else alat_active_count s)
      in s\<lparr>alat_active_count := count,
           alat := (alat s)(i := \<lparr>e_phys_addr = pa, e_size = ucast sz, e_reg = reg, e_fp = fp,
                                   e_valid = True\<rparr>),
           alat_reg_slot := (alat_reg_slot s)(fp := (alat_reg_slot s fp)(reg := i + 1)),
           alat_occupied := alat_occupied s OR push_bit i 1\<rparr>)"

definition ia64_set_alat ::
  "(u64 \<Rightarrow> (u64 \<times> memory_speculation) option) \<Rightarrow> window_sample \<Rightarrow> window_sample \<Rightarrow>
   nat \<Rightarrow> u64 \<Rightarrow> u32 \<Rightarrow> bool \<Rightarrow> u64 \<Rightarrow> u64 \<Rightarrow> alat_state \<Rightarrow> alat_state"
where
  "ia64_set_alat xlat_attr w1 w2 reg addr sz fp generation pa s =
     (if reg \<ge> 128 then s
      else
        let (s1, changed) = ia64_alat_memory_window_changed w1 generation s in
        if changed then s1
        else
          case (if pa = -1 then
                  (case xlat_attr addr of
                     None \<Rightarrow> None
                   | Some (pa', spec) \<Rightarrow>
                       if ia64_memory_allows_advanced_load spec then Some pa' else None)
                else Some pa) of
            None \<Rightarrow> s1
          | Some pa' \<Rightarrow>
              case alat_register_slot fp reg s1 of
                None \<Rightarrow> s1
              | Some i \<Rightarrow>
                  let s2 = alat_publish i pa' sz reg fp s1
                  in fst (ia64_alat_memory_window_changed w2 generation s2))"

definition ia64_alat_set where
  "ia64_alat_set xlat_attr w1 w2 reg addr sz generation s =
     ia64_set_alat xlat_attr w1 w2 reg addr sz False generation (-1) s"

definition ia64_alat_set_fp where
  "ia64_alat_set_fp xlat_attr w1 w2 reg addr sz generation s =
     (if reg > 1 then ia64_set_alat xlat_attr w1 w2 reg addr sz True generation (-1) s else s)"

definition ia64_alat_set_pa where
  "ia64_alat_set_pa xlat_attr w1 w2 reg addr sz generation pa fp s =
     (if \<not> fp \<or> reg > 1 then ia64_set_alat xlat_attr w1 w2 reg addr sz fp generation pa s else s)"

text \<open>The index of the register's entry, or \<^term>\<open>None\<close> for the C result \<open>-1\<close>.\<close>

definition ia64_find_alat_reg ::
  "gen_sample \<Rightarrow> window_sample \<Rightarrow> nat \<Rightarrow> bool \<Rightarrow> bool \<Rightarrow> alat_state \<Rightarrow>
   alat_state \<times> u64 \<times> nat option"
where
  "ia64_find_alat_reg g w reg fp close_window s =
     (if reg \<ge> 128 \<or> alat_active_count s = 0 then (s, 0, None)
      else
        let (s1, synced) = ia64_alat_sync_memory_writes g s in
        if synced then (s1, 0, None)
        else
          let generation = memory_write_generation s1;
              slot = alat_reg_slot s1 fp reg
          in if slot = 0 then (s1, generation, None)
             else if close_window then
               let (s2, changed) = ia64_alat_memory_window_changed w generation s1 in
               if changed then (s2, generation, None) else (s2, generation, Some (slot - 1))
             else (s1, generation, Some (slot - 1)))"

definition ia64_alat_matches_addr ::
  "(u64 \<Rightarrow> u64 option) \<Rightarrow> alat_entry \<Rightarrow> u64 \<Rightarrow> u32 \<Rightarrow> bool" where
  "ia64_alat_matches_addr xlat entry addr sz =
     (if ucast (e_size entry) \<noteq> sz then False
      else case xlat addr of None \<Rightarrow> False | Some pa \<Rightarrow> e_phys_addr entry = pa)"

definition ia64_check_load_alat ::
  "(u64 \<Rightarrow> u64 option) \<Rightarrow> gen_sample \<Rightarrow> window_sample \<Rightarrow> window_sample \<Rightarrow>
   nat \<Rightarrow> bool \<Rightarrow> bool \<Rightarrow> u64 \<Rightarrow> u32 \<Rightarrow> bool \<Rightarrow> alat_state \<Rightarrow> alat_state \<times> bool"
where
  "ia64_check_load_alat xlat g w1 w2 reg fp verify_addr addr sz clear s =
     (if fp \<and> reg \<le> 1 then (s, False)
      else
        let (s1, generation, found) = ia64_find_alat_reg g w1 reg fp verify_addr s in
        case found of
          None \<Rightarrow> (s1, False)
        | Some i \<Rightarrow>
            if verify_addr \<and> \<not> ia64_alat_matches_addr xlat (alat s1 i) addr sz then
              (if clear then ia64_alat_invalidate_entry i s1 else s1, False)
            else
              let (s2, changed) = ia64_alat_memory_window_changed w2 generation s1 in
              if changed then (s2, False)
              else (if clear then ia64_alat_invalidate_entry i s2 else s2, True))"

definition ia64_alat_invalidate_register :: "nat \<Rightarrow> bool \<Rightarrow> alat_state \<Rightarrow> alat_state" where
  "ia64_alat_invalidate_register reg fp s =
     (if reg \<ge> 128 then s
      else let slot = alat_reg_slot s fp reg in
        if slot \<noteq> 0 then ia64_alat_invalidate_entry (slot - 1) s else s)"

text \<open>The clear of the whole table at the end of \<^verbatim>\<open>ia64_ptc_mark_global\<close>, for a purge with \<^verbatim>\<open>ptc.ga\<close>.\<close>

definition ia64_ptc_mark_global_alat :: "alat_state \<Rightarrow> alat_state" where
  "ia64_ptc_mark_global_alat s =
     s\<lparr>alat := (\<lambda>_. \<lparr>e_phys_addr = 0, e_size = 0, e_reg = 0, e_fp = False, e_valid = False\<rparr>),
       alat_active_count := 0, alat_occupied := 0, alat_reg_slot := (\<lambda>_ _. 0)\<rparr>"

section \<open>Store scopes\<close>

text \<open>
  The store sequence \<open>seq\<close> of this CPU is odd while one of its observed stores is in flight;
  \<^verbatim>\<open>ia64_alat_notify_store\<close> advances the external generation instead.
  A failed \<^verbatim>\<open>g_assert\<close> aborts the emulator: \<^term>\<open>None\<close>.
\<close>

definition ia64_alat_notify_store ::
  "gen_sample \<Rightarrow> alat_state \<times> u64 \<Rightarrow> (alat_state \<times> u64) option" where
  "ia64_alat_notify_store g = (\<lambda>(s, external).
     if \<not> alat_full s then Some (s, external)
     else if write_active s then None
     else Some (ia64_alat_invala g s, external + 1))"

definition ia64_alat_write_begin :: "alat_state \<times> u64 \<Rightarrow> (alat_state \<times> u64) option" where
  "ia64_alat_write_begin = (\<lambda>(s, seq).
     if write_active s then None
     else
       let s1 = s\<lparr>write_generation := memory_write_generation s,
                  write_observed := alat_full s, write_active := True\<rparr>
       in if write_observed s1 then
            (if seq AND 1 \<noteq> 0 then None else Some (s1, seq + 1))
          else Some (s1, seq))"

definition ia64_alat_write_take_token ::
  "alat_state \<times> u64 \<Rightarrow> (bool \<times> alat_state \<times> u64) option" where
  "ia64_alat_write_take_token = (\<lambda>(s, seq).
     if \<not> write_active s then None
     else
       let observed = write_observed s;
           s1 = s\<lparr>write_active := False, write_observed := False\<rparr>
       in if observed then
            (if seq AND 1 = 0 then None else Some (True, s1, seq + 1))
          else Some (False, s1, seq))"

definition ia64_invalidate_alat_store ::
  "(u64 \<Rightarrow> u64 option) \<Rightarrow> gen_sample \<Rightarrow> u64 \<Rightarrow> u32 \<Rightarrow> alat_state \<Rightarrow> alat_state" where
  "ia64_invalidate_alat_store xlat g addr sz s =
     (if alat_active_count s = 0 then s
      else case xlat addr of
        None \<Rightarrow> s
      | Some pa \<Rightarrow> ia64_invalidate_alat_phys_range g pa (ucast sz) s)"

definition ia64_alat_write_finish ::
  "(u64 \<Rightarrow> u64 option) \<Rightarrow> window_sample \<Rightarrow> gen_sample \<Rightarrow> u64 \<Rightarrow> u32 \<Rightarrow> bool \<Rightarrow>
   alat_state \<times> u64 \<Rightarrow> (alat_state \<times> u64) option"
where
  "ia64_alat_write_finish xlat w g addr sz precise st =
     (let generation = write_generation (fst st) in
      case ia64_alat_write_take_token st of
        None \<Rightarrow> None
      | Some (observed, s, seq) \<Rightarrow>
          let expected = generation + 2 in
          if observed \<and> alat_active_count s \<noteq> 0 then
            (if \<not> precise \<or> memory_write_generation s \<noteq> generation \<or>
                ia64_alat_memory_generation_changed w expected
             then Some (ia64_alat_invala (w_fresh w) s, seq)
             else Some (ia64_invalidate_alat_store xlat g addr sz
                          (s\<lparr>memory_write_generation := expected\<rparr>), seq))
          else Some (s, seq))"

definition ia64_alat_write_end where
  "ia64_alat_write_end xlat w g addr sz st = ia64_alat_write_finish xlat w g addr sz True st"

definition ia64_alat_write_cancel :: "alat_state \<times> u64 \<Rightarrow> (alat_state \<times> u64) option" where
  "ia64_alat_write_cancel st =
     (case ia64_alat_write_take_token st of
        None \<Rightarrow> None
      | Some (observed, s, seq) \<Rightarrow>
          Some (if observed then s\<lparr>memory_write_generation := memory_write_generation s + 2\<rparr>
                else s, seq))"

definition ia64_alat_write_abort ::
  "(u64 \<Rightarrow> u64 option) \<Rightarrow> window_sample \<Rightarrow> gen_sample \<Rightarrow> alat_state \<times> u64 \<Rightarrow>
   (alat_state \<times> u64) option" where
  "ia64_alat_write_abort xlat w g st =
     (if write_active (fst st) then ia64_alat_write_finish xlat w g 0 0 False st else Some st)"

section \<open>Well-formedness and the abstract table\<close>

definition alat_wf :: "alat_state \<Rightarrow> bool" where
  "alat_wf s \<longleftrightarrow>
     (\<forall>i<32. bit (alat_occupied s) i \<longleftrightarrow> e_valid (alat s i)) \<and>
     (\<forall>i<32. e_valid (alat s i) \<longrightarrow>
        e_reg (alat s i) < 128 \<and> alat_reg_slot s (e_fp (alat s i)) (e_reg (alat s i)) = Suc i) \<and>
     (\<forall>fp r k. alat_reg_slot s fp r = Suc k \<longrightarrow>
        k < 32 \<and> r < 128 \<and> e_valid (alat s k) \<and> e_fp (alat s k) = fp \<and> e_reg (alat s k) = r) \<and>
     alat_active_count s = card {i. i < 32 \<and> e_valid (alat s i)}"

definition alat_map :: "alat_state \<Rightarrow> bool \<times> nat \<Rightarrow> (u64 \<times> u8) option" where
  "alat_map s = (\<lambda>(fp, r).
     if alat_reg_slot s fp r = 0 then None
     else let e = alat s (alat_reg_slot s fp r - 1) in Some (e_phys_addr e, e_size e))"

lemma alat_wfD:
  assumes "alat_wf s"
  shows "i < 32 \<Longrightarrow> bit (alat_occupied s) i \<longleftrightarrow> e_valid (alat s i)"
    and "i < 32 \<Longrightarrow> e_valid (alat s i) \<Longrightarrow> e_reg (alat s i) < 128"
    and "i < 32 \<Longrightarrow> e_valid (alat s i) \<Longrightarrow> alat_reg_slot s (e_fp (alat s i)) (e_reg (alat s i)) = Suc i"
    and "alat_reg_slot s fp r = Suc k \<Longrightarrow>
      k < 32 \<and> r < 128 \<and> e_valid (alat s k) \<and> e_fp (alat s k) = fp \<and> e_reg (alat s k) = r"
    and "alat_active_count s = card {i. i < 32 \<and> e_valid (alat s i)}"
  using assms unfolding alat_wf_def by blast+

lemma alat_wfI:
  assumes "\<And>i. i < 32 \<Longrightarrow> bit (alat_occupied s) i \<longleftrightarrow> e_valid (alat s i)"
    and "\<And>i. i < 32 \<Longrightarrow> e_valid (alat s i) \<Longrightarrow>
      e_reg (alat s i) < 128 \<and> alat_reg_slot s (e_fp (alat s i)) (e_reg (alat s i)) = Suc i"
    and "\<And>fp r k. alat_reg_slot s fp r = Suc k \<Longrightarrow>
      k < 32 \<and> r < 128 \<and> e_valid (alat s k) \<and> e_fp (alat s k) = fp \<and> e_reg (alat s k) = r"
    and "alat_active_count s = card {i. i < 32 \<and> e_valid (alat s i)}"
  shows "alat_wf s"
  unfolding alat_wf_def using assms by blast

lemma alat_map_iff:
  assumes "alat_wf s"
  shows "alat_map s (fp, r) = Some (pa, sz) \<longleftrightarrow>
    (\<exists>i<32. e_valid (alat s i) \<and> e_fp (alat s i) = fp \<and> e_reg (alat s i) = r \<and>
       e_phys_addr (alat s i) = pa \<and> e_size (alat s i) = sz)"
proof (cases "alat_reg_slot s fp r")
  case 0
  then have "alat_map s (fp, r) = None" by (simp add: alat_map_def)
  moreover have "\<not> (e_fp (alat s i) = fp \<and> e_reg (alat s i) = r)" if "i < 32" "e_valid (alat s i)" for i
    using alat_wfD(3) [OF assms that] 0 by fastforce
  ultimately show ?thesis by force
next
  case (Suc k)
  note k = alat_wfD(4) [OF assms Suc]
  have uniq: "i = k" if "i < 32" "e_valid (alat s i)" "e_fp (alat s i) = fp" "e_reg (alat s i) = r" for i
    using alat_wfD(3) [OF assms that(1,2)] Suc unfolding that(3,4) by simp
  have "alat_map s (fp, r) = Some (e_phys_addr (alat s k), e_size (alat s k))"
    using Suc by (simp add: alat_map_def Let_def)
  then have "alat_map s (fp, r) = Some (pa, sz) \<longleftrightarrow>
      e_phys_addr (alat s k) = pa \<and> e_size (alat s k) = sz" by simp
  also have "\<dots> \<longleftrightarrow> (\<exists>i<32. e_valid (alat s i) \<and> e_fp (alat s i) = fp \<and> e_reg (alat s i) = r \<and>
       e_phys_addr (alat s i) = pa \<and> e_size (alat s i) = sz)"
    using k uniq by blast
  finally show ?thesis .
qed

lemma alat_map_slot_None: "alat_map s (fp, r) = None \<longleftrightarrow> alat_reg_slot s fp r = 0"
  by (simp add: alat_map_def Let_def)

lemma count_zero_iff:
  assumes "alat_wf s"
  shows "alat_active_count s = 0 \<longleftrightarrow> (\<forall>i<32. \<not> e_valid (alat s i))"
  using alat_wfD(5) [OF assms] by auto

lemma alat_map_ext:
  assumes "alat_wf s" "alat_wf t"
    and "\<And>i. i < 32 \<Longrightarrow> alat s i = alat t i"
  shows "alat_map s = alat_map t"
proof
  fix k :: "bool \<times> nat"
  obtain fp r where k: "k = (fp, r)" by force
  have "alat_map s (fp, r) = Some x \<longleftrightarrow> alat_map t (fp, r) = Some x" for x
    using assms(3) by (cases x) (auto simp: alat_map_iff [OF assms(1)] alat_map_iff [OF assms(2)])
  then show "alat_map s k = alat_map t k"
    unfolding k by (metis not_None_eq)
qed

section \<open>Operations keep the table well formed\<close>

lemma alat_invalidate_fields:
  assumes "e_valid (alat s i)"
  shows "alat (ia64_alat_invalidate_entry i s) j =
      (if j = i then (alat s i)\<lparr>e_valid := False\<rparr> else alat s j)"
    and "alat_reg_slot (ia64_alat_invalidate_entry i s) f r =
      (if (f, r) = (e_fp (alat s i), e_reg (alat s i)) then 0 else alat_reg_slot s f r)"
    and "alat_occupied (ia64_alat_invalidate_entry i s) = alat_occupied s AND NOT (push_bit i 1)"
    and "alat_active_count (ia64_alat_invalidate_entry i s) = alat_active_count s - 1"
  using assms by (simp_all add: ia64_alat_invalidate_entry_def Let_def)

lemma alat_wf_invalidate_entry:
  assumes wf: "alat_wf s" and i: "i < 32"
  shows "alat_wf (ia64_alat_invalidate_entry i s)"
proof (cases "e_valid (alat s i)")
  case False
  then show ?thesis using wf by (simp add: ia64_alat_invalidate_entry_def Let_def)
next
  case True
  let ?t = "ia64_alat_invalidate_entry i s" and ?e = "alat s i"
  note fields = alat_invalidate_fields [OF True]
  have slot: "alat_reg_slot s (e_fp ?e) (e_reg ?e) = Suc i" by (rule alat_wfD(3) [OF wf i True])
  have set_eq: "{j. j < 32 \<and> e_valid (alat ?t j)} = {j. j < 32 \<and> e_valid (alat s j)} - {i}"
    by (auto simp: fields)
  have count: "alat_active_count ?t = card {j. j < 32 \<and> e_valid (alat ?t j)}"
    using True i unfolding set_eq fields(4) alat_wfD(5) [OF wf] by (subst card_Diff_singleton) auto
  have occ: "bit (alat_occupied ?t) j \<longleftrightarrow> e_valid (alat ?t j)" if "j < 32" for j
    using alat_wfD(1) [OF wf that] that
    by (auto simp: fields bit_and_iff bit_not_iff bit_exp_iff)
  have ent_slot: "e_reg (alat ?t j) < 128 \<and> alat_reg_slot ?t (e_fp (alat ?t j)) (e_reg (alat ?t j)) = Suc j"
    if "j < 32" "e_valid (alat ?t j)" for j
  proof -
    from that have j: "e_valid (alat s j)" "j \<noteq> i" by (auto simp: fields split: if_splits)
    have "(e_fp (alat s j), e_reg (alat s j)) \<noteq> (e_fp ?e, e_reg ?e)"
      using alat_wfD(3) [OF wf that(1) j(1)] slot j(2) by force
    with j alat_wfD(2,3) [OF wf that(1) j(1)] show ?thesis by (simp only: fields if_False simp_thms)
  qed
  have slot_ent: "k < 32 \<and> r < 128 \<and> e_valid (alat ?t k) \<and> e_fp (alat ?t k) = fp \<and> e_reg (alat ?t k) = r"
    if k: "alat_reg_slot ?t fp r = Suc k" for fp r k
  proof -
    from k have k': "alat_reg_slot s fp r = Suc k" and ne: "(fp, r) \<noteq> (e_fp ?e, e_reg ?e)"
      unfolding fields by (auto split: if_splits)
    with alat_wfD(4) [OF wf k'] have "k \<noteq> i" by auto
    with alat_wfD(4) [OF wf k'] show ?thesis by (simp add: fields)
  qed
  show ?thesis by (rule alat_wfI) (fact occ, fact ent_slot, fact slot_ent, fact count)
qed

lemma alat_entry_invalidate:
  "alat (ia64_alat_invalidate_entry i s) j =
     (if j = i then (alat s i)\<lparr>e_valid := False\<rparr> else alat s j)"
  by (cases "alat s i") (auto simp: ia64_alat_invalidate_entry_def Let_def)

lemma alat_wf_clear:
  assumes "alat_wf s"
  shows "alat_wf (ia64_alat_clear s)"
proof (cases "alat_active_count s = 0")
  case True
  with count_zero_iff [OF assms] show ?thesis
    by (auto simp: alat_wf_def ia64_alat_clear_def Let_def)
next
  case False
  then show ?thesis by (auto simp: alat_wf_def ia64_alat_clear_def Let_def)
qed

lemma alat_map_clear [simp]: "alat_map (ia64_alat_clear s) = Map.empty"
  by (auto simp: alat_map_def ia64_alat_clear_def Let_def)

text \<open>
  The generation and token fields do not take part in well-formedness or in the map.
\<close>

lemma alat_wf_update [simp]:
  "alat_wf (s\<lparr>memory_write_generation := g\<rparr>) = alat_wf s"
  "alat_wf (s\<lparr>write_generation := g\<rparr>) = alat_wf s"
  "alat_wf (s\<lparr>write_active := b\<rparr>) = alat_wf s"
  "alat_wf (s\<lparr>write_observed := b\<rparr>) = alat_wf s"
  by (simp_all add: alat_wf_def)

lemma alat_map_update [simp]:
  "alat_map (s\<lparr>memory_write_generation := g\<rparr>) = alat_map s"
  "alat_map (s\<lparr>write_generation := g\<rparr>) = alat_map s"
  "alat_map (s\<lparr>write_active := b\<rparr>) = alat_map s"
  "alat_map (s\<lparr>write_observed := b\<rparr>) = alat_map s"
  by (rule ext, simp add: alat_map_def Let_def split: prod.split)+

lemma alat_wf_sync: "alat_wf s \<Longrightarrow> alat_wf (fst (ia64_alat_sync_memory_writes g s))"
  by (simp add: ia64_alat_sync_memory_writes_def Let_def alat_wf_clear)

lemma alat_wf_window: "alat_wf s \<Longrightarrow> alat_wf (fst (ia64_alat_memory_window_changed w gen s))"
  by (simp add: ia64_alat_memory_window_changed_def Let_def alat_wf_clear)

lemma alat_wf_publish:
  assumes wf: "alat_wf s" and i: "i < 32" and reg: "reg < 128"
    and place: "alat_reg_slot s fp reg = Suc i \<or> alat_reg_slot s fp reg = 0 \<and> \<not> e_valid (alat s i)"
  shows "alat_wf (alat_publish i pa sz reg fp s)"
proof -
  let ?t = "alat_publish i pa sz reg fp s"
  have ent: "alat ?t j = (if j = i then \<lparr>e_phys_addr = pa, e_size = ucast sz, e_reg = reg, e_fp = fp,
      e_valid = True\<rparr> else alat s j)" for j
    by (simp add: alat_publish_def Let_def)
  have slot: "alat_reg_slot ?t f r = (if f = fp \<and> r = reg then Suc i else alat_reg_slot s f r)" for f r
    by (simp add: alat_publish_def Let_def)
  have own: "alat_reg_slot s f r \<noteq> Suc i" if "(f, r) \<noteq> (fp, reg)" for f r
  proof
    assume eq: "alat_reg_slot s f r = Suc i"
    note e = alat_wfD(4) [OF wf eq]
    with place have "alat_reg_slot s fp reg = Suc i" by blast
    from alat_wfD(4) [OF wf this] e that show False by simp
  qed
  have occ: "bit (alat_occupied ?t) j \<longleftrightarrow> e_valid (alat ?t j)" if "j < 32" for j
    using that alat_wfD(1) [OF wf that]
    by (auto simp: alat_publish_def Let_def bit_or_iff bit_exp_iff)
  have ent_slot: "e_reg (alat ?t j) < 128 \<and> alat_reg_slot ?t (e_fp (alat ?t j)) (e_reg (alat ?t j)) = Suc j"
    if "j < 32" "e_valid (alat ?t j)" for j
  proof (cases "j = i")
    case False
    with that have j: "e_valid (alat s j)" by (simp add: ent)
    have "(e_fp (alat s j), e_reg (alat s j)) \<noteq> (fp, reg)"
      using alat_wfD(3) [OF wf that(1) j] place False by force
    with False alat_wfD(2,3) [OF wf that(1) j] show ?thesis
      by (simp only: ent slot if_False prod.inject simp_thms)
  qed (simp add: ent slot reg)
  have slot_ent: "k < 32 \<and> r < 128 \<and> e_valid (alat ?t k) \<and> e_fp (alat ?t k) = f \<and> e_reg (alat ?t k) = r"
    if k: "alat_reg_slot ?t f r = Suc k" for f r k
  proof (cases "f = fp \<and> r = reg")
    case True
    with k have "k = i" by (simp add: slot)
    with True show ?thesis using i reg by (simp only: ent) simp
  next
    case False
    with k have k': "alat_reg_slot s f r = Suc k" by (auto simp: slot)
    with alat_wfD(4) [OF wf k'] own [of f r] False show ?thesis by (auto simp: ent)
  qed
  have count: "alat_active_count ?t = card {j. j < 32 \<and> e_valid (alat ?t j)}"
  proof -
    have "{j. j < 32 \<and> e_valid (alat ?t j)} = insert i {j. j < 32 \<and> e_valid (alat s j)}"
      using i by (auto simp: ent)
    then show ?thesis
      using i alat_wfD(5) [OF wf] by (simp add: alat_publish_def Let_def card_insert_if)
  qed
  show ?thesis by (rule alat_wfI) (fact occ, fact ent_slot, fact slot_ent, fact count)
qed

lemma alat_map_publish:
  "alat_map (alat_publish i pa sz reg fp s) (fp, reg) = Some (pa, ucast sz)"
  by (simp add: alat_map_def alat_publish_def Let_def)

lemma free_slot:
  assumes "alat_wf s" "alat_occupied s \<noteq> -1"
  shows "ctz_word (NOT (alat_occupied s)) < 32 \<and> \<not> e_valid (alat s (ctz_word (NOT (alat_occupied s))))"
proof -
  from assms(2) have "NOT (alat_occupied s) \<noteq> 0" by (metis bit.compl_zero bit.double_compl)
  note c = ctz_word_props [OF this, simplified]
  then show ?thesis using alat_wfD(1) [OF assms(1) c(1)] by (simp add: bit_not_iff)
qed

text \<open>The slot a registration chooses always satisfies the premise of \<open>alat_wf_publish\<close>.\<close>

lemma alat_register_slot_Some:
  assumes "alat_wf s" "alat_register_slot fp reg s = Some i"
  shows "i < 32 \<and> (alat_reg_slot s fp reg = Suc i \<or> alat_reg_slot s fp reg = 0 \<and> \<not> e_valid (alat s i))"
proof (cases "alat_reg_slot s fp reg")
  case 0
  with assms(2) have "alat_occupied s \<noteq> -1" "i = ctz_word (NOT (alat_occupied s))"
    by (auto simp: alat_register_slot_def split: if_splits)
  with free_slot [OF assms(1)] 0 show ?thesis by simp
next
  case (Suc k)
  with assms(2) alat_wfD(4) [OF assms(1) Suc] show ?thesis by (simp add: alat_register_slot_def)
qed

lemma alat_wf_set:
  assumes wf: "alat_wf s"
  shows "alat_wf (ia64_set_alat xlat_attr w1 w2 reg addr sz fp generation pa s)"
proof -
  obtain s1 c where c: "ia64_alat_memory_window_changed w1 generation s = (s1, c)" by force
  then have wf1: "alat_wf s1" using alat_wf_window [OF wf, of w1 generation] by simp
  have pub: "alat_wf (alat_publish i pa' sz reg fp s1)"
    if "\<not> 128 \<le> reg" "alat_register_slot fp reg s1 = Some i" for i pa'
    using alat_register_slot_Some [OF wf1 that(2)] that(1) by (intro alat_wf_publish [OF wf1]) auto
  show ?thesis
    by (simp add: ia64_set_alat_def c Let_def wf wf1 pub alat_wf_window split: option.split)
qed

section \<open>Invalidation scans\<close>

text \<open>A scan that invalidates the entries that satisfy a test, and nothing else.\<close>

lemma fold_invalidate:
  fixes Q :: "alat_entry \<Rightarrow> bool"
  assumes "alat_wf s" "distinct xs" "set xs \<subseteq> {..<32}"
  defines "body \<equiv> \<lambda>i s. if Q (alat s i) then ia64_alat_invalidate_entry i s else s"
  shows "alat_wf (fold body xs s) \<and>
    (\<forall>i. alat (fold body xs s) i =
       (if i \<in> set xs \<and> Q (alat s i) then (alat s i)\<lparr>e_valid := False\<rparr> else alat s i))"
  using assms(1-3)
proof (induction xs arbitrary: s)
  case Nil
  then show ?case by simp
next
  case (Cons x xs)
  let ?s1 = "body x s"
  from Cons.prems have "alat_wf ?s1" by (auto simp: body_def alat_wf_invalidate_entry)
  with Cons have IH: "alat_wf (fold body xs ?s1)"
    "alat (fold body xs ?s1) i =
       (if i \<in> set xs \<and> Q (alat ?s1 i) then (alat ?s1 i)\<lparr>e_valid := False\<rparr> else alat ?s1 i)" for i
    by auto
  have "alat ?s1 i = (if i = x \<and> Q (alat s x) then (alat s x)\<lparr>e_valid := False\<rparr> else alat s i)" for i
    by (auto simp: body_def alat_entry_invalidate)
  with IH Cons.prems(2) show ?case by auto
qed

lemma scan_invalidate:
  fixes Q :: "alat_entry \<Rightarrow> bool"
  assumes "alat_wf s"
  defines "t \<equiv> scan_bits (\<lambda>i s. if Q (alat s i) then ia64_alat_invalidate_entry i s else s)
      (alat_occupied s) s"
  shows "alat_wf t"
    and "i < 32 \<Longrightarrow> e_valid (alat t i) \<longleftrightarrow> e_valid (alat s i) \<and> \<not> Q (alat s i)"
    and "e_valid (alat t i) \<Longrightarrow> alat t i = alat s i"
proof -
  have sub: "set (set_bits_of (alat_occupied s)) \<subseteq> {..<32}"
    using bit_word_lt_length [of "alat_occupied s"] by auto
  have f: "alat_wf t \<and> (\<forall>i. alat t i =
       (if i \<in> set (set_bits_of (alat_occupied s)) \<and> Q (alat s i)
        then (alat s i)\<lparr>e_valid := False\<rparr> else alat s i))"
    unfolding t_def scan_bits_fold by (rule fold_invalidate [OF assms(1) distinct_set_bits_of sub])
  show "alat_wf t" using f by blast
  show "i < 32 \<Longrightarrow> e_valid (alat t i) \<longleftrightarrow> e_valid (alat s i) \<and> \<not> Q (alat s i)"
    using f alat_wfD(1) [OF assms(1)] by auto
  show "e_valid (alat t i) \<Longrightarrow> alat t i = alat s i"
    using f by (auto split: if_splits)
qed

lemma option_restrict_eqI:
  assumes "\<And>v. x = Some v \<longleftrightarrow> y = Some v \<and> \<not> P v"
  shows "x = (case y of None \<Rightarrow> None | Some v \<Rightarrow> if P v then None else Some v)"
proof (cases x)
  case None
  with assms have no: "\<not> (y = Some v \<and> \<not> P v)" for v by simp
  show ?thesis using None no by (simp split: option.split)
next
  case (Some v)
  with assms [of v] show ?thesis by simp
qed

lemma scan_invalidate_map:
  assumes "alat_wf s" and Q: "\<And>e. Q e \<longleftrightarrow> Q' (e_fp e, e_reg e) (e_phys_addr e, e_size e)"
  shows "alat_map (scan_bits (\<lambda>i s. if Q (alat s i) then ia64_alat_invalidate_entry i s else s)
      (alat_occupied s) s) key =
    (case alat_map s key of None \<Rightarrow> None | Some v \<Rightarrow> if Q' key v then None else Some v)"
    (is "alat_map ?t key = _")
proof -
  obtain f r where key: "key = (f, r)" by force
  note scan = scan_invalidate [OF assms(1), where Q = Q]
  have "alat_map ?t (f, r) = Some v \<longleftrightarrow> alat_map s (f, r) = Some v \<and> \<not> Q' (f, r) v" for v
  proof -
    obtain pa sz where v: "v = (pa, sz)" by force
    have "(\<exists>i<32. e_valid (alat ?t i) \<and> e_fp (alat ?t i) = f \<and> e_reg (alat ?t i) = r \<and>
        e_phys_addr (alat ?t i) = pa \<and> e_size (alat ?t i) = sz) \<longleftrightarrow>
      (\<exists>i<32. e_valid (alat s i) \<and> e_fp (alat s i) = f \<and> e_reg (alat s i) = r \<and>
        e_phys_addr (alat s i) = pa \<and> e_size (alat s i) = sz) \<and> \<not> Q' (f, r) (pa, sz)"
      (is "?L \<longleftrightarrow> ?R \<and> ?N")
    proof
      assume ?L
      then obtain i where i: "i < 32" "e_valid (alat ?t i)" and e: "e_fp (alat ?t i) = f"
          "e_reg (alat ?t i) = r" "e_phys_addr (alat ?t i) = pa" "e_size (alat ?t i) = sz" by blast
      from scan(2) [OF i(1)] scan(3) [OF i(2)] i(2)
      have "e_valid (alat s i)" "\<not> Q (alat s i)" "alat ?t i = alat s i" by simp_all
      with i(1) e show "?R \<and> ?N" unfolding Q by auto
    next
      assume "?R \<and> ?N"
      then obtain i where i: "i < 32" "e_valid (alat s i)" and e: "e_fp (alat s i) = f"
          "e_reg (alat s i) = r" "e_phys_addr (alat s i) = pa" "e_size (alat s i) = sz"
        and n: ?N by blast
      have "\<not> Q (alat s i)" using n unfolding Q e .
      with i scan(2) [OF i(1)] have val: "e_valid (alat ?t i)" by simp
      from scan(3) [OF val] i e val show ?L by auto
    qed
    then show ?thesis by (simp only: v alat_map_iff [OF assms(1)] alat_map_iff [OF scan(1)])
  qed
  then show ?thesis unfolding key by (rule option_restrict_eqI)
qed

lemma alat_wf_reg_range: "alat_wf s \<Longrightarrow> alat_wf (ia64_invalidate_alat_reg_range lo hi fp s)"
  unfolding ia64_invalidate_alat_reg_range_def
  by (rule scan_invalidate(1) [where Q = "\<lambda>e. e_fp e = fp \<and> lo \<le> e_reg e \<and> e_reg e < hi"])

lemma alat_map_reg_range:
  assumes "alat_wf s"
  shows "alat_map (ia64_invalidate_alat_reg_range lo hi fp s) (f, r) =
    (if f = fp \<and> lo \<le> r \<and> r < hi then None else alat_map s (f, r))"
  unfolding ia64_invalidate_alat_reg_range_def
  by (subst scan_invalidate_map [OF assms, where Q = "\<lambda>e. e_fp e = fp \<and> lo \<le> e_reg e \<and> e_reg e < hi"
        and Q' = "\<lambda>(f, r) _. f = fp \<and> lo \<le> r \<and> r < hi"])
    (auto split: option.split)

lemma alat_wf_phys_range: "alat_wf s \<Longrightarrow> alat_wf (ia64_invalidate_alat_phys_range g pa sz s)"
  unfolding ia64_invalidate_alat_phys_range_def Let_def
  using alat_wf_sync [of s g]
    scan_invalidate(1) [of "fst (ia64_alat_sync_memory_writes g s)"
      "\<lambda>e. ia64_ranges_overlap pa sz (e_phys_addr e) (ucast (e_size e))"]
  by (simp add: case_prod_beta)

lemma alat_map_phys_range:
  assumes "alat_wf s"
  shows "alat_map (ia64_invalidate_alat_phys_range g pa sz s) key =
    (if ia64_alat_memory_generation g \<noteq> memory_write_generation s then None
     else case alat_map s key of None \<Rightarrow> None
          | Some (pa', sz') \<Rightarrow> if ia64_ranges_overlap pa sz pa' (ucast sz') then None else Some (pa', sz'))"
proof (cases "alat_active_count s = 0")
  case True
  have "alat_map s key = None"
  proof (cases "alat_map s key")
    case (Some v)
    obtain f r pa sz where "key = (f, r)" "v = (pa, sz)" by (metis prod.collapse)
    with Some alat_map_iff [OF assms, of f r pa sz] count_zero_iff [OF assms] True show ?thesis by auto
  qed
  with True show ?thesis by (simp add: ia64_invalidate_alat_phys_range_def)
next
  case False
  note scan = scan_invalidate_map [OF assms,
      where Q = "\<lambda>e. ia64_ranges_overlap pa sz (e_phys_addr e) (ucast (e_size e))"
        and Q' = "\<lambda>_ (pa', sz'). ia64_ranges_overlap pa sz pa' (ucast sz')" and key = key]
  with False show ?thesis
    by (simp add: ia64_invalidate_alat_phys_range_def ia64_alat_sync_memory_writes_def Let_def
        split: option.split)
qed

section \<open>Address ranges\<close>

lemma unat_clamped_end:
  fixes a n :: u64
  assumes "n \<noteq> 0"
  shows "unat (let e = a + n - 1 in if e < a then -1 else e) = min (unat a + unat n - 1) (2 ^ 64 - 1)"
proof -
  have n1: "unat (n - 1) = unat n - 1" using assms by (rule unat_minus_one)
  have n0: "0 < unat n" using assms by (simp add: unat_gt_0)
  have e: "a + n - 1 = a + (n - 1)" by simp
  have lt: "unat a < 2 ^ 64" "unat n < 2 ^ 64"
    by (rule unat_u64_less)+
  show ?thesis
  proof (cases "unat a + unat (n - 1) < 2 ^ 64")
    case True
    then have "unat (a + (n - 1)) = unat a + unat (n - 1)" by (simp add: unat_word_ariths)
    moreover from this have "\<not> a + (n - 1) < a" by (simp add: word_less_nat_alt)
    ultimately show ?thesis using True n1 n0 unfolding e Let_def by simp
  next
    case False
    then have "unat (a + (n - 1)) = unat a + unat (n - 1) - 2 ^ 64"
      using lt n1 by (simp add: unat_word_ariths mod_if [of "_ + _"] le_mod_geq)
    with False lt n1 have "a + (n - 1) < a" by (simp add: word_less_nat_alt)
    with False n1 show ?thesis unfolding e Let_def by (simp add: unsigned_minus_1_eq_mask mask_eq_exp_minus_1)
  qed
qed

lemma ranges_overlap_iff:
  "ia64_ranges_overlap a n b m \<longleftrightarrow>
     (\<exists>x < 2 ^ 64. unat a \<le> x \<and> x < unat a + unat n \<and> unat b \<le> x \<and> x < unat b + unat m)"
proof (cases "n = 0 \<or> m = 0")
  case True
  then show ?thesis by (auto simp: ia64_ranges_overlap_def)
next
  case False
  then have nz: "n \<noteq> 0" "m \<noteq> 0" and pos: "0 < unat n" "0 < unat m" by (auto simp: unat_gt_0)
  note ends = unat_clamped_end [OF nz(1), of a] unat_clamped_end [OF nz(2), of b]
  have lt: "unat a < 2 ^ 64" "unat b < 2 ^ 64"
    by (rule unat_u64_less)+
  have "ia64_ranges_overlap a n b m \<longleftrightarrow>
      unat a \<le> min (unat b + unat m - 1) (2 ^ 64 - 1) \<and> unat b \<le> min (unat a + unat n - 1) (2 ^ 64 - 1)"
    using nz unfolding ia64_ranges_overlap_def ends [symmetric] by (simp add: Let_def word_le_nat_alt)
  also have "\<dots> \<longleftrightarrow> (\<exists>x < 2 ^ 64. unat a \<le> x \<and> x < unat a + unat n \<and> unat b \<le> x \<and> x < unat b + unat m)"
    (is "?L \<longleftrightarrow> ?R")
  proof
    assume ?L
    then show ?R using pos lt by (intro exI [of _ "max (unat a) (unat b)"]) auto
  next
    assume ?R
    then show ?L using pos lt by auto
  qed
  finally show ?thesis .
qed

section \<open>Generations\<close>

lemma cpu_generation_fold:
  "fold (\<lambda>sequence (generation, active). (generation + sequence, active \<or> sequence AND 1 \<noteq> 0)) xs (g, a) =
     (g + sum_list xs, a \<or> (\<exists>x \<in> set xs. x AND 1 \<noteq> (0 :: u64)))"
  by (induction xs arbitrary: g a) (auto simp: add.assoc)

text \<open>The single-CPU fast path agrees with the loop over all CPUs.\<close>

lemma cpu_generation_eq:
  "ia64_alat_cpu_generation xs = (sum_list xs, \<exists>x \<in> set xs. x AND 1 \<noteq> 0)"
proof (cases "length xs = 1")
  case True
  then obtain x where "xs = [x]" by (auto simp: length_Suc_conv)
  then show ?thesis by (simp add: ia64_alat_cpu_generation_def)
next
  case False
  then show ?thesis by (simp add: ia64_alat_cpu_generation_def cpu_generation_fold)
qed

lemma memory_generation_eq: "ia64_alat_memory_generation g = g_external g + sum_list (g_sequences g)"
  by (simp add: ia64_alat_memory_generation_def cpu_generation_eq)

text \<open>
  The writes of a machine as the sampled counters show them.  A write from outside the virtual CPUs advances the external
  generation when it completes; a store of a virtual CPU advances the CPU's sequence when it begins, from even to odd, and
  again when it completes.  The number counts the writes: completed external ones and stores begun.
\<close>

inductive memory_writes :: "gen_sample \<Rightarrow> nat \<Rightarrow> gen_sample \<Rightarrow> bool" for g :: gen_sample where
  no_write: "memory_writes g 0 g"
| external_end: "memory_writes g n h \<Longrightarrow> memory_writes g (Suc n) (h\<lparr>g_external := g_external h + 1\<rparr>)"
| store_begin: "memory_writes g n h \<Longrightarrow> i < length (g_sequences h) \<Longrightarrow> g_sequences h ! i AND 1 = 0 \<Longrightarrow>
    memory_writes g (Suc n) (h\<lparr>g_sequences := (g_sequences h)[i := g_sequences h ! i + 1]\<rparr>)"
| store_end: "memory_writes g n h \<Longrightarrow> i < length (g_sequences h) \<Longrightarrow> g_sequences h ! i AND 1 \<noteq> 0 \<Longrightarrow>
    memory_writes g n (h\<lparr>g_sequences := (g_sequences h)[i := g_sequences h ! i + 1]\<rparr>)"

lemma sum_list_update_word:
  "i < length xs \<Longrightarrow> sum_list (xs[i := v]) = sum_list xs - xs ! i + (v :: u64)"
  by (induction xs arbitrary: i) (auto simp: nth_Cons' split: nat.split)

lemma sequence_generation:
  "i < length (g_sequences h) \<Longrightarrow>
    ia64_alat_memory_generation (h\<lparr>g_sequences := (g_sequences h)[i := g_sequences h ! i + 1]\<rparr>) =
    ia64_alat_memory_generation h + 1"
  by (simp add: memory_generation_eq sum_list_update_word)

text \<open>The stores in flight.\<close>

definition in_flight :: "gen_sample \<Rightarrow> nat set" where
  "in_flight g = {i. i < length (g_sequences g) \<and> g_sequences g ! i AND 1 \<noteq> 0}"

lemma in_flight_card: "finite (in_flight g)" "card (in_flight g) \<le> length (g_sequences g)"
proof -
  have s: "in_flight g \<subseteq> {..<length (g_sequences g)}" by (auto simp: in_flight_def)
  then show "finite (in_flight g)" by (rule finite_subset) simp
  show "card (in_flight g) \<le> length (g_sequences g)" using card_mono [OF _ s] by simp
qed

lemma and_one_0_iff: "(w AND 1 = 0) \<longleftrightarrow> \<not> bit (w :: u64) 0"
  by (simp add: and_one_eq bit_0 odd_iff_mod_2_eq_one)

lemma bit_0_succ: "bit (w + 1 :: u64) 0 \<longleftrightarrow> \<not> bit w 0"
  by (simp add: bit_0)

lemma in_flight_step:
  assumes "i < length (g_sequences h)"
  defines "h' \<equiv> h\<lparr>g_sequences := (g_sequences h)[i := g_sequences h ! i + 1]\<rparr>"
  shows "in_flight h' = (if i \<in> in_flight h then in_flight h - {i} else insert i (in_flight h))"
  using assms(1) unfolding in_flight_def h'_def by (auto simp: and_one_0_iff bit_0_succ nth_list_update)

lemma memory_writes_generation:
  assumes "memory_writes g n h"
  shows "\<exists>k. ia64_alat_memory_generation h = ia64_alat_memory_generation g + of_nat k \<and> n \<le> k \<and>
    k + card (in_flight h) \<le> 2 * n + card (in_flight g)"
  using assms
proof induction
  case no_write
  show ?case by (intro exI [of _ 0]) simp
next
  case (external_end n h)
  then obtain k where k: "ia64_alat_memory_generation h = ia64_alat_memory_generation g + of_nat k" "n \<le> k"
    "k + card (in_flight h) \<le> 2 * n + card (in_flight g)" by blast
  then show ?case by (intro exI [of _ "Suc k"]) (auto simp: memory_generation_eq in_flight_def)
next
  case (store_begin n h i)
  then obtain k where k: "ia64_alat_memory_generation h = ia64_alat_memory_generation g + of_nat k" "n \<le> k"
    "k + card (in_flight h) \<le> 2 * n + card (in_flight g)" by blast
  have "i \<notin> in_flight h" using store_begin by (simp add: in_flight_def)
  then have "card (in_flight (h\<lparr>g_sequences := (g_sequences h)[i := g_sequences h ! i + 1]\<rparr>)) = Suc (card (in_flight h))"
    using in_flight_card(1) [of h] by (simp add: in_flight_step [OF store_begin.hyps(2)])
  with k show ?case
    by (intro exI [of _ "Suc k"]) (simp add: sequence_generation [OF store_begin.hyps(2)])
next
  case (store_end n h i)
  then obtain k where k: "ia64_alat_memory_generation h = ia64_alat_memory_generation g + of_nat k" "n \<le> k"
    "k + card (in_flight h) \<le> 2 * n + card (in_flight g)" by blast
  have i: "i \<in> in_flight h" using store_end by (simp add: in_flight_def)
  then have "Suc (card (in_flight (h\<lparr>g_sequences := (g_sequences h)[i := g_sequences h ! i + 1]\<rparr>))) = card (in_flight h)"
    using in_flight_card(1) [of h] card_Suc_Diff1 [of "in_flight h" i] by (simp add: in_flight_step [OF store_end.hyps(2)])
  with k show ?case
    by (intro exI [of _ "Suc k"]) (simp add: sequence_generation [OF store_end.hyps(2)])
qed

lemma memory_writes_change:
  assumes "memory_writes g n h" "0 < n" "2 * n + length (g_sequences g) < 2 ^ 64"
  shows "ia64_alat_memory_generation h \<noteq> ia64_alat_memory_generation g"
proof -
  obtain k where k: "ia64_alat_memory_generation h = ia64_alat_memory_generation g + of_nat k" "n \<le> k"
    "k + card (in_flight h) \<le> 2 * n + card (in_flight g)" using memory_writes_generation [OF assms(1)] by blast
  then have "k < 2 ^ 64" using assms(3) in_flight_card(2) [of g] by linarith
  then have "unat (of_nat k :: u64) = k" by (simp add: unat_of_nat)
  then have "(of_nat k :: u64) \<noteq> 0" using k(2) assms(2) by auto
  with k(1) show ?thesis by simp
qed

section \<open>Reachable tables\<close>

lemma alat_wf_invala: "alat_wf s \<Longrightarrow> alat_wf (ia64_alat_invala g s)"
  by (simp add: ia64_alat_invala_def alat_wf_clear)

lemma alat_map_invala: "alat_map (ia64_alat_invala g s) = Map.empty"
  by (simp add: ia64_alat_invala_def)

lemma alat_wf_invalidate_register: "alat_wf s \<Longrightarrow> alat_wf (ia64_alat_invalidate_register reg fp s)"
  unfolding ia64_alat_invalidate_register_def Let_def
  using alat_wfD(4) [of s fp reg "alat_reg_slot s fp reg - 1"]
  by (auto intro: alat_wf_invalidate_entry)

lemma find_alat_reg_cases:
  assumes "ia64_find_alat_reg g w reg fp close s = (s1, generation, found)"
  obtains "found = None" "s1 = s"
  | "found = None" "s1 = fst (ia64_alat_sync_memory_writes g s)"
  | "found = None" "s1 = fst (ia64_alat_memory_window_changed w (memory_write_generation s) s)"
  | k where "found = Some k" "s1 = s" "alat_reg_slot s fp reg = Suc k" "reg < 128"
      "generation = memory_write_generation s"
      "memory_write_generation s = ia64_alat_memory_generation g"
      "close \<longrightarrow> \<not> ia64_alat_memory_generation_changed w (memory_write_generation s)"
proof -
  note defs = ia64_find_alat_reg_def ia64_alat_sync_memory_writes_def
    ia64_alat_memory_window_changed_def Let_def
  show thesis
  proof (cases "128 \<le> reg \<or> alat_active_count s = 0")
    case True
    with assms show thesis by (intro that(1)) (simp_all add: defs split: if_splits)
  next
    case live: False
    show thesis
    proof (cases "ia64_alat_memory_generation g = memory_write_generation s")
      case False
      with live assms show thesis by (intro that(2)) (simp_all add: defs)
    next
      case gen: True
      show thesis
      proof (cases "alat_reg_slot s fp reg")
        case 0
        with live gen assms show thesis by (intro that(1)) (simp_all add: defs)
      next
        case (Suc k)
        show thesis
        proof (cases "close \<and> ia64_alat_memory_generation_changed w (memory_write_generation s)")
          case True
          with live gen Suc assms show thesis by (intro that(3)) (simp_all add: defs)
        next
          case False
          with live gen Suc assms show thesis
            by (intro that(4) [of k]) (auto simp: defs split: if_splits)
        qed
      qed
    qed
  qed
qed

lemma alat_wf_find:
  assumes "alat_wf s" "ia64_find_alat_reg g w reg fp close s = (s1, generation, found)"
  shows "alat_wf s1"
  using assms(2) by (rule find_alat_reg_cases) (auto simp: assms(1) alat_wf_sync alat_wf_window)

lemma alat_wf_check_load:
  assumes wf: "alat_wf s"
  shows "alat_wf (fst (ia64_check_load_alat xlat g w1 w2 reg fp verify addr sz clear s))"
proof -
  obtain s1 generation found where f: "ia64_find_alat_reg g w1 reg fp verify s = (s1, generation, found)"
    by (metis prod.collapse)
  note wf1 = alat_wf_find [OF wf f]
  have inv: "alat_wf (ia64_alat_invalidate_entry i s1)" if "found = Some i" for i
    using that by - (rule find_alat_reg_cases [OF f],
        auto intro!: alat_wf_invalidate_entry wf dest: alat_wfD(4) [OF wf])
  show ?thesis
  proof (cases "ia64_alat_memory_generation_changed w2 generation")
    case True
    then show ?thesis
      using wf wf1 inv
      by (simp add: ia64_check_load_alat_def f Let_def ia64_alat_memory_window_changed_def alat_wf_clear
          split: option.split)
  next
    case False
    then show ?thesis
      using wf wf1 inv
      by (simp add: ia64_check_load_alat_def f Let_def ia64_alat_memory_window_changed_def
          split: option.split)
  qed
qed

lemma alat_wf_store: "alat_wf s \<Longrightarrow> alat_wf (ia64_invalidate_alat_store xlat g addr sz s)"
  by (simp add: ia64_invalidate_alat_store_def alat_wf_phys_range split: option.split)

text \<open>
  A store scope is open exactly while the sequence of this CPU is odd, when stores are observed.
\<close>

definition alat_inv :: "alat_state \<times> u64 \<Rightarrow> bool" where
  "alat_inv = (\<lambda>(s, seq). alat_wf s \<and> (bit seq 0 \<longleftrightarrow> write_active s \<and> write_observed s))"

text \<open>The operations that only change entries leave the token alone.\<close>

definition same_token :: "alat_state \<Rightarrow> alat_state \<Rightarrow> bool" where
  "same_token s t \<longleftrightarrow> write_active t = write_active s \<and> write_observed t = write_observed s"

lemma same_token_trans: "same_token r s \<Longrightarrow> same_token s t \<Longrightarrow> same_token r t"
  by (simp add: same_token_def)

lemma same_token_basic [simp]:
  "same_token s s"
  "same_token s (ia64_alat_invalidate_entry i s)"
  "same_token s (ia64_alat_clear s)"
  "same_token s (t\<lparr>memory_write_generation := g\<rparr>) = same_token s t"
  "same_token s (alat_publish i pa sz reg fp s)"
  by (simp_all add: same_token_def ia64_alat_invalidate_entry_def ia64_alat_clear_def
      alat_publish_def Let_def)

lemma same_token_ops [simp]:
  "same_token s (fst (ia64_alat_sync_memory_writes g s))"
  "same_token s (fst (ia64_alat_memory_window_changed w gen s))"
  "same_token s (ia64_alat_invala g s)"
  "same_token s (ia64_alat_invalidate_register reg fp s)"
  by (simp_all add: ia64_alat_sync_memory_writes_def ia64_alat_memory_window_changed_def
      ia64_alat_invala_def ia64_alat_invalidate_register_def Let_def)

lemma same_token_scan:
  fixes w :: u32
  shows "(\<And>i s. same_token s (body i s)) \<Longrightarrow> same_token s (scan_bits body w s)"
  unfolding scan_bits_fold
  by (rule fold_invariant_set [where P = "same_token s"]) (auto intro: same_token_trans)

lemma same_token_ranges [simp]:
  "same_token s (ia64_invalidate_alat_reg_range lo hi fp s)"
  "same_token s (ia64_invalidate_alat_phys_range g pa sz s)"
  unfolding ia64_invalidate_alat_reg_range_def ia64_invalidate_alat_phys_range_def
  using same_token_trans [OF same_token_ops(1) [of s g] same_token_scan]
  by (auto intro!: same_token_scan simp: case_prod_beta Let_def)

lemma same_token_store [simp]: "same_token s (ia64_invalidate_alat_store xlat g addr sz s)"
  by (simp add: ia64_invalidate_alat_store_def split: option.split)

lemma same_token_set [simp]:
  "same_token s (ia64_set_alat xlat_attr w1 w2 reg addr sz fp generation pa s)"
proof -
  obtain s1 c where c: "ia64_alat_memory_window_changed w1 generation s = (s1, c)" by force
  then have s1: "same_token s s1" using same_token_ops(2) [of s w1 generation] by simp
  have "same_token s (fst (ia64_alat_memory_window_changed w2 generation (alat_publish i pa' sz reg fp s1)))"
    for i pa'
    by (rule same_token_trans [OF s1 same_token_trans [OF same_token_basic(5) same_token_ops(2)]])
  then show ?thesis by (simp add: ia64_set_alat_def c Let_def s1 split: option.split)
qed

lemma same_token_check [simp]:
  "same_token s (fst (ia64_check_load_alat xlat g w1 w2 reg fp verify addr sz clear s))"
proof -
  obtain s1 generation found where f: "ia64_find_alat_reg g w1 reg fp verify s = (s1, generation, found)"
    by (metis prod.collapse)
  then have s1: "same_token s s1" by (rule find_alat_reg_cases) auto
  obtain s2 c where c: "ia64_alat_memory_window_changed w2 generation s1 = (s2, c)" by force
  then have s2: "same_token s s2"
    using same_token_trans [OF s1 same_token_ops(2) [of s1 w2 generation]] by simp
  show ?thesis
    using s1 s2 by (auto simp: ia64_check_load_alat_def f c Let_def split: option.split
        intro: same_token_trans [OF _ same_token_basic(2)])
qed

text \<open>
  Every operation on the table as a step of one CPU, with arbitrary samples and arbitrary
  translation results: the state of the table and the store sequence of the CPU.
\<close>

inductive alat_step :: "alat_state \<times> u64 \<Rightarrow> alat_state \<times> u64 \<Rightarrow> bool" where
  set: "alat_step (s, q) (ia64_set_alat xa w1 w2 reg addr sz fp gen pa s, q)"
| check: "alat_step (s, q) (fst (ia64_check_load_alat xl g w1 w2 reg fp verify addr sz clear s), q)"
| chk_hit: "ia64_alat_chk_a g w va reg s = Inr (r, s') \<Longrightarrow> alat_step (s, q) (s', q)"
| chk_fault: "ia64_alat_chk_a g w va reg s = Inl (va', s') \<Longrightarrow> alat_step (s, q) (s', q)"
| invala: "alat_step (s, q) (ia64_alat_invala g s, q)"
| load_begin: "alat_step (s, q) (fst (ia64_alat_load_begin g s), q)"
| drop_reg: "alat_step (s, q) (ia64_alat_invalidate_register reg fp s, q)"
| drop_regs: "alat_step (s, q) (ia64_invalidate_alat_reg_range lo hi fp s, q)"
| drop_phys: "alat_step (s, q) (ia64_invalidate_alat_phys_range g pa len s, q)"
| purge: "alat_step (s, q) (ia64_ptc_mark_global_alat s, q)"
| store: "alat_step (s, q) (ia64_invalidate_alat_store xl g addr sz s, q)"
| notify: "ia64_alat_notify_store g (s, ext) = Some (s', ext') \<Longrightarrow> alat_step (s, q) (s', q)"
| wr_begin: "ia64_alat_write_begin (s, q) = Some st \<Longrightarrow> alat_step (s, q) st"
| wr_end: "ia64_alat_write_end xl w g addr sz (s, q) = Some st \<Longrightarrow> alat_step (s, q) st"
| wr_cancel: "ia64_alat_write_cancel (s, q) = Some st \<Longrightarrow> alat_step (s, q) st"
| wr_abort: "ia64_alat_write_abort xl w g (s, q) = Some st \<Longrightarrow> alat_step (s, q) st"

definition alat_reset :: "bool \<Rightarrow> alat_state" where
  "alat_reset full =
     \<lparr>alat = (\<lambda>_. \<lparr>e_phys_addr = 0, e_size = 0, e_reg = 0, e_fp = False, e_valid = False\<rparr>),
      alat_active_count = 0, alat_reg_slot = (\<lambda>_ _. 0), alat_occupied = 0, alat_full = full,
      write_active = False, write_observed = False, write_generation = 0,
      memory_write_generation = 0\<rparr>"

lemma alat_inv_reset: "alat_inv (alat_reset full, 0)"
  by (simp add: alat_inv_def alat_wf_def alat_reset_def)

lemma alat_inv_same_token:
  "alat_inv (s, q) \<Longrightarrow> alat_wf t \<Longrightarrow> same_token s t \<Longrightarrow> alat_inv (t, q)"
  by (simp add: alat_inv_def same_token_def)

lemma alat_inv_wf: "alat_inv (s, q) \<Longrightarrow> alat_wf s"
  by (simp add: alat_inv_def)

lemma chk_a_result:
  assumes "ia64_alat_chk_a g w va reg s = Inr (r, t) \<or> ia64_alat_chk_a g w va reg s = Inl (va', t)"
    and "alat_wf s"
  shows "alat_wf t \<and> same_token s t"
proof -
  let ?y = "fst (ia64_alat_sync_memory_writes g s)"
  have "t = s \<or> t = ?y \<or> t = fst (ia64_alat_memory_window_changed w (memory_write_generation ?y) ?y)"
    using assms(1) unfolding ia64_alat_chk_a_def Let_def case_prod_beta
    by (auto split: if_splits)
  then show ?thesis
    using assms(2) alat_wf_sync [OF assms(2)] alat_wf_window [OF alat_wf_sync [OF assms(2)]]
      same_token_trans [OF same_token_ops(1) same_token_ops(2)] by auto
qed

lemma take_token_inv:
  assumes "alat_inv (s, q)" "ia64_alat_write_take_token (s, q) = Some (observed, t, q')"
  shows "alat_inv (t, q') \<and> \<not> write_active t \<and> observed = write_observed s \<and>
    t = s\<lparr>write_active := False, write_observed := False\<rparr>"
  using assms unfolding ia64_alat_write_take_token_def alat_inv_def
  by (auto simp: Let_def and_one_0_iff bit_0_succ split: if_splits)

lemma alat_inv_finish:
  assumes "alat_inv (s, q)" "ia64_alat_write_finish xl w g addr sz precise (s, q) = Some st"
  shows "alat_inv st"
proof -
  from assms(2) obtain observed t q' where tok: "ia64_alat_write_take_token (s, q) = Some (observed, t, q')"
    by (cases "ia64_alat_write_take_token (s, q)") (auto simp: ia64_alat_write_finish_def)
  note t = conjunct1 [OF take_token_inv [OF assms(1) tok]]
  then have wf: "alat_wf t" by (simp add: alat_inv_def)
  have mwg: "alat_inv (t\<lparr>memory_write_generation := g'\<rparr>, q')" for g'
    using t by (simp add: alat_inv_def)
  have "alat_inv (ia64_alat_invala (w_fresh w) t, q')"
    by (rule alat_inv_same_token [OF t alat_wf_invala [OF wf]]) simp
  moreover have "alat_inv (ia64_invalidate_alat_store xl g addr sz (t\<lparr>memory_write_generation := g'\<rparr>), q')" for g'
    by (rule alat_inv_same_token [OF mwg [of g'] alat_wf_store]) (simp_all add: wf)
  ultimately show ?thesis
    using assms(2) t unfolding ia64_alat_write_finish_def
    by (simp add: tok Let_def split: if_splits) blast+
qed

lemma alat_inv_step:
  assumes "alat_step st st'" "alat_inv st"
  shows "alat_inv st'"
  using assms
proof (induction rule: alat_step.induct)
  case set
  then show ?case by (rule alat_inv_same_token) (rule alat_wf_set [OF alat_inv_wf [OF set]], simp)
next
  case check
  then show ?case by (rule alat_inv_same_token) (rule alat_wf_check_load [OF alat_inv_wf [OF check]], simp)
next
  case chk_hit
  from chk_a_result [OF disjI1 [OF chk_hit(1)] alat_inv_wf [OF chk_hit(2)]] show ?case
    by (intro alat_inv_same_token [OF chk_hit(2)]) simp_all
next
  case chk_fault
  from chk_a_result [OF disjI2 [OF chk_fault(1)] alat_inv_wf [OF chk_fault(2)]] show ?case
    by (intro alat_inv_same_token [OF chk_fault(2)]) simp_all
next
  case invala
  then show ?case by (rule alat_inv_same_token) (rule alat_wf_invala [OF alat_inv_wf [OF invala]], simp)
next
  case load_begin
  then show ?case unfolding ia64_alat_load_begin_def case_prod_beta Let_def fst_conv
    by (rule alat_inv_same_token) (rule alat_wf_sync [OF alat_inv_wf [OF load_begin]], simp)
next
  case drop_reg
  then show ?case
    by (rule alat_inv_same_token) (rule alat_wf_invalidate_register [OF alat_inv_wf [OF drop_reg]], simp)
next
  case drop_regs
  then show ?case by (rule alat_inv_same_token) (rule alat_wf_reg_range [OF alat_inv_wf [OF drop_regs]], simp)
next
  case drop_phys
  then show ?case by (rule alat_inv_same_token) (rule alat_wf_phys_range [OF alat_inv_wf [OF drop_phys]], simp)
next
  case purge
  then show ?case by (rule alat_inv_same_token)
      (simp_all add: ia64_ptc_mark_global_alat_def alat_wf_def same_token_def)
next
  case store
  then show ?case by (rule alat_inv_same_token) (rule alat_wf_store [OF alat_inv_wf [OF store]], simp)
next
  case (notify g s ext s' ext' q)
  then have "s' = s \<or> s' = ia64_alat_invala g s"
    by (simp add: ia64_alat_notify_store_def split: if_splits)
  then show ?case
    using notify.prems alat_inv_same_token [OF notify.prems alat_wf_invala [OF alat_inv_wf [OF notify.prems]]]
    by auto
next
  case wr_begin
  then show ?case
    by (auto simp: ia64_alat_write_begin_def alat_inv_def Let_def and_one_0_iff bit_0_succ split: if_splits)
next
  case wr_end
  from alat_inv_finish [OF wr_end(2) wr_end(1) [unfolded ia64_alat_write_end_def]] show ?case .
next
  case (wr_cancel s q st)
  then obtain observed t q' where tok: "ia64_alat_write_take_token (s, q) = Some (observed, t, q')"
    by (cases "ia64_alat_write_take_token (s, q)") (auto simp: ia64_alat_write_cancel_def)
  from take_token_inv [OF wr_cancel(2) tok] wr_cancel(1) show ?case
    by (auto simp: ia64_alat_write_cancel_def tok alat_inv_def)
next
  case (wr_abort xl w g s q st)
  then show ?case
    using alat_inv_finish [OF wr_abort(2)] by (auto simp: ia64_alat_write_abort_def split: if_splits)
qed

text \<open>
  C16: In every state the operations can reach from reset, for any interleaving with other
  writers, the register index, the occupancy bitmap and the entry count describe exactly the
  valid entries, each register has at most one entry, and the CPU's store sequence is odd
  exactly while an observed store of the CPU is in flight.
\<close>

theorem alat_reachable_inv:
  assumes "alat_step\<^sup>*\<^sup>* (alat_reset full, 0) st"
  shows "alat_inv st"
  using assms by (induction rule: rtranclp_induct) (auto intro: alat_inv_reset alat_inv_step)

theorem alat_reachable_witness:
  "alat_inv (ia64_set_alat (\<lambda>_. None)
     \<lparr>w_gen = \<lparr>g_external = 0, g_sequences = [0]\<rparr>, w_active_before = 0, w_current = 0, w_active_after = 0,
      w_fresh = \<lparr>g_external = 0, g_sequences = [0]\<rparr>\<rparr>
     \<lparr>w_gen = \<lparr>g_external = 0, g_sequences = [0]\<rparr>, w_active_before = 0, w_current = 0, w_active_after = 0,
      w_fresh = \<lparr>g_external = 0, g_sequences = [0]\<rparr>\<rparr>
     40 0x1000 8 False 0 0x2000 (alat_reset True), 0)"
  by (rule alat_reachable_inv [of True], rule r_into_rtranclp, rule alat_step.set)

section \<open>Checks\<close>

text \<open>
  A closing sample that saw no write: every sequence is even, the sum of all counters is the expected generation, and the
  external generation did not move while no external writer was active.
\<close>

definition undisturbed :: "window_sample \<Rightarrow> u64 \<Rightarrow> bool" where
  "undisturbed w generation \<longleftrightarrow>
     g_external (w_gen w) + sum_list (g_sequences (w_gen w)) = generation \<and>
     (\<forall>q \<in> set (g_sequences (w_gen w)). \<not> bit q 0) \<and>
     w_active_before w = 0 \<and> w_active_after w = 0 \<and> w_current w = g_external (w_gen w)"

lemma generation_changed_iff: "ia64_alat_memory_generation_changed w generation \<longleftrightarrow> \<not> undisturbed w generation"
  by (auto simp: ia64_alat_memory_generation_changed_def physical_memory_write_generation_changed_def undisturbed_def
      cpu_generation_eq and_one_0_iff Let_def)

text \<open>
  C17: When \<^const>\<open>ia64_check_load_alat\<close> reports a hit, the register's entry was in the table, the opening sample of all
  counters equals the generation recorded with the entries, and the closing sample saw no write.  When the check also
  verifies the address, the entry has the physical address and the size of the checked access, and the sample taken
  between finding the entry and comparing it saw no write either.
\<close>

theorem check_load_hit:
  assumes wf: "alat_wf s" and hit: "snd (ia64_check_load_alat xlat g w1 w2 reg fp verify addr sz clear s)"
  shows "\<exists>pa len. alat_map s (fp, reg) = Some (pa, len) \<and>
    (verify \<longrightarrow> xlat addr = Some pa \<and> ucast len = sz \<and> undisturbed w1 (memory_write_generation s)) \<and>
    g_external g + sum_list (g_sequences g) = memory_write_generation s \<and>
    undisturbed w2 (memory_write_generation s)"
proof -
  obtain s1 generation found where f: "ia64_find_alat_reg g w1 reg fp verify s = (s1, generation, found)"
    by (metis prod.collapse)
  from hit obtain i where i: "found = Some i"
    by (auto simp: ia64_check_load_alat_def f split: if_splits option.splits)
  from f have k: "alat_reg_slot s fp reg = Suc i \<and> s1 = s \<and> generation = memory_write_generation s \<and>
      memory_write_generation s = ia64_alat_memory_generation g \<and>
      (verify \<longrightarrow> \<not> ia64_alat_memory_generation_changed w1 (memory_write_generation s))"
    by (rule find_alat_reg_cases) (auto simp: i)
  then have m: "alat_map s (fp, reg) = Some (e_phys_addr (alat s i), e_size (alat s i))"
    by (simp add: alat_map_def Let_def)
  from hit k i have same: "\<not> ia64_alat_memory_generation_changed w2 (memory_write_generation s)"
    and match: "verify \<longrightarrow> ia64_alat_matches_addr xlat (alat s i) addr sz"
    by (auto simp: ia64_check_load_alat_def f ia64_alat_memory_window_changed_def split: if_splits)
  from match have "verify \<longrightarrow> xlat addr = Some (e_phys_addr (alat s i)) \<and> ucast (e_size (alat s i)) = sz"
    by (simp add: ia64_alat_matches_addr_def split: if_splits option.splits)
  with m k same show ?thesis
    unfolding generation_changed_iff not_not memory_generation_eq
    by (intro exI [of _ "e_phys_addr (alat s i)"] exI [of _ "e_size (alat s i)"]) auto
qed

definition quiet_window :: "gen_sample \<Rightarrow> window_sample" where
  "quiet_window g = \<lparr>w_gen = g, w_active_before = 0, w_current = g_external g, w_active_after = 0,
     w_fresh = g\<rparr>"

lemma quiet_window_unchanged:
  assumes "\<forall>q \<in> set (g_sequences g). q AND 1 = 0"
  shows "ia64_alat_memory_generation_changed (quiet_window g) (ia64_alat_memory_generation g) = False"
  using assms
  by (auto simp: ia64_alat_memory_generation_changed_def physical_memory_write_generation_changed_def
      quiet_window_def cpu_generation_eq memory_generation_eq Let_def)

lemma load_begin_generation:
  "memory_write_generation (fst (ia64_alat_load_begin g s)) = ia64_alat_memory_generation g"
  "snd (ia64_alat_load_begin g s) = ia64_alat_memory_generation g"
  by (simp_all add: ia64_alat_load_begin_def ia64_alat_sync_memory_writes_def Let_def)

text \<open>
  C18: An advanced load followed by its check hits when no writer interferes: after the
  generation sample, the registration of the loaded range and the check of the same register,
  address and size, \<^const>\<open>ia64_check_load_alat\<close> returns true, provided the page allows advanced
  loads and the table has a free entry or one for the register.
\<close>

theorem advanced_load_then_check:
  assumes wf: "alat_wf s" and even: "\<forall>q \<in> set (g_sequences g). q AND 1 = 0"
    and reg: "reg < 128" "fp \<longrightarrow> 1 < reg"
    and xa: "xa addr = Some (pa, spec)" "ia64_memory_allows_advanced_load spec" and xl: "xl addr = Some pa"
    and sz: "sz < 256"
    and st: "ia64_alat_load_begin g s = (s1, generation)"
    and room: "alat_register_slot fp reg s1 = Some i"
  shows "snd (ia64_check_load_alat xl g (quiet_window g) (quiet_window g) reg fp verify addr sz clear
    (ia64_set_alat xa (quiet_window g) (quiet_window g) reg addr sz fp generation (-1) s1))"
proof -
  have g: "memory_write_generation s1 = ia64_alat_memory_generation g" "generation = ia64_alat_memory_generation g"
    using load_begin_generation [of g s] st by simp_all
  have wf1: "alat_wf s1" using alat_wf_sync [OF wf, of g] st
    by (simp add: ia64_alat_load_begin_def case_prod_beta)
  let ?s2 = "alat_publish i pa sz reg fp s1"
  note quiet = quiet_window_unchanged [OF even]
  have set: "ia64_set_alat xa (quiet_window g) (quiet_window g) reg addr sz fp generation (-1) s1 = ?s2"
    using reg(1) xa room by (simp add: ia64_set_alat_def ia64_alat_memory_window_changed_def g quiet)
  have wf2: "alat_wf ?s2"
    using alat_register_slot_Some [OF wf1 room] reg(1) by (intro alat_wf_publish [OF wf1]) auto
  have slot: "alat_reg_slot ?s2 fp reg = Suc i" "e_valid (alat ?s2 i)" "memory_write_generation ?s2 = ia64_alat_memory_generation g"
    "e_phys_addr (alat ?s2 i) = pa" "e_size (alat ?s2 i) = ucast sz"
    by (simp_all add: alat_publish_def Let_def g)
  have "alat_active_count ?s2 \<noteq> 0"
    using count_zero_iff [OF wf2] slot(2) alat_wfD(4) [OF wf2 slot(1)] by auto
  then have find: "ia64_find_alat_reg g (quiet_window g) reg fp verify ?s2 =
      (?s2, ia64_alat_memory_generation g, Some i)"
    using reg(1) slot by (simp add: ia64_find_alat_reg_def ia64_alat_sync_memory_writes_def
        ia64_alat_memory_window_changed_def quiet Let_def)
  have "(ucast (ucast sz :: u8) :: u32) = sz"
  proof -
    have "(ucast (ucast sz :: u8) :: u32) = take_bit 8 sz"
      by (rule bit_word_eqI) (auto simp: bit_ucast_iff bit_take_bit_iff)
    also have "\<dots> = sz" using sz by (intro take_bit_small) (simp add: word_less_nat_alt)
    finally show ?thesis .
  qed
  then have "ia64_alat_matches_addr xl (alat ?s2 i) addr sz"
    using xl slot by (simp add: ia64_alat_matches_addr_def)
  then show ?thesis
    unfolding set using reg(2)
    by (simp add: ia64_check_load_alat_def find ia64_alat_memory_window_changed_def quiet not_le)
qed

text \<open>
  C19: A write by anyone else is never missed: if between the sample recorded with the entries and the sample of the next
  check at least one external write completed or one store of a virtual CPU began, and twice the number of those writes
  plus the number of virtual CPUs stays below \<open>2 ^ 64\<close>, the check misses, whatever its later samples are.
\<close>

theorem check_load_misses_after_write:
  assumes "memory_write_generation s = ia64_alat_memory_generation g"
    and "memory_writes g n g'" "0 < n" "2 * n + length (g_sequences g) < 2 ^ 64"
  shows "\<not> snd (ia64_check_load_alat xlat g' w1 w2 reg fp verify addr sz clear s)"
proof -
  have ne: "ia64_alat_memory_generation g' \<noteq> memory_write_generation s"
    using memory_writes_change [OF assms(2-4)] assms(1) by simp
  obtain s1 generation found where f: "ia64_find_alat_reg g' w1 reg fp verify s = (s1, generation, found)"
    by (metis prod.collapse)
  from f have "found = None" by (rule find_alat_reg_cases) (use ne in auto)
  then show ?thesis by (simp add: ia64_check_load_alat_def f)
qed

section \<open>Stores\<close>

text \<open>The bytes of an access, as a set of addresses.\<close>

definition bytes :: "u64 \<Rightarrow> nat \<Rightarrow> nat set" where
  "bytes a n = {unat a ..< unat a + n}"

lemma ranges_overlap_bytes: "ia64_ranges_overlap a n b m \<longleftrightarrow> bytes a (unat n) \<inter> bytes b (unat m) \<noteq> {}"
proof
  assume "ia64_ranges_overlap a n b m"
  then show "bytes a (unat n) \<inter> bytes b (unat m) \<noteq> {}" unfolding ranges_overlap_iff by (auto simp: bytes_def)
next
  assume "bytes a (unat n) \<inter> bytes b (unat m) \<noteq> {}"
  then obtain x where "x \<in> bytes a (unat n)" "x \<in> bytes b (unat m)" by blast
  then have "unat a \<le> x" "x < unat a + unat n" "unat b \<le> x" "x < unat b + unat m" by (simp_all add: bytes_def)
  moreover have "unat a < 2 ^ 64" "unat b < 2 ^ 64" by (rule unat_u64_less)+
  ultimately show "ia64_ranges_overlap a n b m"
    unfolding ranges_overlap_iff by (intro exI [of _ "max (unat a) (unat b)"]) auto
qed

definition without_overlap :: "nat set \<Rightarrow> (u64 \<times> u8) option \<Rightarrow> (u64 \<times> u8) option" where
  "without_overlap stored entry =
     (case entry of None \<Rightarrow> None | Some (pa, len) \<Rightarrow> if stored \<inter> bytes pa (unat len) = {} then Some (pa, len) else None)"

lemma unat_widen: "unat (ucast (n :: u8) :: u64) = unat n" "unat (ucast (m :: u32) :: u64) = unat m"
proof -
  have "unat n < 2 ^ 64" "unat m < 2 ^ 64" by (rule order.strict_trans2 [OF unsigned_less], simp)+
  then show "unat (ucast n :: u64) = unat n" "unat (ucast m :: u64) = unat m"
    by (simp_all add: unsigned_ucast_eq take_bit_nat_eq_self)
qed

lemma alat_map_phys_range_bytes:
  assumes "alat_wf s"
  shows "alat_map (ia64_invalidate_alat_phys_range g pa sz s) =
    (if ia64_alat_memory_generation g \<noteq> memory_write_generation s then Map.empty
     else (\<lambda>key. without_overlap (bytes pa (unat sz)) (alat_map s key)))"
  by (rule ext) (simp add: alat_map_phys_range [OF assms] without_overlap_def ranges_overlap_bytes
      unat_widen split: option.split)

lemma alat_map_no_entries: "alat_wf s \<Longrightarrow> alat_active_count s = 0 \<Longrightarrow> alat_map s key = None"
  using count_zero_iff [of s] alat_map_iff [of s] by (cases key; cases "alat_map s key") auto

text \<open>
  C20: Closing the scope of an observed store whose address translates leaves no entry that shares a byte with the store,
  for any samples the closing code reads: either no entry is left at all, or exactly the entries sharing a byte with the
  store are gone.
\<close>

theorem write_end_no_overlap:
  assumes inv: "alat_inv (s, q)" and obs: "write_observed s"
    and xl: "xl addr = Some pa"
    and wr: "ia64_alat_write_end xl w g addr sz (s, q) = Some (t, q')"
  shows "alat_map t = Map.empty \<or> (\<forall>key. alat_map t key = without_overlap (bytes pa (unat sz)) (alat_map s key))"
proof -
  from wr obtain observed s1 where tok: "ia64_alat_write_take_token (s, q) = Some (observed, s1, q')"
    by (cases "ia64_alat_write_take_token (s, q)")
      (auto simp: ia64_alat_write_end_def ia64_alat_write_finish_def Let_def split: if_splits)
  have obs1: "observed" and wf1: "alat_wf s1"
    using take_token_inv [OF inv tok] obs by (auto simp: alat_inv_def)
  have m1: "alat_map s1 = alat_map s"
    using tok by (auto simp: ia64_alat_write_take_token_def Let_def split: if_splits)
  show ?thesis
  proof (cases "alat_active_count s1 = 0")
    case True
    then have "t = s1" using wr by (simp add: ia64_alat_write_end_def ia64_alat_write_finish_def tok Let_def)
    then show ?thesis using alat_map_no_entries [OF wf1 True] by auto
  next
    case False
    let ?u = "s1\<lparr>memory_write_generation := write_generation s + 2\<rparr>"
    have "t = ia64_alat_invala (w_fresh w) s1 \<or> t = ia64_invalidate_alat_phys_range g pa (ucast sz) ?u"
      using wr False obs1 xl
      by (auto simp: ia64_alat_write_end_def ia64_alat_write_finish_def ia64_invalidate_alat_store_def
          tok Let_def split: if_splits)
    then show ?thesis
      using alat_map_phys_range_bytes [of ?u g pa "ucast sz"] wf1 m1 by (auto simp: alat_map_invala unat_widen split: if_splits)
  qed
qed

section \<open>Concrete runs\<close>

abbreviation idle_sample :: gen_sample where
  "idle_sample \<equiv> \<lparr>g_external = 0, g_sequences = [0]\<rparr>"

abbreviation loaded_table :: alat_state where
  "loaded_table \<equiv> alat_publish 0 0x2000 8 40 False (alat_reset True)"

lemma ctz_word_all_ones: "ctz_word (- 1) = 0"
  by (simp add: ctz_word_def upt_conv_Cons)

lemma alat_wf_reset: "alat_wf (alat_reset full)"
  using alat_inv_reset by (rule alat_inv_wf)

lemma alat_wf_loaded: "alat_wf loaded_table"
  by (rule alat_wf_publish [OF alat_wf_reset]) (simp_all add: alat_reset_def)

lemma quiet_idle: "ia64_alat_memory_generation_changed (quiet_window idle_sample) 0 = False"
  using quiet_window_unchanged [of idle_sample] by (simp add: memory_generation_eq)

lemma loaded_table_fields:
  "alat_reg_slot loaded_table False 40 = 1" "alat_active_count loaded_table = 1"
  "memory_write_generation loaded_table = 0" "alat loaded_table 0 =
    \<lparr>e_phys_addr = 0x2000, e_size = 8, e_reg = 40, e_fp = False, e_valid = True\<rparr>"
  "alat_occupied loaded_table = 1" "write_active loaded_table = False" "alat_full loaded_table"
  "write_generation loaded_table = 0"
  by (simp_all add: alat_publish_def alat_reset_def)

theorem check_load_hit_witness:
  "\<exists>pa len. alat_map loaded_table (False, 40) = Some (pa, len) \<and>
     (\<lambda>_. Some 0x2000) (0x9000 :: u64) = Some pa \<and> (ucast len :: u32) = 8"
  using check_load_hit [OF alat_wf_loaded, of "\<lambda>_. Some 0x2000" idle_sample
      "quiet_window idle_sample" "quiet_window idle_sample" 40 False True "0x9000" 8 False]
  by (auto simp: ia64_check_load_alat_def ia64_find_alat_reg_def ia64_alat_sync_memory_writes_def
      ia64_alat_memory_window_changed_def memory_generation_eq loaded_table_fields quiet_idle
      ia64_alat_matches_addr_def)

theorem advanced_load_then_check_witness:
  "snd (ia64_check_load_alat (\<lambda>_. Some 0x2000) idle_sample (quiet_window idle_sample)
     (quiet_window idle_sample) 40 False True 0x9000 8 True
     (ia64_set_alat (\<lambda>_. Some (0x2000, Mem_Speculative)) (quiet_window idle_sample)
        (quiet_window idle_sample) 40 0x9000 8 False 0 (-1) (alat_reset True)))"
  by (rule advanced_load_then_check [OF alat_wf_reset, of idle_sample _ _ _ _ "0x2000" Mem_Speculative _ _
        True "alat_reset True" 0 0])
    (simp_all add: ia64_memory_allows_advanced_load_def ia64_alat_load_begin_def
      ia64_alat_sync_memory_writes_def memory_generation_eq alat_register_slot_def alat_reset_def ctz_word_all_ones)

theorem check_load_misses_witness:
  "\<not> snd (ia64_check_load_alat (\<lambda>_. Some 0x2000) (idle_sample\<lparr>g_external := 1\<rparr>)
     (quiet_window idle_sample) (quiet_window idle_sample) 40 False True 0x9000 8 False loaded_table)"
proof (rule check_load_misses_after_write [of _ idle_sample 1])
  show "memory_writes idle_sample 1 (idle_sample\<lparr>g_external := 1\<rparr>)"
    using memory_writes.external_end [OF memory_writes.no_write [of idle_sample]] by simp
qed (simp_all add: loaded_table_fields memory_generation_eq)

theorem write_end_no_overlap_witness:
  "\<exists>t q'. ia64_alat_write_end (\<lambda>_. Some 0x2004)
       (quiet_window \<lparr>g_external = 0, g_sequences = [2]\<rparr>) \<lparr>g_external = 0, g_sequences = [2]\<rparr> 0x9004 4
       (loaded_table\<lparr>write_active := True, write_observed := True\<rparr>, 1) = Some (t, q') \<and>
     alat_map t (False, 40) = None"
proof -
  let ?s = "loaded_table\<lparr>write_active := True, write_observed := True\<rparr>"
  let ?g = "\<lparr>g_external = 0, g_sequences = [2 :: u64]\<rparr>"
  let ?r = "ia64_alat_write_end (\<lambda>_. Some 0x2004) (quiet_window ?g) ?g 0x9004 4 (?s, 1)"
  have inv: "alat_inv (?s, 1)" by (simp add: alat_inv_def alat_wf_loaded)
  let ?u = "loaded_table\<lparr>write_active := False, write_observed := False, memory_write_generation := 2\<rparr>"
  let ?t = "ia64_invalidate_alat_store (\<lambda>_. Some 0x2004) ?g 0x9004 4 ?u"
  have quiet: "ia64_alat_memory_generation_changed (quiet_window ?g) 2 = False"
    using quiet_window_unchanged [of ?g] by (simp add: memory_generation_eq)
  have r: "?r = Some (?t, 2)"
    by (simp add: ia64_alat_write_end_def ia64_alat_write_finish_def ia64_alat_write_take_token_def
        loaded_table_fields quiet)
  have "alat_map ?s (False, 40) = Some (0x2000, 8)" by (simp add: alat_map_publish)
  moreover have "bytes 0x2004 4 \<inter> bytes 0x2000 8 \<noteq> {}" by (auto simp: bytes_def)
  ultimately have "without_overlap (bytes 0x2004 4) (alat_map ?s (False, 40)) = None" by (simp add: without_overlap_def)
  with write_end_no_overlap [OF inv _ _ r, of "0x2004"] have "alat_map ?t (False, 40) = None" by auto
  then show ?thesis using r by blast
qed

section \<open>The interface the register windows rely on\<close>

text \<open>
  What a change of register window needs of the table: dropping a range of registers removes
  exactly the entries of that range.
\<close>

locale advanced_load_table =
  fixes table_ok :: "'t \<Rightarrow> bool"
    and lookup :: "'t \<Rightarrow> bool \<times> nat \<Rightarrow> (u64 \<times> u8) option"
    and drop_regs :: "nat \<Rightarrow> nat \<Rightarrow> bool \<Rightarrow> 't \<Rightarrow> 't"
  assumes drop_ok: "table_ok t \<Longrightarrow> table_ok (drop_regs lo hi fp t)"
    and drop_lookup: "table_ok t \<Longrightarrow> lookup (drop_regs lo hi fp t) (f, r) =
      (if f = fp \<and> lo \<le> r \<and> r < hi then None else lookup t (f, r))"
begin

lemma window_change_forgets:
  "table_ok t \<Longrightarrow> 32 \<le> r \<Longrightarrow> r < 128 \<Longrightarrow> lookup (drop_regs 32 128 fp t) (fp, r) = None"
  by (simp add: drop_lookup)

lemma window_change_keeps:
  "table_ok t \<Longrightarrow> r < 32 \<or> f \<noteq> fp \<Longrightarrow> lookup (drop_regs 32 128 fp t) (f, r) = lookup t (f, r)"
  by (auto simp: drop_lookup)

lemma window_changes_idem:
  "table_ok t \<Longrightarrow> lookup (drop_regs lo hi fp (drop_regs lo hi fp t)) = lookup (drop_regs lo hi fp t)"
  by (rule ext) (auto simp: drop_lookup drop_ok)

end

interpretation alat_table: advanced_load_table alat_wf alat_map ia64_invalidate_alat_reg_range
  by unfold_locales (simp_all add: alat_wf_reg_range alat_map_reg_range)

end
