(* ===== verification/Cpu_State.thy ===== *)
theory Cpu_State
  imports Bit_Ranges Rse_Rnat Alat
begin

text \<open>
  The part of \<^verbatim>\<open>CPUArchState\<close> (\<^verbatim>\<open>target/ia64/cpu.h\<close>, \<^verbatim>\<open>internals.h\<close>) that the components
  share: the register files, the register stack engine, the ALAT, the system registers and the interruption state, with
  the parameters of the processor models and the field accessors of the frame marker, \<^verbatim>\<open>AR.PFS\<close> and \<^verbatim>\<open>PSR\<close>.
\<close>

section \<open>State\<close>

text \<open>\<^verbatim>\<open>IA64FPState\<close>: the register-format arrays and the lazy rotation view.\<close>

record fp_state =
  fr :: "nat \<Rightarrow> u64"
  fr_nat :: bits2
  fr_sig :: bits2
  fr_ext_mant :: "nat \<Rightarrow> u64"
  fr_ext_exp :: "nat \<Rightarrow> u32"
  fr_ext_sign :: bits2
  fr_ext_valid :: bits2
  fr_int_value :: "nat \<Rightarrow> u64"
  fr_int_origin :: bits2
  rotating_fr_live :: bool
  rotating_fr_materialized_rrb :: nat

text \<open>\<^verbatim>\<open>IA64Exception\<close>.\<close>

datatype ia64_exception =
  IA64_EXCP_NONE | IA64_EXCP_BREAK | IA64_EXCP_ILLEGAL | IA64_EXCP_RESERVED_TEMPLATE | IA64_EXCP_VHPT_FAULT
  | IA64_EXCP_ITLB_FAULT | IA64_EXCP_DTLB_FAULT | IA64_EXCP_ALT_ITLB | IA64_EXCP_ALT_DTLB
  | IA64_EXCP_DATA_NESTED_TLB | IA64_EXCP_DATA_ACCESS | IA64_EXCP_GENERAL | IA64_EXCP_NAT_CONSUMPTION
  | IA64_EXCP_EXTINT | IA64_EXCP_UNALIGNED | IA64_EXCP_PAGE_NOT_PRESENT | IA64_EXCP_INST_ACCESS
  | IA64_EXCP_DATA_DIRTY | IA64_EXCP_INST_ACCESS_BIT | IA64_EXCP_DATA_ACCESS_BIT | IA64_EXCP_INST_KEY_MISS
  | IA64_EXCP_DATA_KEY_MISS | IA64_EXCP_KEY_PERMISSION | IA64_EXCP_UNIMPL_DATA_ADDR
  | IA64_EXCP_UNIMPL_INST_ADDR | IA64_EXCP_PRIVILEGED_OP | IA64_EXCP_PRIVILEGED_REG
  | IA64_EXCP_RESERVED_REG_FIELD | IA64_EXCP_FP_FAULT | IA64_EXCP_FP_TRAP
  | IA64_EXCP_DISABLED_ISA_TRANSITION | IA64_EXCP_DISABLED_FP | IA64_EXCP_UNSUPPORTED_DATA_REFERENCE
  | IA64_EXCP_VIRTUALIZATION | IA64_EXCP_IA32_EXCEPTION | IA64_EXCP_IA32_INTERCEPT
  | IA64_EXCP_IA32_INTERRUPT | IA64_EXCP_TAKEN_BRANCH | IA64_EXCP_SINGLE_STEP | IA64_EXCP_DEBUG
  | IA64_EXCP_LOWER_PRIVILEGE

text \<open>\<^verbatim>\<open>IA64ExceptionState\<close>, without the list of pages whose access checks were suppressed.\<close>

record exception_state =
  fault_ip :: u64
  fault_addr :: u64
  fault_imm :: u64
  exception :: ia64_exception
  fault_exception :: ia64_exception
  fault_slot :: nat
  ia32_trap :: bool
  ia32_transition_trap :: bool
  native_completion_trap :: bool
  psr_before_insn :: u64
  psr_ic_inflight :: bool
  psr_i_deferred :: bool
  psr_suppression_before_insn :: u64

text \<open>\<^verbatim>\<open>IA64InterruptState\<close>; \<open>itm_timer\<close> is the deadline of the host timer of the CPU, when it runs.\<close>

record interrupt_state =
  pending_extint :: nat
  sapic_xtp :: u8
  sapic_pmi_pending :: u16
  sapic_init_pending :: bool
  sapic_init_reason :: u8
  pal_halt_wake :: bool
  sapic_irr :: "nat \<Rightarrow> u64"
  sapic_isr :: "nat \<Rightarrow> u64"
  itc_last_ns :: int
  itc_fraction :: u32
  itc_tick_debt :: u64
  itm_armed_value :: u64
  itm_last_match :: u64
  itm_armed :: bool
  itm_last_match_valid :: bool
  itm_timer :: "int option"

text \<open>The guest-visible processor model data of \<^verbatim>\<open>IA64CPUClass\<close> that the operations here consult.\<close>

datatype ia64_cpu_model = IA64_CPU_MODEL_MERCED | IA64_CPU_MODEL_MADISON | IA64_CPU_MODEL_MONTECITO

record cpu_class =
  model :: ia64_cpu_model
  cpuid_version :: u64
  cpuid_features :: u64
  itc_frequency_hz :: u32
  insertable_page_size_mask :: u64
  phys_addr_bits :: nat
  impl_va_msb :: nat
  rid_bits :: nat
  key_bits :: nat
  perf_counter_width :: nat
  implemented_pmc_mask :: u64
  implemented_pmd_mask :: u64
  rse_has_clean_partition :: bool
  has_native_ia32 :: bool
  has_virtualization :: bool

text \<open>The three base models, in the fields that the class record has.\<close>

definition ia64_cpu_model_merced :: cpu_class where
  "ia64_cpu_model_merced = \<lparr>model = IA64_CPU_MODEL_MERCED, cpuid_version = 0x7000804, cpuid_features = 0, itc_frequency_hz = 800000000,
     insertable_page_size_mask = 0x15557000, phys_addr_bits = 44, impl_va_msb = 50, rid_bits = 18, key_bits = 21,
     perf_counter_width = 32, implemented_pmc_mask = 0x3fff, implemented_pmd_mask = 0x3ffff,
     rse_has_clean_partition = False, has_native_ia32 = True, has_virtualization = False\<rparr>"

definition ia64_cpu_model_madison :: cpu_class where
  "ia64_cpu_model_madison = \<lparr>model = IA64_CPU_MODEL_MADISON, cpuid_version = 0x1f010504, cpuid_features = 1, itc_frequency_hz = 1600000000,
     insertable_page_size_mask = 0x155557000, phys_addr_bits = 50, impl_va_msb = 60, rid_bits = 24, key_bits = 24,
     perf_counter_width = 48, implemented_pmc_mask = 0x3fff, implemented_pmd_mask = 0x3ffff,
     rse_has_clean_partition = False, has_native_ia32 = True, has_virtualization = False\<rparr>"

definition ia64_cpu_model_montecito :: cpu_class where
  "ia64_cpu_model_montecito = \<lparr>model = IA64_CPU_MODEL_MONTECITO, cpuid_version = 0x20000704, cpuid_features = 5, itc_frequency_hz = 400000000,
     insertable_page_size_mask = 0x155557000, phys_addr_bits = 50, impl_va_msb = 60, rid_bits = 24, key_bits = 24,
     perf_counter_width = 48, implemented_pmc_mask = 0x3fff, implemented_pmd_mask = 0x3ffff,
     rse_has_clean_partition = False, has_native_ia32 = False, has_virtualization = True\<rparr>"

text \<open>
  \<^verbatim>\<open>CPUArchState\<close> with \<^verbatim>\<open>IA64RSEState\<close> inlined; the NaT collection latches are the component
  \<open>rnat\<close>, \<^verbatim>\<open>AR.RNAT\<close> included.  The partition counters are C \<^verbatim>\<open>int32_t\<close> values that stay within
  a few hundred of zero; the frame marker fields are \<^verbatim>\<open>uint8_t\<close>.  The application and control
  registers that an operation here names have a field of their own, as they have a macro of their
  own in \<^verbatim>\<open>cpu.h\<close>; \<open>ar\<close> and \<open>cr\<close> hold the others.  \<open>interrupt_hard\<close>,
  \<open>halted\<close> and \<open>exception_index\<close> are the \<^verbatim>\<open>CPU_INTERRUPT_HARD\<close> request, the halt flag and the pending
  exception of the generic CPU object.  \<open>mem\<close> is the backing store
  seen through the RSE's translation, one little-endian doubleword per aligned address.
\<close>

record env =
  gr :: "nat \<Rightarrow> u64"
  nat_bits :: bits2
  pr :: "nat \<Rightarrow> u64"
  br :: "nat \<Rightarrow> u64"
  ip :: u64
  psr :: u64
  last_successful_bundle :: u64
  banked_gr :: "nat \<Rightarrow> u64"
  banked_nat :: u16
  exception_st :: exception_state
  intr :: interrupt_state
  interrupt_hard :: bool
  halted :: bool
  exception_index :: ia64_exception
  pal_mca_pending :: bool
  pal_cmc_pending :: bool
  pal_pmi_entry :: u64
  instruction_group_start :: bool
  msr :: "nat \<Rightarrow> u64"
  pmc :: "nat \<Rightarrow> u64"
  pmd :: "nat \<Rightarrow> u64"
  pkr :: "nat \<Rightarrow> u64"
  dbr :: "nat \<Rightarrow> u64"
  ibr :: "nat \<Rightarrow> u64"
  rr :: "nat \<Rightarrow> u64"
  cr :: "nat \<Rightarrow> u64"
  ar :: "nat \<Rightarrow> u64"
  cr_ipsr :: u64
  cr_iip :: u64
  cr_ifs :: u64
  cr_isr :: u64
  ar_rsc :: u64
  ar_bsp :: u64
  ar_bspstore :: u64
  ar_pfs :: u64
  ar_lc :: u64
  ar_ec :: u64
  dahr :: "nat \<Rightarrow> u64"
  cfm_sof :: nat
  cfm_sol :: nat
  cfm_sor :: nat
  cfm_rrb_gr :: nat
  cfm_rrb_fr :: nat
  cfm_rrb_pr :: nat
  rse_pgr :: "nat \<Rightarrow> u64"
  rse_pgr_nat :: bits2
  rse_gr_dirty :: bits2
  rse_bol :: nat
  rse_dirty :: int
  rse_dirty_nat :: int
  rse_clean :: int
  rse_clean_nat :: int
  rse_invalid :: int
  rse_cfle :: bool
  rse_access :: bool
  rse_completion_pending :: bool
  rse_completion_demoted :: bool
  rse_completion_psr :: u64
  rse_completion_source_ip :: u64
  rse_completion_source_slot :: nat
  rnat :: rnat_state
  alat_st :: alat_state
  alat_write_sequence :: u64
  fp :: fp_state
  mem :: "u64 \<Rightarrow> u64"

section \<open>Field accessors\<close>

abbreviation (input) IA64_PSR_IC :: u64 where "IA64_PSR_IC \<equiv> 0x2000"
abbreviation (input) IA64_PSR_I :: u64 where "IA64_PSR_I \<equiv> 0x4000"
abbreviation (input) IA64_PSR_MC :: u64 where "IA64_PSR_MC \<equiv> 0x800000000"
abbreviation (input) IA64_PSR_RT :: u64 where "IA64_PSR_RT \<equiv> 0x8000000"
abbreviation (input) IA64_PSR_IS :: u64 where "IA64_PSR_IS \<equiv> 0x400000000"
abbreviation (input) IA64_PSR_CPL_MASK :: u64 where "IA64_PSR_CPL_MASK \<equiv> 0x300000000"
abbreviation (input) IA64_PSR_DA :: u64 where "IA64_PSR_DA \<equiv> 0x4000000000"
abbreviation (input) IA64_PSR_DD :: u64 where "IA64_PSR_DD \<equiv> 0x8000000000"
abbreviation (input) IA64_PSR_UP :: u64 where "IA64_PSR_UP \<equiv> 0x4"
abbreviation (input) IA64_PSR_MFL :: u64 where "IA64_PSR_MFL \<equiv> 0x10"
abbreviation (input) IA64_PSR_MFH :: u64 where "IA64_PSR_MFH \<equiv> 0x20"
abbreviation (input) IA64_PSR_BE :: u64 where "IA64_PSR_BE \<equiv> 0x2"
abbreviation (input) IA64_PSR_PK :: u64 where "IA64_PSR_PK \<equiv> 0x8000"
abbreviation (input) IA64_PSR_DT :: u64 where "IA64_PSR_DT \<equiv> 0x20000"
abbreviation (input) IA64_PSR_SP :: u64 where "IA64_PSR_SP \<equiv> 0x100000"
abbreviation (input) IA64_PSR_PP :: u64 where "IA64_PSR_PP \<equiv> 0x200000"
abbreviation (input) IA64_PSR_DI :: u64 where "IA64_PSR_DI \<equiv> 0x400000"
abbreviation (input) IA64_PSR_SI :: u64 where "IA64_PSR_SI \<equiv> 0x800000"
abbreviation (input) IA64_PSR_DB :: u64 where "IA64_PSR_DB \<equiv> 0x1000000"
abbreviation (input) IA64_PSR_LP :: u64 where "IA64_PSR_LP \<equiv> 0x2000000"
abbreviation (input) IA64_PSR_TB :: u64 where "IA64_PSR_TB \<equiv> 0x4000000"
abbreviation (input) IA64_PSR_IT :: u64 where "IA64_PSR_IT \<equiv> 0x1000000000"
abbreviation (input) IA64_PSR_ID :: u64 where "IA64_PSR_ID \<equiv> 0x2000000000"
abbreviation (input) IA64_PSR_SS :: u64 where "IA64_PSR_SS \<equiv> 0x10000000000"
abbreviation (input) IA64_PSR_ED :: u64 where "IA64_PSR_ED \<equiv> 0x80000000000"
abbreviation (input) IA64_PSR_BN :: u64 where "IA64_PSR_BN \<equiv> 0x100000000000"
abbreviation (input) IA64_PSR_IA :: u64 where "IA64_PSR_IA \<equiv> 0x200000000000"
abbreviation (input) IA64_PSR_VM :: u64 where "IA64_PSR_VM \<equiv> 0x400000000000"
abbreviation (input) IA64_PSR_RI_MASK :: u64 where "IA64_PSR_RI_MASK \<equiv> 0x60000000000"

definition ia64_ip_bundle_addr :: "u64 \<Rightarrow> u64" where
  "ia64_ip_bundle_addr a = a AND NOT 15"

definition ia64_psr_cpl :: "u64 \<Rightarrow> nat" where
  "ia64_psr_cpl p = unat (drop_bit 32 (p AND IA64_PSR_CPL_MASK))"

definition ia64_cfm_frame_fields_valid :: "nat \<Rightarrow> nat \<Rightarrow> nat \<Rightarrow> bool" where
  "ia64_cfm_frame_fields_valid sof sol sor \<longleftrightarrow> sof \<le> 96 \<and> sol \<le> sof \<and> 8 * sor \<le> sof"

definition ia64_rse_current_cfm :: "env \<Rightarrow> u64" where
  "ia64_rse_current_cfm e =
     of_nat (cfm_sof e) OR push_bit 7 (of_nat (cfm_sol e)) OR push_bit 14 (of_nat (cfm_sor e)) OR
     push_bit 18 (of_nat (cfm_rrb_gr e)) OR push_bit 25 (of_nat (cfm_rrb_fr e)) OR
     push_bit 32 (of_nat (cfm_rrb_pr e))"

definition ia64_rse_current_pfs :: "env \<Rightarrow> u64" where
  "ia64_rse_current_pfs e =
     ia64_rse_current_cfm e OR push_bit 52 (ar_ec e AND 0x3f) OR push_bit 62 (of_nat (ia64_psr_cpl (psr e)))"

definition ia64_gr_nat_get :: "env \<Rightarrow> nat \<Rightarrow> bool" where
  "ia64_gr_nat_get e reg = (if reg = 0 then False else bits2_get (nat_bits e) reg)"

definition ia64_gr_nat_set :: "nat \<Rightarrow> bool \<Rightarrow> env \<Rightarrow> env" where
  "ia64_gr_nat_set reg n e = (if reg = 0 then e else e\<lparr>nat_bits := bits2_set (nat_bits e) reg n\<rparr>)"

definition ia64_rse_mark_gr_dirty :: "nat \<Rightarrow> env \<Rightarrow> env" where
  "ia64_rse_mark_gr_dirty reg e =
     (if 32 \<le> reg \<and> reg < 128 then e\<lparr>rse_gr_dirty := bits2_set (rse_gr_dirty e) (reg - 32) True\<rparr> else e)"

section \<open>Reset\<close>

definition ia64_cpu_set_architectural_reset_rse :: "env \<Rightarrow> env" where
  "ia64_cpu_set_architectural_reset_rse e =
     e\<lparr>cfm_sof := 96, cfm_sol := 0, cfm_sor := 0, cfm_rrb_gr := 0, cfm_rrb_fr := 0, cfm_rrb_pr := 0,
       rse_bol := 0, rse_dirty := 0, rse_dirty_nat := 0, rse_clean := 0, rse_clean_nat := 0, rse_invalid := 0\<rparr>"

definition ia64_cpu_set_boot_handoff_rse :: "env \<Rightarrow> env" where
  "ia64_cpu_set_boot_handoff_rse e =
     e\<lparr>cfm_sof := 0, cfm_sol := 0, cfm_sor := 0, cfm_rrb_gr := 0, cfm_rrb_fr := 0, cfm_rrb_pr := 0,
       rse_bol := 0, rse_dirty := 0, rse_dirty_nat := 0, rse_clean := 0, rse_clean_nat := 0, rse_invalid := 96\<rparr>"

text \<open>The zeroed structures that a processor reset starts from, over an arbitrary memory.\<close>

definition rnat_state_zero :: rnat_state where
  "rnat_state_zero = \<lparr>ar_rnat = 0, rse_rnat_addr = 0, rse_rnat_defined = 0, rse_load_rnat = 0,
     rse_load_rnat_addr = 0, rse_load_rnat_defined = 0, rse_load_rnat_valid = False,
     rse_writeback_rnat = rnat_entry_zero, rse_rnat_shadow = (\<lambda>_. rnat_entry_zero),
     rse_rnat_shadow_count = 0, rse_rnat_shadow_last = 0\<rparr>"

definition fp_state_zero :: fp_state where
  "fp_state_zero = \<lparr>fr = (\<lambda>_. 0), fr_nat = (0, 0), fr_sig = (0, 0), fr_ext_mant = (\<lambda>_. 0),
     fr_ext_exp = (\<lambda>_. 0), fr_ext_sign = (0, 0), fr_ext_valid = (0, 0), fr_int_value = (\<lambda>_. 0),
     fr_int_origin = (0, 0), rotating_fr_live = False, rotating_fr_materialized_rrb = 0\<rparr>"

definition exception_state_zero :: exception_state where
  "exception_state_zero = \<lparr>fault_ip = 0, fault_addr = 0, fault_imm = 0, exception = IA64_EXCP_NONE,
     fault_exception = IA64_EXCP_NONE, fault_slot = 0, ia32_trap = False, ia32_transition_trap = False,
     native_completion_trap = False, psr_before_insn = 0, psr_ic_inflight = False, psr_i_deferred = False,
     psr_suppression_before_insn = 0\<rparr>"

definition interrupt_state_zero :: interrupt_state where
  "interrupt_state_zero = \<lparr>pending_extint = 0, sapic_xtp = 0, sapic_pmi_pending = 0, sapic_init_pending = False,
     sapic_init_reason = 0, pal_halt_wake = False, sapic_irr = (\<lambda>_. 0), sapic_isr = (\<lambda>_. 0), itc_last_ns = 0,
     itc_fraction = 0, itc_tick_debt = 0, itm_armed_value = 0, itm_last_match = 0, itm_armed = False,
     itm_last_match_valid = False, itm_timer = None\<rparr>"

definition env_zero :: "bool \<Rightarrow> (u64 \<Rightarrow> u64) \<Rightarrow> env" where
  "env_zero full m = \<lparr>gr = (\<lambda>_. 0), nat_bits = (0, 0), pr = (\<lambda>_. 0), br = (\<lambda>_. 0), ip = 0, psr = 0,
     last_successful_bundle = 0, banked_gr = (\<lambda>_. 0), banked_nat = 0, exception_st = exception_state_zero,
     intr = interrupt_state_zero, interrupt_hard = False, halted = False, exception_index = IA64_EXCP_NONE,
     pal_mca_pending = False, pal_cmc_pending = False, pal_pmi_entry = 0, instruction_group_start = False,
     msr = (\<lambda>_. 0), pmc = (\<lambda>_. 0), pmd = (\<lambda>_. 0), pkr = (\<lambda>_. 0), dbr = (\<lambda>_. 0), ibr = (\<lambda>_. 0),
     rr = (\<lambda>_. 0), cr = (\<lambda>_. 0), ar = (\<lambda>_. 0), cr_ipsr = 0, cr_iip = 0, cr_ifs = 0, cr_isr = 0, ar_rsc = 0, ar_bsp = 0,
     ar_bspstore = 0, ar_pfs = 0, ar_lc = 0, ar_ec = 0, dahr = (\<lambda>_. 0), cfm_sof = 0, cfm_sol = 0, cfm_sor = 0,
     cfm_rrb_gr = 0, cfm_rrb_fr = 0, cfm_rrb_pr = 0, rse_pgr = (\<lambda>_. 0), rse_pgr_nat = (0, 0),
     rse_gr_dirty = (0, 0), rse_bol = 0, rse_dirty = 0, rse_dirty_nat = 0, rse_clean = 0, rse_clean_nat = 0,
     rse_invalid = 0, rse_cfle = False, rse_access = False, rse_completion_pending = False,
     rse_completion_demoted = False, rse_completion_psr = 0, rse_completion_source_ip = 0,
     rse_completion_source_slot = 0, rnat = rnat_state_zero, alat_st = alat_reset full,
     alat_write_sequence = 0, fp = fp_state_zero, mem = m\<rparr>"

end
