(* ===== verification/Rotation.thy ===== *)
theory Rotation
  imports Cpu_State
begin

text \<open>
  Rotation of the predicate registers (\<^verbatim>\<open>target/ia64/arch/system.c\<close>) and of the floating-point
  registers (\<^verbatim>\<open>target/ia64/arch/fp.c\<close>).  The arrays hold the logical view under the current
  rotation base; the theorems show that a change of the base never moves a physical register,
  and that the packed predicate image read and written by \<^verbatim>\<open>mov pr\<close> is the physical one.
\<close>

section \<open>Predicate registers\<close>

definition ia64_normalize_rrb_pr :: "nat \<Rightarrow> nat" where
  "ia64_normalize_rrb_pr rrb = (if rrb \<ge> 48 then rrb mod 48 else rrb)"

abbreviation pr_rotating_mask :: u64 where
  "pr_rotating_mask \<equiv> 0xFFFFFFFFFFFF"

definition ia64_rotl_pr :: "u64 \<Rightarrow> nat \<Rightarrow> u64" where
  "ia64_rotl_pr value0 shift =
     (let value = value0 AND pr_rotating_mask in
      if shift = 0 then value
      else (push_bit shift value OR drop_bit (48 - shift) value) AND pr_rotating_mask)"

definition ia64_rotr_pr :: "u64 \<Rightarrow> nat \<Rightarrow> u64" where
  "ia64_rotr_pr value0 shift =
     (let value = value0 AND pr_rotating_mask in
      if shift = 0 then value
      else (drop_bit shift value OR push_bit (48 - shift) value) AND pr_rotating_mask)"

definition ia64_pack_pr_bit :: "(nat \<Rightarrow> u64) \<Rightarrow> nat \<Rightarrow> nat \<Rightarrow> u64" where
  "ia64_pack_pr_bit p base b = push_bit b (p (base + b) AND 1)"

definition ia64_pack_pr8 :: "(nat \<Rightarrow> u64) \<Rightarrow> nat \<Rightarrow> u64" where
  "ia64_pack_pr8 p base =
     ia64_pack_pr_bit p base 0 OR ia64_pack_pr_bit p base 1 OR
     ia64_pack_pr_bit p base 2 OR ia64_pack_pr_bit p base 3 OR
     ia64_pack_pr_bit p base 4 OR ia64_pack_pr_bit p base 5 OR
     ia64_pack_pr_bit p base 6 OR ia64_pack_pr_bit p base 7"

definition ia64_unpack_pr_bit :: "nat \<Rightarrow> u64 \<Rightarrow> nat \<Rightarrow> (nat \<Rightarrow> u64) \<Rightarrow> nat \<Rightarrow> u64" where
  "ia64_unpack_pr_bit base value b p = p(base + b := drop_bit b value AND 1)"

definition ia64_unpack_pr8 :: "nat \<Rightarrow> u64 \<Rightarrow> (nat \<Rightarrow> u64) \<Rightarrow> nat \<Rightarrow> u64" where
  "ia64_unpack_pr8 base value p =
     ia64_unpack_pr_bit base value 7 (ia64_unpack_pr_bit base value 6
     (ia64_unpack_pr_bit base value 5 (ia64_unpack_pr_bit base value 4
     (ia64_unpack_pr_bit base value 3 (ia64_unpack_pr_bit base value 2
     (ia64_unpack_pr_bit base value 1 (ia64_unpack_pr_bit base value 0 p)))))))"

definition ia64_system_read_pr :: "env \<Rightarrow> u64" where
  "ia64_system_read_pr e =
     (let rrb = ia64_normalize_rrb_pr (cfm_rrb_pr e);
          value = (ia64_pack_pr8 (pr e) 0 OR 1) OR push_bit 8 (ia64_pack_pr8 (pr e) 8);
          rotating = ia64_pack_pr8 (pr e) 16 OR push_bit 8 (ia64_pack_pr8 (pr e) 24) OR
            push_bit 16 (ia64_pack_pr8 (pr e) 32) OR push_bit 24 (ia64_pack_pr8 (pr e) 40) OR
            push_bit 32 (ia64_pack_pr8 (pr e) 48) OR push_bit 40 (ia64_pack_pr8 (pr e) 56)
      in value OR push_bit 16 (ia64_rotl_pr rotating rrb))"

definition ia64_set_cfm_rrb_pr_slow :: "nat \<Rightarrow> nat \<Rightarrow> env \<Rightarrow> env" where
  "ia64_set_cfm_rrb_pr_slow new_rrb0 old_rrb0 e =
     (let old_rrb = (if old_rrb0 \<ge> 48 then old_rrb0 mod 48 else old_rrb0);
          new_rrb = (if new_rrb0 \<ge> 48 then new_rrb0 mod 48 else new_rrb0)
      in if new_rrb = old_rrb then e\<lparr>cfm_rrb_pr := new_rrb\<rparr>
         else
           let shift = (if new_rrb \<ge> old_rrb then new_rrb - old_rrb else new_rrb + 48 - old_rrb);
               old_pr = pr e;
               moved =
                 (if shift = 1 then (copy_range old_pr 16 old_pr 17 47)(63 := old_pr 16)
                  else if shift = 47 then (copy_range old_pr 17 old_pr 16 47)(16 := old_pr 63)
                  else copy_range (copy_range old_pr 16 old_pr (16 + shift) (48 - shift))
                         (16 + (48 - shift)) old_pr 16 shift)
           in e\<lparr>pr := moved(0 := 1), cfm_rrb_pr := new_rrb\<rparr>)"

definition ia64_set_cfm_rrb_pr :: "nat \<Rightarrow> env \<Rightarrow> env" where
  "ia64_set_cfm_rrb_pr new_rrb e =
     (let old_rrb = cfm_rrb_pr e in
      if new_rrb = old_rrb \<and> new_rrb < 48 then e
      else ia64_set_cfm_rrb_pr_slow new_rrb old_rrb e)"

definition ia64_rotate_cfm_rrb_pr_right :: "env \<Rightarrow> env" where
  "ia64_rotate_cfm_rrb_pr_right e =
     (let last_pr = pr e 63;
          moved = (copy_range (pr e) 17 (pr e) 16 47)(16 := last_pr);
          old_rrb = ia64_normalize_rrb_pr (cfm_rrb_pr e)
      in e\<lparr>pr := moved(0 := 1), cfm_rrb_pr := (if old_rrb \<noteq> 0 then old_rrb - 1 else 47)\<rparr>)"

definition ia64_system_write_pr :: "u64 \<Rightarrow> u64 \<Rightarrow> env \<Rightarrow> env" where
  "ia64_system_write_pr value msk e =
     (let nonrotating_mask = msk AND 0xfffe;
          rrb = ia64_normalize_rrb_pr (cfm_rrb_pr e);
          pr1 = (if nonrotating_mask = 0xfffe
                 then ia64_unpack_pr8 8 (drop_bit 8 value) (ia64_unpack_pr8 0 value (pr e))
                 else scan_bits (\<lambda>logical p. p(logical := drop_bit logical value AND 1)) nonrotating_mask (pr e));
          rotating_mask = ia64_rotr_pr (drop_bit 16 msk) rrb;
          rotating_value = ia64_rotr_pr (drop_bit 16 value) rrb;
          pr2 = (if rotating_mask = pr_rotating_mask
                 then ia64_unpack_pr8 56 (drop_bit 40 rotating_value)
                     (ia64_unpack_pr8 48 (drop_bit 32 rotating_value)
                     (ia64_unpack_pr8 40 (drop_bit 24 rotating_value)
                     (ia64_unpack_pr8 32 (drop_bit 16 rotating_value)
                     (ia64_unpack_pr8 24 (drop_bit 8 rotating_value)
                     (ia64_unpack_pr8 16 rotating_value pr1)))))
                 else scan_bits (\<lambda>logical p. p(16 + logical := drop_bit logical rotating_value AND 1))
                        rotating_mask pr1)
      in e\<lparr>pr := pr2(0 := 1)\<rparr>)"

section \<open>Floating-point registers\<close>

definition ia64_rebase_rotating_fr_u64 :: "(nat \<Rightarrow> u64) \<Rightarrow> nat \<Rightarrow> nat \<Rightarrow> u64" where
  "ia64_rebase_rotating_fr_u64 values shift =
     (if shift = 1 then (copy_range values 32 values 33 95)(127 := values 32)
      else if shift = 95 then (copy_range values 33 values 32 95)(32 := values 127)
      else
        let tmp = (\<lambda>i. values (32 + (i + shift) mod 96))
        in copy_range values 32 tmp 0 96)"

definition ia64_rebase_rotating_fr_u32 :: "(nat \<Rightarrow> u32) \<Rightarrow> nat \<Rightarrow> nat \<Rightarrow> u32" where
  "ia64_rebase_rotating_fr_u32 values shift =
     (if shift = 1 then (copy_range values 32 values 33 95)(127 := values 32)
      else if shift = 95 then (copy_range values 33 values 32 95)(32 := values 127)
      else
        let tmp = (\<lambda>i. values (32 + (i + shift) mod 96))
        in copy_range values 32 tmp 0 96)"

definition ia64_rebase_rotating_fr_bits :: "bits2 \<Rightarrow> nat \<Rightarrow> bits2" where
  "ia64_rebase_rotating_fr_bits bits shift =
     (let low_nonrotating = fst bits AND 0xFFFFFFFF;
          rotating = push_bit 32 (ucast (snd bits) :: 128 word) OR ucast (drop_bit 32 (fst bits));
          rotated = (drop_bit shift rotating OR push_bit (96 - shift) rotating) AND (push_bit 96 1 - 1)
      in (low_nonrotating OR ucast (push_bit 32 rotated), ucast (drop_bit 32 rotated)))"

definition ia64_rebase_rotating_fr :: "nat \<Rightarrow> fp_state \<Rightarrow> fp_state" where
  "ia64_rebase_rotating_fr shift f =
     (let word0_mask = push_bit 32 (- 1);
          has_ext = fst (fr_ext_valid f) AND word0_mask \<noteq> 0 \<or> snd (fr_ext_valid f) \<noteq> 0;
          has_int = fst (fr_int_origin f) AND word0_mask \<noteq> 0 \<or> snd (fr_int_origin f) \<noteq> 0;
          nat' = ia64_rebase_rotating_fr_bits (fr_nat f) shift;
          sig' = ia64_rebase_rotating_fr_bits (fr_sig f) shift
      in f\<lparr>fr := ia64_rebase_rotating_fr_u64 (fr f) shift,
           fr_int_value := (if has_int then ia64_rebase_rotating_fr_u64 (fr_int_value f) shift else fr_int_value f),
           fr_ext_mant := (if has_ext then ia64_rebase_rotating_fr_u64 (fr_ext_mant f) shift else fr_ext_mant f),
           fr_ext_exp := (if has_ext then ia64_rebase_rotating_fr_u32 (fr_ext_exp f) shift else fr_ext_exp f),
           fr_nat := nat',
           fr_sig := (fst sig' AND NOT (fst nat' AND word0_mask), snd sig' AND NOT (snd nat')),
           fr_ext_sign := ia64_rebase_rotating_fr_bits (fr_ext_sign f) shift,
           fr_ext_valid := ia64_rebase_rotating_fr_bits (fr_ext_valid f) shift,
           fr_int_origin := ia64_rebase_rotating_fr_bits (fr_int_origin f) shift\<rparr>)"

definition ia64_sync_rotating_fr :: "env \<Rightarrow> env" where
  "ia64_sync_rotating_fr e =
     (let new_rrb = cfm_rrb_fr e;
          old_rrb = rotating_fr_materialized_rrb (fp e);
          f1 = (if new_rrb \<noteq> old_rrb \<and> rotating_fr_live (fp e)
                then ia64_rebase_rotating_fr
                       (if new_rrb \<ge> old_rrb then new_rrb - old_rrb else new_rrb + 96 - old_rrb) (fp e)
                else fp e)
      in e\<lparr>fp := f1\<lparr>rotating_fr_materialized_rrb := new_rrb\<rparr>\<rparr>)"

definition ia64_set_cfm_rrb_fr :: "nat \<Rightarrow> env \<Rightarrow> env" where
  "ia64_set_cfm_rrb_fr new_rrb0 e =
     (let old_rrb = cfm_rrb_fr e;
          new_rrb = (if new_rrb0 \<ge> 96 then new_rrb0 mod 96 else new_rrb0)
      in if new_rrb = old_rrb then e
         else
           let e1 = e\<lparr>cfm_rrb_fr := new_rrb\<rparr>
           in if \<not> rotating_fr_live (fp e)
              then e1\<lparr>fp := (fp e1)\<lparr>rotating_fr_materialized_rrb := new_rrb\<rparr>\<rparr>
              else e1\<lparr>alat_st := ia64_invalidate_rotating_fp_alat (alat_st e1)\<rparr>)"

section \<open>Physical predicates\<close>

text \<open>
  The physical rotating predicate \<open>p\<close>: logical predicate \<open>16 + i\<close> names physical
  \<open>(i + rrb) mod 48\<close>.
\<close>

definition phys_pr :: "env \<Rightarrow> nat \<Rightarrow> u64" where
  "phys_pr e p = pr e (16 + (p + 48 - cfm_rrb_pr e mod 48) mod 48)"

lemma normalize_rrb_pr [simp]: "ia64_normalize_rrb_pr r = r mod 48"
  by (simp add: ia64_normalize_rrb_pr_def)

lemma if_ge_mod: "(if n \<le> r then r mod n else r) = (r mod n :: nat)"
  by simp

text \<open>A shift by the difference of two bases turns one view of a ring into the other.\<close>

lemma ring_rebase:
  assumes "new < n" "old < n" "0 < (n :: nat)"
    and "s = (if old \<le> new then new - old else new + n - old)"
  shows "((p + n - new) mod n + s) mod n = (p + n - old) mod n"
proof -
  have "((p + n - new) mod n + s) mod n = (p + n - new + s) mod n" by (rule mod_add_left_eq)
  also have "\<dots> = (p + n - old) mod n"
  proof (cases "old \<le> new")
    case True
    with assms show ?thesis by simp
  next
    case False
    with assms have "p + n - new + s = (p + n - old) + n" by simp
    then show ?thesis by simp
  qed
  finally show ?thesis .
qed

text \<open>The three ways of moving the rotating predicates compute the same rotation.\<close>

lemma pr_moved:
  assumes "0 < s" "s < 48" "i < 48"
  shows "(if s = 1 then (copy_range p 16 p 17 47)(63 := p 16)
      else if s = 47 then (copy_range p 17 p 16 47)(16 := p 63)
      else copy_range (copy_range p 16 p (16 + s) (48 - s)) (16 + (48 - s)) p 16 s) (16 + i)
    = p (16 + (i + s) mod 48)"
proof -
  have m: "(i + s) mod 48 = (if i + s < 48 then i + s else i + s - 48)"
    using assms by (simp add: mod_if)
  show ?thesis
    using assms unfolding m by (auto simp: copy_range_def add.commute add.left_commute intro!: arg_cong [of _ _ p])
qed

lemma pr_moved_static:
  assumes "0 < s" "s < 48" "j < 16 \<or> 64 \<le> j"
  shows "(if s = 1 then (copy_range p 16 p 17 47)(63 := p 16)
      else if s = 47 then (copy_range p 17 p 16 47)(16 := p 63)
      else copy_range (copy_range p 16 p (16 + s) (48 - s)) (16 + (48 - s)) p 16 s) j = p j"
  using assms by (auto simp: copy_range_def)

text \<open>
  C33: Changing the predicate rotation base (\<^verbatim>\<open>clrrrb\<close>, \<^verbatim>\<open>br.ret\<close>, \<^verbatim>\<open>rfi\<close>), by whichever of the
  copy strategies the code selects, sets the normalised base and leaves every physical rotating
  predicate and every static predicate above \<open>p0\<close> where it was.
\<close>

theorem set_cfm_rrb_pr_physical:
  "cfm_rrb_pr (ia64_set_cfm_rrb_pr new_rrb e) = new_rrb mod 48 \<and>
   phys_pr (ia64_set_cfm_rrb_pr new_rrb e) p = phys_pr e p \<and>
   map (pr (ia64_set_cfm_rrb_pr new_rrb e)) [1..<16] = map (pr e) [1..<16]"
proof (cases "new_rrb = cfm_rrb_pr e \<and> new_rrb < 48")
  case True
  then show ?thesis by (simp add: ia64_set_cfm_rrb_pr_def)
next
  case False
  let ?n = "new_rrb mod 48" and ?o = "cfm_rrb_pr e mod 48"
  let ?s = "if ?n \<ge> ?o then ?n - ?o else ?n + 48 - ?o"
  have e': "ia64_set_cfm_rrb_pr new_rrb e = ia64_set_cfm_rrb_pr_slow new_rrb (cfm_rrb_pr e) e"
    unfolding ia64_set_cfm_rrb_pr_def Let_def if_not_P [OF False] ..
  show ?thesis
  proof (cases "?n = ?o")
    case True
    then show ?thesis
      unfolding e' ia64_set_cfm_rrb_pr_slow_def if_ge_mod Let_def by (simp add: phys_pr_def)
  next
    case False
    have s: "0 < ?s" "?s < 48" using False by auto
    define q where "q = ia64_set_cfm_rrb_pr_slow new_rrb (cfm_rrb_pr e) e"
    have q: "pr q = (if ?s = 1 then (copy_range (pr e) 16 (pr e) 17 47)(63 := pr e 16)
      else if ?s = 47 then (copy_range (pr e) 17 (pr e) 16 47)(16 := pr e 63)
      else copy_range (copy_range (pr e) 16 (pr e) (16 + ?s) (48 - ?s)) (16 + (48 - ?s)) (pr e) 16 ?s)(0 := 1)"
      and c: "cfm_rrb_pr q = ?n"
      unfolding q_def ia64_set_cfm_rrb_pr_slow_def if_ge_mod Let_def if_not_P [OF False] by simp_all
    have "pr q (16 + i) = pr e (16 + (i + ?s) mod 48)" if "i < 48" for i
      using pr_moved [OF s that, of "pr e"] unfolding q by simp
    then have "phys_pr q p = phys_pr e p"
      using ring_rebase [of ?n 48 ?o ?s p] by (simp add: phys_pr_def c)
    moreover have "map (pr q) [1..<16] = map (pr e) [1..<16]"
    proof (rule map_cong [OF refl])
      fix j assume "j \<in> set [1..<16]"
      then have "0 < j" "j < 16" unfolding set_upt atLeastLessThan_iff by auto
      then show "pr q j = pr e j" using pr_moved_static [OF s, of j "pr e"] unfolding q by simp
    qed
    ultimately show ?thesis unfolding e' q_def [symmetric] c by (intro conjI refl)
  qed
qed

lemma mod_pred:
  assumes "0 < (n :: nat)"
  shows "(x + (n - 1)) mod n = (if x mod n = 0 then n - 1 else x mod n - 1)"
proof -
  have "(x + (n - 1)) mod n = (x mod n + (n - 1)) mod n" by (simp add: mod_add_left_eq)
  also have "\<dots> = (if x mod n = 0 then n - 1 else x mod n - 1)"
  proof (cases "x mod n = 0")
    case False
    then have "x mod n + (n - 1) = (x mod n - 1) + n" using assms by simp
    moreover have "x mod n - 1 < n" using mod_less_divisor [OF assms, of x] by linarith
    ultimately show ?thesis using False by (simp only: mod_add_self2 mod_less if_False)
  qed (use assms in simp)
  finally show ?thesis .
qed

lemma rotate_cfm_rrb_pr_right_eq:
  assumes "0 < j"
  shows "pr (ia64_rotate_cfm_rrb_pr_right e) j = pr (ia64_set_cfm_rrb_pr (cfm_rrb_pr e + 47) e) j"
proof -
  have m: "(cfm_rrb_pr e + 47) mod 48 = (if cfm_rrb_pr e mod 48 = 0 then 47 else cfm_rrb_pr e mod 48 - 1)"
    using mod_pred [of 48 "cfm_rrb_pr e"] by simp
  have n: "\<not> (cfm_rrb_pr e + 47 = cfm_rrb_pr e \<and> cfm_rrb_pr e + 47 < 48)" by simp
  have l: "cfm_rrb_pr e mod 48 < 48" by simp
  have ne: "(cfm_rrb_pr e + 47) mod 48 \<noteq> cfm_rrb_pr e mod 48" unfolding m using l by auto
  have s: "(if cfm_rrb_pr e mod 48 \<le> (cfm_rrb_pr e + 47) mod 48
       then (cfm_rrb_pr e + 47) mod 48 - cfm_rrb_pr e mod 48
       else (cfm_rrb_pr e + 47) mod 48 + 48 - cfm_rrb_pr e mod 48) = 47"
    unfolding m using l by auto
  show ?thesis
    using assms unfolding ia64_set_cfm_rrb_pr_def Let_def if_not_P [OF n] ia64_set_cfm_rrb_pr_slow_def
      if_ge_mod if_not_P [OF ne] s by (simp add: ia64_rotate_cfm_rrb_pr_right_def Let_def)
qed

lemma rotate_cfm_rrb_pr_right_base:
  "cfm_rrb_pr (ia64_rotate_cfm_rrb_pr_right e) = (cfm_rrb_pr e + 47) mod 48"
  unfolding ia64_rotate_cfm_rrb_pr_right_def Let_def using mod_pred [of 48 "cfm_rrb_pr e"] by simp

section \<open>The packed predicate image\<close>

lemma bit_and_one: "bit (x AND 1 :: u64) i \<longleftrightarrow> i = 0 \<and> bit x 0"
  by (auto simp: bit_and_iff bit_1_iff)

lemma bit_pack_pr_bit: "b < 64 \<Longrightarrow> bit (ia64_pack_pr_bit p base b) i \<longleftrightarrow> i = b \<and> bit (p (base + b)) 0"
  unfolding ia64_pack_pr_bit_def bit_push_bit_iff bit_and_one by auto

lemma bit_pack_pr8: "bit (ia64_pack_pr8 p base) i \<longleftrightarrow> i < 8 \<and> bit (p (base + i)) 0"
proof -
  have lt: "i < 8 \<longleftrightarrow> i = 0 \<or> i = 1 \<or> i = 2 \<or> i = 3 \<or> i = 4 \<or> i = 5 \<or> i = 6 \<or> i = 7" by auto
  show ?thesis
    unfolding ia64_pack_pr8_def bit_or_iff lt by (simp add: bit_pack_pr_bit) (safe; simp)
qed

lemma bit_pack_shifted:
  "n < 56 \<Longrightarrow> bit (push_bit n (ia64_pack_pr8 p base)) i \<longleftrightarrow> n \<le> i \<and> i < n + 8 \<and> bit (p (base + (i - n))) 0"
  by (auto simp: bit_push_bit_iff bit_pack_pr8)

lemma bit_pr_rotating_mask: "bit pr_rotating_mask i \<longleftrightarrow> i < 48"
proof -
  have "pr_rotating_mask = mask 48" by (simp add: mask_eq_exp_minus_1)
  then show ?thesis by (simp only: bit_mask_iff) auto
qed

lemma bit_rotl_pr:
  assumes "s < 48"
  shows "bit (ia64_rotl_pr v s) i \<longleftrightarrow> i < 48 \<and> bit v ((i + 48 - s) mod 48)"
proof (cases "s = 0")
  case True
  show ?thesis unfolding ia64_rotl_pr_def Let_def if_P [OF True] bit_and_iff bit_pr_rotating_mask using True by auto
next
  case False
  have m: "(i + 48 - s) mod 48 = (if i < s then i + 48 - s else i - s)" if "i < 48"
    using that assms by (auto simp: mod_if)
  show ?thesis
  proof (cases "i < 48")
    case False
    then show ?thesis
      unfolding ia64_rotl_pr_def Let_def if_not_P [OF \<open>s \<noteq> 0\<close>] bit_and_iff bit_pr_rotating_mask by simp
  next
    case True
    show ?thesis
      unfolding m [OF True] ia64_rotl_pr_def Let_def if_not_P [OF \<open>s \<noteq> 0\<close>] bit_and_iff bit_or_iff
        bit_push_bit_iff bit_drop_bit_eq o_def bit_pr_rotating_mask
      using True assms by (auto simp: add.commute)
  qed
qed

lemma bit_rotr_pr:
  assumes "s < 48"
  shows "bit (ia64_rotr_pr v s) i \<longleftrightarrow> i < 48 \<and> bit v ((i + s) mod 48)"
proof (cases "s = 0")
  case True
  show ?thesis unfolding ia64_rotr_pr_def Let_def if_P [OF True] bit_and_iff bit_pr_rotating_mask using True by auto
next
  case False
  have m: "(i + s) mod 48 = (if i + s < 48 then i + s else i + s - 48)" if "i < 48"
    using that assms by (auto simp: mod_if)
  show ?thesis
  proof (cases "i < 48")
    case False
    then show ?thesis
      unfolding ia64_rotr_pr_def Let_def if_not_P [OF \<open>s \<noteq> 0\<close>] bit_and_iff bit_pr_rotating_mask by simp
  next
    case True
    show ?thesis
      unfolding m [OF True] ia64_rotr_pr_def Let_def if_not_P [OF \<open>s \<noteq> 0\<close>] bit_and_iff bit_or_iff
        bit_push_bit_iff bit_drop_bit_eq o_def bit_pr_rotating_mask
      using True assms by (auto simp: add.commute)
  qed
qed

lemma bit_packed_rotating:
  "bit (ia64_pack_pr8 p 16 OR push_bit 8 (ia64_pack_pr8 p 24) OR
     push_bit 16 (ia64_pack_pr8 p 32) OR push_bit 24 (ia64_pack_pr8 p 40) OR
     push_bit 32 (ia64_pack_pr8 p 48) OR push_bit 40 (ia64_pack_pr8 p 56)) i \<longleftrightarrow>
   i < 48 \<and> bit (p (16 + i)) 0"
proof -
  have eq: "bit (push_bit n (ia64_pack_pr8 p (16 + n))) i \<longleftrightarrow> n \<le> i \<and> i < n + 8 \<and> bit (p (16 + i)) 0"
    if "n < 56" for n
    using bit_pack_shifted [OF that, of p "16 + n" i] by auto
  have arith: "i < 48 \<longleftrightarrow> i < 8 \<or> 8 \<le> i \<and> i < 16 \<or> 16 \<le> i \<and> i < 24 \<or> 24 \<le> i \<and> i < 32 \<or>
      32 \<le> i \<and> i < 40 \<or> 40 \<le> i \<and> i < 48"
    by linarith
  show ?thesis
    unfolding bit_or_iff bit_pack_pr8 eq [of 8, simplified] eq [of 16, simplified] eq [of 24, simplified]
      eq [of 32, simplified] eq [of 40, simplified]
    using arith by blast
qed

text \<open>
  C34: \<^verbatim>\<open>mov r = pr\<close> reads the physical predicates: bit \<open>16 + p\<close> of the image is physical rotating
  predicate \<open>p\<close>, whatever the rotation base, bits 1 to 15 are the static predicates and bit 0 is set.
\<close>

theorem read_pr_physical:
  "bit (ia64_system_read_pr e) j \<longleftrightarrow>
     j = 0 \<or> j \<in> {1..<16} \<and> bit (pr e j) 0 \<or> j \<in> {16..<64} \<and> bit (phys_pr e (j - 16)) 0"
proof -
  let ?r = "cfm_rrb_pr e mod 48"
  have st: "bit ((ia64_pack_pr8 (pr e) 0 OR 1) OR push_bit 8 (ia64_pack_pr8 (pr e) 8)) j \<longleftrightarrow>
      j = 0 \<or> j < 16 \<and> bit (pr e j) 0"
    unfolding bit_or_iff bit_pack_pr8 bit_1_iff bit_pack_shifted [of 8, simplified] by auto
  have "bit (push_bit 16 (ia64_rotl_pr v ?r)) j \<longleftrightarrow> 16 \<le> j \<and> j < 64 \<and> bit v ((j - 16 + 48 - ?r) mod 48)" for v
    unfolding bit_push_bit_iff bit_rotl_pr [OF mod_less_divisor, simplified] by auto
  then show ?thesis
    unfolding ia64_system_read_pr_def Let_def normalize_rrb_pr bit_or_iff [of _ "push_bit 16 _"] st
    by (auto simp: bit_packed_rotating phys_pr_def)
qed

lemma drop_bit_and_one: "drop_bit b v AND 1 = (of_bool (bit v b) :: u64)"
  by (rule bit_word_eqI) (auto simp: bit_and_one bit_drop_bit_eq bit_of_bool_iff bit_1_iff)

lemma unpack_pr8:
  "ia64_unpack_pr8 base v p j = (if base \<le> j \<and> j < base + 8 then of_bool (bit v (j - base)) else p j)"
proof (cases "base \<le> j \<and> j < base + 8")
  case True
  then obtain k where k: "j = base + k" "k < 8" by (metis le_Suc_ex nat_add_left_cancel_less)
  from k(2) have "k = 0 \<or> k = 1 \<or> k = 2 \<or> k = 3 \<or> k = 4 \<or> k = 5 \<or> k = 6 \<or> k = 7" by auto
  then show ?thesis
    unfolding if_P [OF True] k(1) ia64_unpack_pr8_def ia64_unpack_pr_bit_def drop_bit_and_one
    by (elim disjE) simp_all
next
  case False
  then have "j \<noteq> base + 0" "j \<noteq> base + 1" "j \<noteq> base + 2" "j \<noteq> base + 3" "j \<noteq> base + 4" "j \<noteq> base + 5"
    "j \<noteq> base + 6" "j \<noteq> base + 7" by linarith+
  then show ?thesis
    unfolding if_not_P [OF False] ia64_unpack_pr8_def ia64_unpack_pr_bit_def by (simp only: fun_upd_apply if_False)
qed

lemma fold_upd:
  assumes "distinct xs" "inj f"
  shows "fold (\<lambda>l p. p(f l := g l)) xs p j = (if j \<in> f ` set xs then g (inv f j) else p j)"
  using assms by (induction xs arbitrary: p) (auto simp: inv_f_f inj_image_mem_iff)

lemma scan_upd:
  "scan_bits (\<lambda>l p. p(off + l := g l)) m p j = (if off \<le> j \<and> bit m (j - off) then g (j - off) else p j)"
proof -
  have inj: "inj (\<lambda>l. off + l :: nat)" by (simp add: inj_def)
  have mem: "j \<in> (\<lambda>l. off + l) ` set (set_bits_of m) \<longleftrightarrow> off \<le> j \<and> bit m (j - off)"
    by (auto simp: image_iff)
  have "inv (\<lambda>l. off + l) j = j - off" if "off \<le> j"
    using that by (intro inv_f_eq [OF inj]) simp
  then show ?thesis
    unfolding scan_bits_fold fold_upd [OF distinct_set_bits_of inj] mem by simp
qed

lemma write_pr_static:
  assumes "0 < j" "j < 16"
  shows "pr (ia64_system_write_pr v m e) j = (if bit m j then of_bool (bit v j) else pr e j)"
proof -
  let ?nm = "m AND 0xfffe"
  have fffe: "bit (0xfffe :: u64) j"
    using assms by (auto simp: less_Suc_eq numeral_eq_Suc)
  have nm: "bit ?nm j = bit m j" using fffe by (simp add: bit_and_iff)
  define p1 where "p1 = (if ?nm = 0xfffe
      then ia64_unpack_pr8 8 (drop_bit 8 v) (ia64_unpack_pr8 0 v (pr e))
      else scan_bits (\<lambda>logical p. p(logical := drop_bit logical v AND 1)) ?nm (pr e))"
  have p1: "p1 j = (if bit m j then of_bool (bit v j) else pr e j)"
  proof (cases "?nm = 0xfffe")
    case True
    then have "bit m j" using nm fffe by simp
    with True assms show ?thesis by (simp add: p1_def unpack_pr8 bit_drop_bit_eq)
  next
    case False
    show ?thesis
      unfolding p1_def if_not_P [OF False] using scan_upd [of 0 "\<lambda>l. drop_bit l v AND 1" ?nm "pr e" j]
      by (simp add: nm drop_bit_and_one)
  qed
  show ?thesis
    unfolding ia64_system_write_pr_def Let_def p1_def [symmetric]
    using assms p1 by (simp add: unpack_pr8 scan_upd)
qed

lemma write_pr_rotating:
  fixes e :: env
  assumes "i < 48"
  defines "k \<equiv> 16 + (i + cfm_rrb_pr e mod 48) mod 48"
  shows "pr (ia64_system_write_pr v m e) (16 + i) = (if bit m k then of_bool (bit v k) else pr e (16 + i))"
proof -
  let ?r = "cfm_rrb_pr e mod 48"
  let ?rm = "ia64_rotr_pr (drop_bit 16 m) ?r" and ?rv = "ia64_rotr_pr (drop_bit 16 v) ?r"
  have r: "?r < 48" by simp
  have rm: "bit ?rm i = bit m k" and rv: "bit ?rv i = bit v k"
    using assms(1) unfolding k_def bit_rotr_pr [OF r] bit_drop_bit_eq o_def by simp_all
  define p1 where "p1 = (if m AND 0xfffe = 0xfffe
      then ia64_unpack_pr8 8 (drop_bit 8 v) (ia64_unpack_pr8 0 v (pr e))
      else scan_bits (\<lambda>logical p. p(logical := drop_bit logical v AND 1)) (m AND 0xfffe) (pr e))"
  have p1: "p1 (16 + i) = pr e (16 + i)"
  proof (cases "m AND 0xfffe = 0xfffe")
    case True
    then show ?thesis by (simp add: p1_def unpack_pr8)
  next
    case False
    have "(0xfffe :: u64) AND mask 16 = 0xfffe" by (simp add: mask_eq_exp_minus_1)
    then have "\<not> bit (0xfffe :: u64) (16 + i)" by (metis bit_and_iff bit_mask_iff not_add_less1)
    then show ?thesis
      unfolding p1_def if_not_P [OF False]
      using scan_upd [of 0 "\<lambda>l. drop_bit l v AND 1" "m AND 0xfffe" "pr e" "16 + i"]
      by (simp add: bit_and_iff del: bit_numeral_word_iff)
  qed
  define p2 where "p2 = (if ?rm = pr_rotating_mask
      then ia64_unpack_pr8 56 (drop_bit 40 ?rv) (ia64_unpack_pr8 48 (drop_bit 32 ?rv)
          (ia64_unpack_pr8 40 (drop_bit 24 ?rv) (ia64_unpack_pr8 32 (drop_bit 16 ?rv)
          (ia64_unpack_pr8 24 (drop_bit 8 ?rv) (ia64_unpack_pr8 16 ?rv p1)))))
      else scan_bits (\<lambda>logical p. p(16 + logical := drop_bit logical ?rv AND 1)) ?rm p1)"
  have "p2 (16 + i) = (if bit ?rm i then of_bool (bit ?rv i) else p1 (16 + i))"
  proof (cases "?rm = pr_rotating_mask")
    case True
    then have b: "bit ?rm i" using assms(1) by (simp only: bit_pr_rotating_mask)
    show ?thesis
      unfolding p2_def if_P [OF True] if_P [OF b] unpack_pr8 bit_drop_bit_eq o_def using assms(1) by simp
  next
    case False
    show ?thesis unfolding p2_def if_not_P [OF False] scan_upd by (simp add: drop_bit_and_one)
  qed
  then show ?thesis
    unfolding ia64_system_write_pr_def Let_def normalize_rrb_pr p1_def [symmetric] p2_def [symmetric] rm rv p1
    by simp
qed

text \<open>
  C35: \<^verbatim>\<open>mov pr = r, mask\<close> and \<^verbatim>\<open>mov r = pr\<close> round trip under every rotation base: reading back yields
  the written bits where the mask selects them, the old image elsewhere, and one in bit 0.
\<close>

theorem write_pr_read_pr:
  "ia64_system_read_pr (ia64_system_write_pr v m e) = (v AND m) OR (ia64_system_read_pr e AND NOT m) OR 1"
proof (rule bit_word_eqI)
  fix j assume "j < LENGTH(64)"
  then have j: "j < 64" by simp
  let ?w = "ia64_system_write_pr v m e"
  have c: "cfm_rrb_pr ?w = cfm_rrb_pr e" by (simp add: ia64_system_write_pr_def Let_def)
  have sel: "bit ((v AND m) OR (ia64_system_read_pr e AND NOT m) OR 1) j \<longleftrightarrow>
    j = 0 \<or> (if bit m j then bit v j else bit (ia64_system_read_pr e) j)"
    using j by (auto simp: bit_or_iff bit_and_iff bit_not_iff bit_1_iff)
  consider "j = 0" | "0 < j" "j < 16" | "16 \<le> j" by linarith
  then show "bit (ia64_system_read_pr ?w) j = bit ((v AND m) OR (ia64_system_read_pr e AND NOT m) OR 1) j"
  proof cases
    case 1
    then show ?thesis unfolding sel read_pr_physical by simp
  next
    case 2
    then show ?thesis unfolding sel read_pr_physical [of ?w] write_pr_static [OF 2]
      by (simp add: read_pr_physical [of e])
  next
    case 3
    let ?r = "cfm_rrb_pr e mod 48"
    define i where "i = (j - 16 + 48 - ?r) mod 48"
    have i: "i < 48" by (simp add: i_def)
    have "(i + ?r) mod 48 = (j - 16) mod 48"
      unfolding i_def mod_add_left_eq using mod_less_divisor [of 48 "cfm_rrb_pr e"] by simp
    then have k: "16 + (i + ?r) mod 48 = j" using 3 j by simp
    have "phys_pr ?w (j - 16) = pr ?w (16 + i)" "phys_pr e (j - 16) = pr e (16 + i)"
      by (simp_all add: phys_pr_def c i_def)
    with 3 j write_pr_rotating [OF i, where e = e and v = v and m = m, unfolded k] show ?thesis
      unfolding sel by (simp add: read_pr_physical)
  qed
qed

section \<open>Physical floating-point registers\<close>

lemma ring_shift:
  assumes "i < n" "s < n"
  shows "(i + s) mod n = (if i + s < n then i + s else i + s - (n :: nat))"
  using assms by (simp add: mod_if)

lemma rebase_u64:
  assumes "0 < s" "s < 96" "i < 96"
  shows "ia64_rebase_rotating_fr_u64 a s (32 + i) = a (32 + (i + s) mod 96)"
  using assms unfolding ring_shift [OF assms(3,2)] ia64_rebase_rotating_fr_u64_def Let_def
  by (auto simp: copy_range_def mod_if intro!: arg_cong [of _ _ a])

lemma rebase_u32:
  assumes "0 < s" "s < 96" "i < 96"
  shows "ia64_rebase_rotating_fr_u32 a s (32 + i) = a (32 + (i + s) mod 96)"
  using assms unfolding ring_shift [OF assms(3,2)] ia64_rebase_rotating_fr_u32_def Let_def
  by (auto simp: copy_range_def mod_if intro!: arg_cong [of _ _ a])

lemma rebase_static:
  assumes "i < 32"
  shows "ia64_rebase_rotating_fr_u64 a s i = a i" "ia64_rebase_rotating_fr_u32 b s i = b i"
  using assms by (auto simp: ia64_rebase_rotating_fr_u64_def ia64_rebase_rotating_fr_u32_def copy_range_def Let_def)

lemma rebase_bits:
  assumes "0 < s" "s < 96"
  shows "i < 96 \<Longrightarrow> bits2_get (ia64_rebase_rotating_fr_bits b s) (32 + i) = bits2_get b (32 + (i + s) mod 96)"
    and "i < 32 \<Longrightarrow> bits2_get (ia64_rebase_rotating_fr_bits b s) i = bits2_get b i"
proof -
  define w where "w = push_bit 32 (ucast (snd b) :: 128 word) OR ucast (drop_bit 32 (fst b))"
  define r where "r = (drop_bit s w OR push_bit (96 - s) w) AND (push_bit 96 1 - 1)"
  have eq: "ia64_rebase_rotating_fr_bits b s = ((fst b AND 0xFFFFFFFF) OR ucast (push_bit 32 r), ucast (drop_bit 32 r))"
    by (simp only: ia64_rebase_rotating_fr_bits_def Let_def w_def r_def)
  have w: "bit w k \<longleftrightarrow> k < 96 \<and> bits2_get b (32 + k)" for k
  proof (cases "k < 32")
    case True
    then show ?thesis
      unfolding w_def by (auto simp: bit_or_iff bit_push_bit_iff bit_unsigned_iff bit_drop_bit_eq bits2_get_low)
  next
    case False
    then have "\<not> bit (fst b) (32 + k)" using bit_u64_less [of "fst b" "32 + k"] by linarith
    moreover have "k < 96" if "bit (snd b) (k - 32)" using bit_u64_less [OF that] by linarith
    ultimately show ?thesis
      using False bits2_get_high [of "32 + k" b] unfolding w_def
      by (auto simp: bit_or_iff bit_push_bit_iff bit_unsigned_iff bit_drop_bit_eq)
  qed
  have r: "bit r k \<longleftrightarrow> k < 96 \<and> bits2_get b (32 + (k + s) mod 96)" for k
    unfolding r_def low_mask_eq bit_and_iff bit_or_iff bit_push_bit_iff bit_drop_bit_eq o_def w bit_mask_iff
    using assms by (auto simp: ring_shift add.commute split: if_splits)
  have f: "bit (0xFFFFFFFF :: u64) k \<longleftrightarrow> k < 32" for k
  proof -
    have "(0xFFFFFFFF :: u64) = mask 32" by (simp add: mask_eq_exp_minus_1)
    then show ?thesis by (simp only: bit_mask_iff) auto
  qed
  have get: "bits2_get (ia64_rebase_rotating_fr_bits b s) k =
      (if k < 32 then bit (fst b) k else k < 128 \<and> bit r (k - 32))" if "k < 128" for k
  proof (cases "k < 64")
    case True
    then show ?thesis
      unfolding eq bits2_get_low [OF True] fst_conv bit_or_iff bit_and_iff f
      by (auto simp: bit_unsigned_iff bit_push_bit_iff)
  next
    case False
    then have g: "bits2_get (x, y) k = bit y (k - 64)" for x y using that bits2_get_high [of k "(x, y)"] by simp
    have lt: "k - 64 < 64" "32 + (k - 64) = k - 32" using False that by linarith+
    show ?thesis unfolding eq g bit_unsigned_iff bit_drop_bit_eq o_def lt(2) using lt(1) False that by simp
  qed
  show "i < 96 \<Longrightarrow> bits2_get (ia64_rebase_rotating_fr_bits b s) (32 + i) = bits2_get b (32 + (i + s) mod 96)"
    by (simp add: get r)
  show "i < 32 \<Longrightarrow> bits2_get (ia64_rebase_rotating_fr_bits b s) i = bits2_get b i"
    using get [of i] bits2_get_low [of i b] by simp
qed

lemma bit_high_half: "32 \<le> i \<Longrightarrow> i < 64 \<Longrightarrow> bit (push_bit 32 (- 1) :: u64) i"
  unfolding bit_push_bit_iff by (simp add: bit_minus_1_iff)

lemma bits2_mask_rotating:
  assumes "32 \<le> i" "i < 128"
  shows "bits2_get (fst a AND NOT (fst b AND push_bit 32 (- 1)), snd a AND NOT (snd b)) i \<longleftrightarrow>
    bits2_get a i \<and> \<not> bits2_get b i"
proof (cases "i < 64")
  case True
  show ?thesis
    unfolding bits2_get_low [OF True] fst_conv bit_and_iff bit_not_u64 using True bit_high_half [OF assms(1) True] by blast
next
  case False
  then have i: "64 \<le> i" by simp
  show ?thesis unfolding bits2_get_high [OF i assms(2)] snd_conv by (rule bit_and_not_word)
qed

text \<open>
  What a floating-point register holds: the execution cache, the NaT and significand marks, and
  the extended and integer images where they are valid.
\<close>

definition fr_content ::
  "fp_state \<Rightarrow> nat \<Rightarrow> u64 \<times> bool \<times> bool \<times> (u64 \<times> u32 \<times> bool) option \<times> u64 option" where
  "fr_content f i =
     (fr f i, bits2_get (fr_nat f) i, bits2_get (fr_sig f) i \<and> \<not> bits2_get (fr_nat f) i,
      if bits2_get (fr_ext_valid f) i then Some (fr_ext_mant f i, fr_ext_exp f i, bits2_get (fr_ext_sign f) i) else None,
      if bits2_get (fr_int_origin f) i then Some (fr_int_value f i) else None)"

definition fr_phys :: "env \<Rightarrow> nat \<Rightarrow> u64 \<times> bool \<times> bool \<times> (u64 \<times> u32 \<times> bool) option \<times> u64 option" where
  "fr_phys e q = fr_content (fp e) (32 + (q + 96 - rotating_fr_materialized_rrb (fp e)) mod 96)"

lemma rotating_none:
  assumes "\<not> (fst b AND push_bit 32 (- 1) \<noteq> 0 \<or> snd b \<noteq> 0)" "32 \<le> i" "i < 128"
  shows "\<not> bits2_get b i"
proof (cases "i < 64")
  case True
  have "fst b AND push_bit 32 (- 1) = 0" using assms(1) by blast
  then have "\<not> bit (fst b AND push_bit 32 (- 1)) i" by simp
  then show ?thesis
    unfolding bits2_get_low [OF True] bit_and_iff using bit_high_half [OF assms(2) True] by blast
next
  case False
  with assms show ?thesis by (simp add: bits2_get_high)
qed

lemma rebase_fields:
  defines "he f \<equiv> fst (fr_ext_valid f) AND push_bit 32 (- 1) \<noteq> 0 \<or> snd (fr_ext_valid f) \<noteq> 0"
    and "hi f \<equiv> fst (fr_int_origin f) AND push_bit 32 (- 1) \<noteq> 0 \<or> snd (fr_int_origin f) \<noteq> 0"
  shows "fr (ia64_rebase_rotating_fr s f) = ia64_rebase_rotating_fr_u64 (fr f) s"
    "fr_nat (ia64_rebase_rotating_fr s f) = ia64_rebase_rotating_fr_bits (fr_nat f) s"
    "fr_sig (ia64_rebase_rotating_fr s f) =
      (fst (ia64_rebase_rotating_fr_bits (fr_sig f) s) AND
         NOT (fst (ia64_rebase_rotating_fr_bits (fr_nat f) s) AND push_bit 32 (- 1)),
       snd (ia64_rebase_rotating_fr_bits (fr_sig f) s) AND NOT (snd (ia64_rebase_rotating_fr_bits (fr_nat f) s)))"
    "fr_ext_sign (ia64_rebase_rotating_fr s f) = ia64_rebase_rotating_fr_bits (fr_ext_sign f) s"
    "fr_ext_valid (ia64_rebase_rotating_fr s f) = ia64_rebase_rotating_fr_bits (fr_ext_valid f) s"
    "fr_int_origin (ia64_rebase_rotating_fr s f) = ia64_rebase_rotating_fr_bits (fr_int_origin f) s"
    "he f \<Longrightarrow> fr_ext_mant (ia64_rebase_rotating_fr s f) = ia64_rebase_rotating_fr_u64 (fr_ext_mant f) s"
    "he f \<Longrightarrow> fr_ext_exp (ia64_rebase_rotating_fr s f) = ia64_rebase_rotating_fr_u32 (fr_ext_exp f) s"
    "hi f \<Longrightarrow> fr_int_value (ia64_rebase_rotating_fr s f) = ia64_rebase_rotating_fr_u64 (fr_int_value f) s"
  by (simp_all add: ia64_rebase_rotating_fr_def Let_def he_def hi_def)

lemma rebase_content:
  assumes "0 < s" "s < 96" "i < 96"
  shows "fr_content (ia64_rebase_rotating_fr s f) (32 + i) = fr_content f (32 + (i + s) mod 96)"
proof -
  let ?j = "32 + (i + s) mod 96"
  have j: "32 \<le> ?j" "?j < 128" using mod_less_divisor [of 96 "i + s"] by simp_all
  note bits = rebase_bits(1) [OF assms]
  note words = rebase_u64 [OF assms] rebase_u32 [OF assms]
  let ?he = "fst (fr_ext_valid f) AND push_bit 32 (- 1) \<noteq> 0 \<or> snd (fr_ext_valid f) \<noteq> 0"
  let ?hi = "fst (fr_int_origin f) AND push_bit 32 (- 1) \<noteq> 0 \<or> snd (fr_int_origin f) \<noteq> 0"
  define g where "g = ia64_rebase_rotating_fr s f"
  have sg: "bits2_get (fr_sig g) (32 + i) \<longleftrightarrow>
      bits2_get (fr_sig f) ?j \<and> \<not> bits2_get (fr_nat f) ?j"
  proof -
    have "32 \<le> 32 + i" "32 + i < 128" using assms(3) by simp_all
    note m = bits2_mask_rotating [OF this]
    show ?thesis
      by (simp only: g_def rebase_fields m bits)
  qed
  have fields: "fr g (32 + i) = fr f ?j" "bits2_get (fr_nat g) (32 + i) = bits2_get (fr_nat f) ?j"
    "bits2_get (fr_ext_sign g) (32 + i) = bits2_get (fr_ext_sign f) ?j"
    "bits2_get (fr_ext_valid g) (32 + i) = bits2_get (fr_ext_valid f) ?j"
    "bits2_get (fr_int_origin g) (32 + i) = bits2_get (fr_int_origin f) ?j"
    by (simp_all only: g_def rebase_fields bits words)
  have ext: "fr_ext_mant g (32 + i) = fr_ext_mant f ?j" "fr_ext_exp g (32 + i) = fr_ext_exp f ?j"
    if v: "bits2_get (fr_ext_valid f) ?j"
  proof -
    have he: ?he using rotating_none [OF _ j] v by blast
    show "fr_ext_mant g (32 + i) = fr_ext_mant f ?j" "fr_ext_exp g (32 + i) = fr_ext_exp f ?j"
      by (simp_all only: g_def rebase_fields(7,8) [OF he] words)
  qed
  have int: "fr_int_value g (32 + i) = fr_int_value f ?j" if v: "bits2_get (fr_int_origin f) ?j"
  proof -
    have hi: ?hi using rotating_none [OF _ j] v by blast
    show ?thesis
      by (simp only: g_def rebase_fields(9) [OF hi] words)
  qed
  show ?thesis
    unfolding g_def [symmetric] fr_content_def fields sg using ext int by simp
qed

lemma bits2_mask_static:
  assumes "i < 32"
  shows "bits2_get (fst a AND NOT (fst b AND push_bit 32 (- 1)), snd a AND NOT (snd b)) i \<longleftrightarrow> bits2_get a i"
proof -
  have i: "i < 64" using assms by simp
  have "\<not> bit (push_bit 32 (- 1) :: u64) i" unfolding bit_push_bit_iff using assms by simp
  then show ?thesis unfolding bits2_get_low [OF i] fst_conv bit_and_iff bit_not_u64 using i by blast
qed

lemma rebase_content_static:
  assumes "0 < s" "s < 96" "i < 32"
  shows "fr_content (ia64_rebase_rotating_fr s f) i = fr_content f i"
proof -
  define g where "g = ia64_rebase_rotating_fr s f"
  note bits = rebase_bits(2) [OF assms]
  have "fr_sig g = (fst (ia64_rebase_rotating_fr_bits (fr_sig f) s) AND
         NOT (fst (ia64_rebase_rotating_fr_bits (fr_nat f) s) AND push_bit 32 (- 1)),
       snd (ia64_rebase_rotating_fr_bits (fr_sig f) s) AND NOT (snd (ia64_rebase_rotating_fr_bits (fr_nat f) s)))"
    by (simp only: g_def rebase_fields)
  then have sg: "bits2_get (fr_sig g) i = bits2_get (fr_sig f) i" by (simp only: bits2_mask_static [OF assms(3)] bits)
  have fields: "fr g i = fr f i" "bits2_get (fr_nat g) i = bits2_get (fr_nat f) i"
    "bits2_get (fr_ext_sign g) i = bits2_get (fr_ext_sign f) i"
    "bits2_get (fr_ext_valid g) i = bits2_get (fr_ext_valid f) i"
    "bits2_get (fr_int_origin g) i = bits2_get (fr_int_origin f) i"
    by (simp_all only: g_def rebase_fields bits rebase_static [OF assms(3)])
  have images: "fr_ext_mant g i = fr_ext_mant f i" "fr_ext_exp g i = fr_ext_exp f i" "fr_int_value g i = fr_int_value f i"
    by (simp_all add: g_def ia64_rebase_rotating_fr_def Let_def rebase_static [OF assms(3)])
  show ?thesis unfolding g_def [symmetric] fr_content_def fields sg images ..
qed

lemma content_materialized [simp]: "fr_content (f\<lparr>rotating_fr_materialized_rrb := r\<rparr>) k = fr_content f k"
  by (simp add: fr_content_def)

lemma sync_rotating_fr:
  assumes live: "rotating_fr_live (fp e)" and "rotating_fr_materialized_rrb (fp e) < 96" and "cfm_rrb_fr e < 96"
  shows "rotating_fr_materialized_rrb (fp (ia64_sync_rotating_fr e)) = cfm_rrb_fr e"
    and "fr_phys (ia64_sync_rotating_fr e) q = fr_phys e q"
    and "i < 32 \<Longrightarrow> fr_content (fp (ia64_sync_rotating_fr e)) i = fr_content (fp e) i"
proof -
  let ?n = "cfm_rrb_fr e" and ?o = "rotating_fr_materialized_rrb (fp e)"
  let ?s = "if ?o \<le> ?n then ?n - ?o else ?n + 96 - ?o"
  show "rotating_fr_materialized_rrb (fp (ia64_sync_rotating_fr e)) = ?n" by (simp add: ia64_sync_rotating_fr_def Let_def)
  have "fr_phys (ia64_sync_rotating_fr e) q = fr_phys e q \<and>
    (i < 32 \<longrightarrow> fr_content (fp (ia64_sync_rotating_fr e)) i = fr_content (fp e) i)"
  proof (cases "?n = ?o")
    case True
    then show ?thesis by (simp add: ia64_sync_rotating_fr_def Let_def fr_phys_def)
  next
    case False
    then have s: "0 < ?s" "?s < 96" using assms(2,3) by auto
    let ?i = "(q + 96 - ?n) mod 96"
    have i: "?i < 96" by simp
    have f: "fp (ia64_sync_rotating_fr e) = (ia64_rebase_rotating_fr ?s (fp e))\<lparr>rotating_fr_materialized_rrb := ?n\<rparr>"
      using False live by (simp add: ia64_sync_rotating_fr_def Let_def)
    have "fr_phys (ia64_sync_rotating_fr e) q = fr_content (ia64_rebase_rotating_fr ?s (fp e)) (32 + ?i)"
      unfolding fr_phys_def f by simp
    also have "\<dots> = fr_content (fp e) (32 + (?i + ?s) mod 96)" by (rule rebase_content [OF s i])
    also have "\<dots> = fr_phys e q" using ring_rebase [of ?n 96 ?o ?s q] assms(2,3) by (simp add: fr_phys_def)
    finally show ?thesis unfolding f content_materialized using rebase_content_static [OF s, of i] by blast
  qed
  then show "fr_phys (ia64_sync_rotating_fr e) q = fr_phys e q"
    and "i < 32 \<Longrightarrow> fr_content (fp (ia64_sync_rotating_fr e)) i = fr_content (fp e) i" by blast+
qed

text \<open>
  C36: Floating-point rotation is lazy: \<^verbatim>\<open>ia64_set_cfm_rrb_fr\<close> only records the base, and
  \<^verbatim>\<open>ia64_sync_rotating_fr\<close> later moves every array (significand, extended and integer images and the
  flag bitmaps) so that each physical rotating register keeps its content under the new base and
  each of the static registers \<open>f0\<close> to \<open>f31\<close> keeps its content in place.
\<close>

theorem sync_rotating_fr_physical:
  assumes "rotating_fr_live (fp e)" and "rotating_fr_materialized_rrb (fp e) < 96" and "cfm_rrb_fr e < 96"
  shows "rotating_fr_materialized_rrb (fp (ia64_sync_rotating_fr e)) = cfm_rrb_fr e \<and>
    fr_phys (ia64_sync_rotating_fr e) q = fr_phys e q \<and>
    (\<forall>i<32. fr_content (fp (ia64_sync_rotating_fr e)) i = fr_content (fp e) i)"
  using sync_rotating_fr [OF assms] by blast

theorem sync_rotating_fr_witness:
  "fr_phys (ia64_sync_rotating_fr ((env_zero False (\<lambda>_. 0))\<lparr>cfm_rrb_fr := 95, fp := fp_state_zero\<lparr>
     fr := (\<lambda>i. of_nat i), rotating_fr_live := True, rotating_fr_materialized_rrb := 0\<rparr>\<rparr>)) 7
   = (39, False, False, None, None)"
proof -
  let ?e = "(env_zero False (\<lambda>_. 0))\<lparr>cfm_rrb_fr := 95, fp := fp_state_zero\<lparr>
     fr := (\<lambda>i. of_nat i), rotating_fr_live := True, rotating_fr_materialized_rrb := 0\<rparr>\<rparr>"
  have "fr_phys (ia64_sync_rotating_fr ?e) 7 = fr_phys ?e 7"
    using sync_rotating_fr_physical [of ?e 7] by simp
  also have "\<dots> = (39, False, False, None, None)"
    by (simp add: fr_phys_def fr_content_def bits2_get_def fp_state_zero_def)
  finally show ?thesis .
qed

section \<open>The logical floating-point registers\<close>

text \<open>
  What the logical register \<open>32 + i\<close> holds once the pending rotation is carried out.  \<open>rotating_fr_live\<close> is set by the
  first write of a rotating register, so without it all of them still hold the same initial content.
\<close>

definition fr_logical :: "env \<Rightarrow> nat \<Rightarrow> u64 \<times> bool \<times> bool \<times> (u64 \<times> u32 \<times> bool) option \<times> u64 option" where
  "fr_logical e i = fr_content (fp (ia64_sync_rotating_fr e)) (32 + i)"

definition fr_ok :: "env \<Rightarrow> bool" where
  "fr_ok e \<longleftrightarrow> rotating_fr_materialized_rrb (fp e) < 96 \<and> cfm_rrb_fr e < 96 \<and>
     (\<not> rotating_fr_live (fp e) \<longrightarrow> (\<forall>i<96. fr_content (fp e) (32 + i) = fr_content (fp e) 32))"

lemma fr_logical_live:
  assumes ok: "fr_ok e" and live: "rotating_fr_live (fp e)" and i: "i < 96"
  shows "fr_logical e i = fr_phys e ((i + cfm_rrb_fr e) mod 96)"
proof -
  have b: "rotating_fr_materialized_rrb (fp e) < 96" "cfm_rrb_fr e < 96" using ok by (simp_all add: fr_ok_def)
  note s = sync_rotating_fr [OF live b]
  have "((i + cfm_rrb_fr e) mod 96 + 96 - cfm_rrb_fr e) mod 96 = i"
    using i b(2) unfolding ring_shift [OF i b(2)] by (simp add: mod_if)
  then show ?thesis unfolding s(2) [symmetric] by (simp add: fr_logical_def fr_phys_def s(1))
qed

lemma fr_logical_idle: "fr_ok e \<Longrightarrow> \<not> rotating_fr_live (fp e) \<Longrightarrow> i < 96 \<Longrightarrow> fr_logical e i = fr_content (fp e) 32"
  by (simp add: fr_logical_def fr_ok_def ia64_sync_rotating_fr_def Let_def)

text \<open>A rotation by one renames every rotating register to its predecessor.\<close>

lemma set_cfm_rrb_fr_rotates:
  assumes ok: "fr_ok e"
  defines "e' \<equiv> ia64_set_cfm_rrb_fr (if cfm_rrb_fr e \<noteq> 0 then cfm_rrb_fr e - 1 else 95) e"
  shows "fr_ok e'" and "i < 96 \<Longrightarrow> fr_logical e' i = fr_logical e ((i + 95) mod 96)"
    and "cfm_rrb_fr e' = (cfm_rrb_fr e + 95) mod 96" and "fr_content (fp e') k = fr_content (fp e) k"
proof -
  have b: "rotating_fr_materialized_rrb (fp e) < 96" "cfm_rrb_fr e < 96" using ok by (simp_all add: fr_ok_def)
  let ?r = "if cfm_rrb_fr e \<noteq> 0 then cfm_rrb_fr e - 1 else 95"
  have r: "?r < 96" "?r \<noteq> cfm_rrb_fr e" "?r = (cfm_rrb_fr e + 95) mod 96" using b by (auto simp: mod_if)
  show c: "cfm_rrb_fr e' = (cfm_rrb_fr e + 95) mod 96"
    unfolding r(3) [symmetric] e'_def using r(1,2) by (simp add: ia64_set_cfm_rrb_fr_def Let_def)
  have f: "fp e' = (if rotating_fr_live (fp e) then fp e else (fp e)\<lparr>rotating_fr_materialized_rrb := ?r\<rparr>)"
    unfolding e'_def using r(1,2) by (simp add: ia64_set_cfm_rrb_fr_def Let_def)
  then show k: "fr_content (fp e') k = fr_content (fp e) k" for k by simp
  have l: "rotating_fr_live (fp e') = rotating_fr_live (fp e)" using f by simp
  show ok': "fr_ok e'" using ok r(1) unfolding fr_ok_def l k c by (simp add: f)
  assume i: "i < 96"
  show "fr_logical e' i = fr_logical e ((i + 95) mod 96)"
  proof (cases "rotating_fr_live (fp e)")
    case True
    have "(i + (cfm_rrb_fr e + 95) mod 96) mod 96 = ((i + 95) mod 96 + cfm_rrb_fr e) mod 96"
      by (simp add: mod_add_left_eq mod_add_right_eq add.commute add.left_commute)
    moreover have "fr_phys e' q = fr_phys e q" for q using True f by (simp add: fr_phys_def)
    ultimately show ?thesis
      using fr_logical_live [OF ok' _ i] fr_logical_live [OF ok True, of "(i + 95) mod 96"] True l by (simp add: c)
  next
    case False
    then show ?thesis using fr_logical_idle [OF ok' _ i] fr_logical_idle [OF ok False, of "(i + 95) mod 96"] l k by simp
  qed
qed

lemma rotate_pr_right_renames:
  assumes "i < 48"
  shows "pr (ia64_rotate_cfm_rrb_pr_right e) (16 + i) = pr e (16 + (i + 47) mod 48)"
  using assms by (auto simp: ia64_rotate_cfm_rrb_pr_right_def Let_def copy_range_def mod_if intro!: arg_cong [of _ _ "pr e"])

lemma rotate_pr_right_static: "0 < j \<Longrightarrow> j < 16 \<Longrightarrow> pr (ia64_rotate_cfm_rrb_pr_right e) j = pr e j"
  by (simp add: ia64_rotate_cfm_rrb_pr_right_def Let_def copy_range_def)

end
