(* ===== verification/Rse_Map.thy ===== *)
theory Rse_Map
  imports Rotation
begin

text \<open>
  The mapping between the logical stacked registers and the physical register file, from
  \<^verbatim>\<open>target/ia64/arch/rse.c\<close>: rotation and wrap-around of the current frame, and the copies that keep
  \<^verbatim>\<open>env->gr[32..127]\<close> and the physical file in step.  The fast paths (direct copies, runs of dirty
  registers, bit-range copies of the NaT bits) are proved equal to the register-by-register mapping.
\<close>

section \<open>Renaming\<close>

definition ia64_rse_rotating_gr_count :: "env \<Rightarrow> nat" where
  "ia64_rse_rotating_gr_count e =
     (let count = 8 * cfm_sor e in if count \<le> cfm_sof e \<and> count \<le> 96 then count else 0)"

definition ia64_rse_virt_to_phys :: "env \<Rightarrow> nat \<Rightarrow> nat" where
  "ia64_rse_virt_to_phys e v0 =
     (let sor_regs = ia64_rse_rotating_gr_count e;
          v = (if v0 < sor_regs then
                 let v1 = v0 + cfm_rrb_gr e in if v1 \<ge> sor_regs then v1 - sor_regs else v1
               else v0);
          p = rse_bol e + v
      in if p < 96 then p else p - 96)"

text \<open>The subtraction of the rotation base wraps at 32 bits.\<close>

definition ia64_rse_phys_to_virt :: "env \<Rightarrow> nat \<Rightarrow> nat" where
  "ia64_rse_phys_to_virt e p =
     (let off = (if p \<ge> rse_bol e then p - rse_bol e else p + 96 - rse_bol e);
          sor_regs = ia64_rse_rotating_gr_count e
      in if off < sor_regs then
           let off1 = (off + (2 ^ 32 + sor_regs - cfm_rrb_gr e)) mod 2 ^ 32
           in if off1 \<ge> sor_regs then off1 - sor_regs else off1
         else off)"

definition ia64_rse_pgr_nat_get :: "env \<Rightarrow> nat \<Rightarrow> bool" where
  "ia64_rse_pgr_nat_get e p = bits2_get (rse_pgr_nat e) p"

definition ia64_rse_pgr_nat_set :: "nat \<Rightarrow> bool \<Rightarrow> env \<Rightarrow> env" where
  "ia64_rse_pgr_nat_set p n e = e\<lparr>rse_pgr_nat := bits2_set (rse_pgr_nat e) p n\<rparr>"

section \<open>From the logical view to the file\<close>

text \<open>\<^verbatim>\<open>cto64(x)\<close> is \<^verbatim>\<open>ctz64(~x)\<close>.\<close>

function ia64_rse_copy_dirty :: "nat \<Rightarrow> (nat \<Rightarrow> u64) \<Rightarrow> nat \<Rightarrow> u64 \<Rightarrow> (nat \<Rightarrow> u64) \<Rightarrow> nat \<Rightarrow> u64" where
  "ia64_rse_copy_dirty d src s dirty dst =
     (if dirty = 0 then dst
      else
        let b = ctz_word dirty;
            shifted = drop_bit b dirty
        in if shifted AND 15 = 15 then
             let count = ctz_word (NOT shifted);
                 keep = (if count = 64 then 0 else NOT (push_bit b (push_bit count 1 - 1)))
             in ia64_rse_copy_dirty d src s (dirty AND keep) (copy_range dst (d + b) src (s + b) count)
           else ia64_rse_copy_dirty d src s (dirty AND (dirty - 1)) (dst(d + b := src (s + b))))"
  by pat_completeness auto

lemma copy_dirty_run_less:
  fixes dirty :: u64
  assumes "dirty \<noteq> 0" and "drop_bit (ctz_word dirty) dirty AND 15 = 15"
  defines "b \<equiv> ctz_word dirty" and "count \<equiv> ctz_word (NOT (drop_bit (ctz_word dirty) dirty))"
  shows "unat (dirty AND (if count = 64 then 0 else NOT (push_bit b (push_bit count 1 - 1)))) < unat dirty"
proof -
  let ?r = "dirty AND (if count = 64 then 0 else NOT (push_bit b (push_bit count 1 - 1)))"
  note c = ctz_word_props [OF assms(1), folded b_def, simplified]
  have "bit (drop_bit b dirty AND 15) 0" using assms(2) unfolding b_def by simp
  have cpos: "0 < count"
  proof (cases "NOT (drop_bit b dirty) = 0")
    case True
    then show ?thesis unfolding count_def b_def [symmetric] by (simp add: ctz_word_zero)
  next
    case False
    from ctz_word_props(2) [OF False] c(2) show ?thesis
      unfolding count_def b_def [symmetric] by (cases "ctz_word (NOT (drop_bit b dirty)) = 0") (auto simp: bit_not_iff bit_drop_bit_eq)
  qed
  have "\<not> bit ?r b"
  proof (cases "count = 64")
    case False
    with cpos c(1) show ?thesis
      unfolding low_mask_eq by (simp only: if_False bit_and_iff bit_not_iff bit_push_bit_iff bit_mask_iff) simp
  qed simp
  with c(2) have "?r \<noteq> dirty" by metis
  moreover have "?r \<le> dirty" by (rule word_and_le2)
  ultimately show ?thesis by (simp add: word_less_nat_alt [symmetric])
qed

termination ia64_rse_copy_dirty
proof (relation "measure (\<lambda>(_, _, _, dirty, _). unat dirty)", goal_cases)
  case 1
  show ?case by simp
next
  case 2
  then show ?case using copy_dirty_run_less by (simp only: in_measure prod.case)
next
  case 3
  then show ?case using clear_lowest_less by (simp only: in_measure prod.case)
qed

declare ia64_rse_copy_dirty.simps [simp del]

text \<open>Dirty bits outside the current frame are ignored.\<close>

definition rse_frame_dirty :: "nat \<Rightarrow> bits2 \<Rightarrow> bits2" where
  "rse_frame_dirty sof = (\<lambda>(dirty0, dirty1).
     if sof < 64 then (dirty0 AND (if sof = 0 then 0 else push_bit sof 1 - 1), 0)
     else (dirty0, dirty1 AND (push_bit (sof - 64) 1 - 1)))"

definition ia64_rse_sync_frame_out_direct :: "bits2 \<Rightarrow> nat \<Rightarrow> nat \<Rightarrow> env \<Rightarrow> env" where
  "ia64_rse_sync_frame_out_direct dirty sof bol e =
     (let e1 = e\<lparr>rse_gr_dirty := (0, 0)\<rparr>;
          (dirty0, dirty1) = rse_frame_dirty sof dirty;
          pgr0 = ia64_rse_copy_dirty bol (gr e1) 32 dirty0 (rse_pgr e1);
          pgr1 = (if dirty1 \<noteq> 0 then ia64_rse_copy_dirty (bol + 64) (gr e1) (32 + 64) dirty1 pgr0 else pgr0)
      in e1\<lparr>rse_pgr := pgr1\<rparr>)"

text \<open>The loop over both dirty words: \<open>v = word * 64 + bit\<close>.\<close>

definition scan_dirty :: "(nat \<Rightarrow> env \<Rightarrow> env) \<Rightarrow> bits2 \<Rightarrow> env \<Rightarrow> env" where
  "scan_dirty body = (\<lambda>(dirty0, dirty1) e. scan_bits (\<lambda>b. body (64 + b)) dirty1 (scan_bits body dirty0 e))"

definition ia64_rse_sync_frame_out_slow :: "bits2 \<Rightarrow> env \<Rightarrow> env" where
  "ia64_rse_sync_frame_out_slow dirty0 e0 =
     (let nat = nat_bits e0;
          sof = cfm_sof e0;
          sor_regs = ia64_rse_rotating_gr_count e0;
          rrb_gr = cfm_rrb_gr e0;
          bol = rse_bol e0;
          nat_files_clear =
            (drop_bit 32 (fst nat) OR snd nat OR fst (rse_pgr_nat e0) OR snd (rse_pgr_nat e0) = 0);
          dirty = rse_frame_dirty sof dirty0;
          e1 = e0\<lparr>rse_gr_dirty := (0, 0)\<rparr>;
          mapped = (\<lambda>v. let p = (if v < sor_regs then
                               let p1 = v + rrb_gr in if p1 \<ge> sor_regs then p1 - sor_regs else p1
                             else v) + bol
                        in if p \<ge> 96 then p - 96 else p)
      in if nat_files_clear \<and> (sor_regs = 0 \<or> rrb_gr = 0) \<and> bol + sof \<le> 96 then
           scan_dirty (\<lambda>v e. e\<lparr>rse_pgr := (rse_pgr e)(bol + v := gr e (32 + v))\<rparr>) dirty e1
         else if nat_files_clear then
           scan_dirty (\<lambda>v e. e\<lparr>rse_pgr := (rse_pgr e)(mapped v := gr e (32 + v))\<rparr>) dirty e1
         else
           scan_dirty (\<lambda>v e.
             let reg_nat = (if v < 32 then bit (fst nat) (32 + v) else bit (snd nat) (v - 32))
             in ia64_rse_pgr_nat_set (mapped v) reg_nat
                  (e\<lparr>rse_pgr := (rse_pgr e)(mapped v := gr e (32 + v))\<rparr>)) dirty e1)"

definition ia64_rse_sync_frame_out :: "env \<Rightarrow> env" where
  "ia64_rse_sync_frame_out e =
     (let (dirty0, dirty1) = rse_gr_dirty e in
      if dirty0 OR dirty1 = 0 then e
      else
        let sof = cfm_sof e;
            bol = rse_bol e
        in if drop_bit 32 (fst (nat_bits e)) OR snd (nat_bits e) OR fst (rse_pgr_nat e) OR snd (rse_pgr_nat e) = 0 \<and>
              (cfm_sor e = 0 \<or> cfm_rrb_gr e = 0) \<and> bol + sof \<le> 96
           then ia64_rse_sync_frame_out_direct (dirty0, dirty1) sof bol e
           else ia64_rse_sync_frame_out_slow (dirty0, dirty1) e)"

section \<open>From the file to the logical view\<close>

text \<open>
  The block copies of \<^verbatim>\<open>ia64_rse_sync_frame_in_range\<close>: the longest run of registers from \<open>first\<close> that is
  contiguous in the physical file, as its start there and its length.  A block that would start
  outside the file would overrun the C array; the loop stops there.
\<close>

definition rse_block :: "nat \<Rightarrow> nat \<Rightarrow> nat \<Rightarrow> nat \<Rightarrow> nat \<Rightarrow> nat \<times> nat" where
  "rse_block bol sor rrb past first =
     (let rotated = (first < sor \<and> rrb \<noteq> 0);
          mapped = (if rotated then
                      let m = first + rrb in if m \<ge> sor then m - sor else m
                    else first);
          span0 = (if rotated then min (past - first) (min (sor - first) (sor - mapped)) else past - first);
          p0 = bol + mapped;
          p = (if p0 \<ge> 96 then p0 - 96 else p0)
      in (p, min span0 (96 - p)))"

function rse_sync_in_blocks :: "nat \<Rightarrow> nat \<Rightarrow> bool \<Rightarrow> nat \<Rightarrow> nat \<Rightarrow> env \<Rightarrow> env" where
  "rse_sync_in_blocks sor rrb nat_clear past first e =
     (let (p, span) = rse_block (rse_bol e) sor rrb past first in
      if first < past \<and> span \<noteq> 0 then
        rse_sync_in_blocks sor rrb nat_clear past (first + span)
          (e\<lparr>gr := copy_range (gr e) (32 + first) (rse_pgr e) p span,
             nat_bits := (if nat_clear then ia64_clear_bit_range (nat_bits e) (32 + first) span
                          else ia64_copy_bit_range (nat_bits e) (32 + first) (rse_pgr_nat e) p span)\<rparr>)
      else e)"
  by pat_completeness auto
termination
  by (relation "measure (\<lambda>(_, _, _, past, first, _). past - first)") auto

declare rse_sync_in_blocks.simps [simp del]

definition ia64_rse_sync_frame_in_range :: "nat \<Rightarrow> nat \<Rightarrow> env \<Rightarrow> env" where
  "ia64_rse_sync_frame_in_range first count e =
     (let past = min (first + count) (cfm_sof e);
          sor = ia64_rse_rotating_gr_count e;
          rrb = cfm_rrb_gr e;
          nat_clear = (fst (rse_pgr_nat e) OR snd (rse_pgr_nat e) = 0)
      in if sor \<noteq> 0 \<and> rrb \<ge> sor then
           fold (\<lambda>i e. let p = ia64_rse_virt_to_phys e i
                      in ia64_gr_nat_set (32 + i) (ia64_rse_pgr_nat_get e p)
                           (e\<lparr>gr := (gr e)(32 + i := rse_pgr e p)\<rparr>)) [first..<past] e
         else rse_sync_in_blocks sor rrb nat_clear past first e)"

definition ia64_rse_sync_frame_in_direct :: "nat \<Rightarrow> nat \<Rightarrow> env \<Rightarrow> env" where
  "ia64_rse_sync_frame_in_direct sof bol e =
     (let first = min sof (96 - bol);
          second = sof - first;
          gr1 = copy_range (gr e) 32 (rse_pgr e) bol first;
          gr2 = (if second \<noteq> 0 then copy_range gr1 (32 + first) (rse_pgr e) 0 second else gr1)
      in e\<lparr>gr := gr2, nat_bits := (fst (nat_bits e) AND 0xFFFFFFFF, 0), rse_gr_dirty := (0, 0)\<rparr>)"

definition ia64_rse_sync_frame_in_slow :: "env \<Rightarrow> env" where
  "ia64_rse_sync_frame_in_slow e =
     (if cfm_sor e = 0 \<or> cfm_rrb_gr e = 0 then
        let first = min (cfm_sof e) (96 - rse_bol e);
            second = cfm_sof e - first;
            gr1 = copy_range (gr e) 32 (rse_pgr e) (rse_bol e) first;
            gr2 = (if second \<noteq> 0 then copy_range gr1 (32 + first) (rse_pgr e) 0 second else gr1);
            nat' =
              (if fst (rse_pgr_nat e) OR snd (rse_pgr_nat e) = 0 then (fst (nat_bits e) AND 0xFFFFFFFF, 0)
               else
                 let nat1 = ia64_copy_bit_range (nat_bits e) 32 (rse_pgr_nat e) (rse_bol e) first
                 in if second \<noteq> 0 then ia64_copy_bit_range nat1 (32 + first) (rse_pgr_nat e) 0 second else nat1)
        in e\<lparr>gr := gr2, nat_bits := nat', rse_gr_dirty := (0, 0)\<rparr>
      else (ia64_rse_sync_frame_in_range 0 (cfm_sof e) e)\<lparr>rse_gr_dirty := (0, 0)\<rparr>)"

definition ia64_rse_sync_frame_in :: "env \<Rightarrow> env" where
  "ia64_rse_sync_frame_in e =
     (if (cfm_sor e = 0 \<or> cfm_rrb_gr e = 0) \<and> fst (rse_pgr_nat e) OR snd (rse_pgr_nat e) = 0
      then ia64_rse_sync_frame_in_direct (cfm_sof e) (rse_bol e) e
      else ia64_rse_sync_frame_in_slow e)"

section \<open>Rotation of the general registers\<close>

definition ia64_rotate_rotating_gr_right :: "env \<Rightarrow> env" where
  "ia64_rotate_rotating_gr_right e =
     (let count = ia64_rse_rotating_gr_count e in
      if count = 0 then e
      else
        let last_gr = gr e (32 + count - 1);
            gr1 = (copy_range (gr e) 33 (gr e) 32 (count - 1))(32 := last_gr);
            nat0 = (drop_bit 32 (fst (nat_bits e)) OR push_bit 32 (snd (nat_bits e)), drop_bit 32 (snd (nat_bits e)));
            nat1 = ia64_rotate_low_bits_left_one nat0 count
        in e\<lparr>gr := gr1,
             nat_bits := ((fst (nat_bits e) AND 0xFFFFFFFF) OR push_bit 32 (fst nat1),
                          drop_bit 32 (fst nat1) OR push_bit 32 (snd nat1)),
             rse_gr_dirty := ia64_rotate_low_bits_left_one (rse_gr_dirty e) count,
             alat_st := ia64_invalidate_alat_reg_range 32 (32 + count) False (alat_st e)\<rparr>)"

definition ia64_rotate_loop_regs :: "env \<Rightarrow> env" where
  "ia64_rotate_loop_regs e =
     (let rotating_gr_count = ia64_rse_rotating_gr_count e;
          e1 = ia64_rotate_rotating_gr_right e;
          e2 = (if rotating_gr_count \<noteq> 0
                then e1\<lparr>cfm_rrb_gr := (if cfm_rrb_gr e1 \<noteq> 0 then cfm_rrb_gr e1 - 1 else rotating_gr_count - 1)\<rparr>
                else e1);
          e3 = ia64_set_cfm_rrb_fr (if cfm_rrb_fr e2 \<noteq> 0 then cfm_rrb_fr e2 - 1 else 95) e2
      in ia64_rotate_cfm_rrb_pr_right e3)"

section \<open>The renaming is a bijection\<close>

definition frame_ok :: "env \<Rightarrow> bool" where
  "frame_ok e \<longleftrightarrow> ia64_cfm_frame_fields_valid (cfm_sof e) (cfm_sol e) (cfm_sor e) \<and>
     (if cfm_sor e = 0 then cfm_rrb_gr e = 0 else cfm_rrb_gr e < 8 * cfm_sor e) \<and> rse_bol e < 96"

lemma frame_okD:
  assumes "frame_ok e"
  shows "cfm_sof e \<le> 96" "cfm_sol e \<le> cfm_sof e" "8 * cfm_sor e \<le> cfm_sof e" "rse_bol e < 96"
    "ia64_rse_rotating_gr_count e = 8 * cfm_sor e" "cfm_rrb_gr e = 0 \<or> cfm_rrb_gr e < 8 * cfm_sor e"
  using assms by (auto simp: frame_ok_def ia64_cfm_frame_fields_valid_def ia64_rse_rotating_gr_count_def Let_def
      split: if_splits)

text \<open>Rotation of an index inside the rotating region.\<close>

definition rot_index :: "nat \<Rightarrow> nat \<Rightarrow> nat \<Rightarrow> nat" where
  "rot_index n r v = (if v < n then (v + r) mod n else v)"

lemma virt_to_phys_alt:
  assumes ok: "frame_ok e" and v: "v < 96"
  shows "ia64_rse_virt_to_phys e v = (rse_bol e + rot_index (8 * cfm_sor e) (cfm_rrb_gr e) v) mod 96"
proof -
  note f = frame_okD [OF ok]
  let ?n = "8 * cfm_sor e" and ?r = "cfm_rrb_gr e"
  have m: "(v + ?r) mod ?n = (if v + ?r < ?n then v + ?r else v + ?r - ?n)" if "v < ?n"
    using that f(6) by (intro ring_shift) auto
  have rx: "rot_index ?n ?r v < 96"
    using v f(1,3) by (auto simp: rot_index_def intro: less_le_trans [OF mod_less_divisor])
  moreover have "ia64_rse_virt_to_phys e v = (let p = rse_bol e + rot_index ?n ?r v in if p < 96 then p else p - 96)"
    using m by (auto simp: ia64_rse_virt_to_phys_def f(5) rot_index_def Let_def)
  ultimately show ?thesis using ring_shift [OF f(4) rx] by (simp add: Let_def)
qed

lemma rot_index_bounds:
  assumes "0 < n \<or> r = 0"
  shows "rot_index n r v < n \<longleftrightarrow> v < n" "n \<le> m \<Longrightarrow> v < m \<Longrightarrow> rot_index n r v < m"
  using assms by (auto simp: rot_index_def intro: less_le_trans [OF mod_less_divisor])

lemma virt_to_phys_less: "frame_ok e \<Longrightarrow> v < 96 \<Longrightarrow> ia64_rse_virt_to_phys e v < 96"
  by (simp add: virt_to_phys_alt)

lemma ring_unshift:
  assumes "b < n" "x < (n :: nat)"
  shows "(if (b + x) mod n \<ge> b then (b + x) mod n - b else (b + x) mod n + n - b) = x"
  using assms by (auto simp: ring_shift)

lemma rot_unrot:
  assumes "v < n" "r < (n :: nat)" "n \<le> 96"
  shows "(let o1 = ((v + r) mod n + (2 ^ 32 + n - r)) mod 2 ^ 32 in if o1 \<ge> n then o1 - n else o1) = v"
proof -
  have "(v + r) mod n + (2 ^ 32 + n - r) = 2 ^ 32 + ((v + r) mod n + n - r)" using assms by simp
  then have "((v + r) mod n + (2 ^ 32 + n - r)) mod 2 ^ 32 = ((v + r) mod n + n - r) mod 2 ^ 32" by simp
  also have "\<dots> = (v + r) mod n + n - r"
  proof (rule mod_less)
    have "(v + r) mod n < n" using assms by simp
    with assms have "(v + r) mod n + n - r < 192" by linarith
    also have "\<dots> < 2 ^ 32" by simp
    finally show "(v + r) mod n + n - r < 2 ^ 32" .
  qed
  finally show ?thesis using assms by (auto simp: Let_def ring_shift)
qed

lemma virt_phys_inverse:
  assumes ok: "frame_ok e" and v: "v < 96"
  shows "ia64_rse_phys_to_virt e (ia64_rse_virt_to_phys e v) = v \<and> ia64_rse_virt_to_phys e v < 96"
proof -
  note f = frame_okD [OF ok]
  let ?n = "8 * cfm_sor e" and ?r = "cfm_rrb_gr e" and ?b = "rse_bol e"
  have nr: "0 < ?n \<or> ?r = 0" using f(6) by auto
  let ?x = "rot_index ?n ?r v"
  have x: "?x < 96" using rot_index_bounds(2) [OF nr, of 96 v] f(1,3) v by simp
  have off: "(if ?b \<le> (?b + ?x) mod 96 then (?b + ?x) mod 96 - ?b else (?b + ?x) mod 96 + 96 - ?b) = ?x"
    by (rule ring_unshift [OF f(4) x])
  show ?thesis
  proof (cases "v < ?n")
    case True
    then have r: "?r < ?n" using f(6) by auto
    have "?n \<le> 96" using f(1,3) by simp
    note u = rot_unrot [OF True r this]
    have xx: "?x = (v + ?r) mod ?n" "?x < ?n" using True by (simp_all add: rot_index_def)
    show ?thesis
      unfolding virt_to_phys_alt [OF ok v] ia64_rse_phys_to_virt_def Let_def off f(5) if_P [OF xx(2)]
      unfolding xx(1) by (rule conjI [OF u [unfolded Let_def]]) simp
  next
    case False
    then have "?x = v" by (simp add: rot_index_def)
    with off False show ?thesis
      unfolding virt_to_phys_alt [OF ok v] ia64_rse_phys_to_virt_def Let_def f(5) by simp
  qed
qed

lemma virt_to_phys_inj:
  assumes "frame_ok e" "v < 96" "w < 96" "ia64_rse_virt_to_phys e v = ia64_rse_virt_to_phys e w"
  shows "v = w"
  using assms virt_phys_inverse by metis

lemma virt_to_phys_surj:
  assumes ok: "frame_ok e" and p: "p < 96"
  obtains v where "v < 96" "ia64_rse_virt_to_phys e v = p"
proof -
  have inj: "inj_on (ia64_rse_virt_to_phys e) {..<96}"
    by (rule inj_onI) (use virt_to_phys_inj [OF ok] in auto)
  have "ia64_rse_virt_to_phys e ` {..<96} \<subseteq> {..<96}" using virt_to_phys_less [OF ok] by auto
  then have "ia64_rse_virt_to_phys e ` {..<96} = {..<96}" by (rule endo_inj_surj [OF finite_lessThan _ inj])
  with p obtain v where "v < 96" "ia64_rse_virt_to_phys e v = p" by (metis imageE lessThan_iff)
  then show thesis by (rule that)
qed

lemma phys_virt_inverse:
  assumes ok: "frame_ok e" and p: "p < 96"
  shows "ia64_rse_virt_to_phys e (ia64_rse_phys_to_virt e p) = p \<and> ia64_rse_phys_to_virt e p < 96"
proof -
  obtain v where v: "v < 96" "ia64_rse_virt_to_phys e v = p" by (rule virt_to_phys_surj [OF ok p])
  with virt_phys_inverse [OF ok v(1)] show ?thesis by simp
qed

text \<open>
  C11: Inside a well-formed frame marker the logical and the physical register numbers determine each
  other: \<^const>\<open>ia64_rse_phys_to_virt\<close> undoes \<^const>\<open>ia64_rse_virt_to_phys\<close> for every stacked register
  and the other way round, rotation and wrap-around included.
\<close>

theorem phys_to_virt_to_phys:
  assumes "frame_ok e" and "v < 96" and "p < 96"
  shows "ia64_rse_virt_to_phys e v < 96 \<and> ia64_rse_phys_to_virt e (ia64_rse_virt_to_phys e v) = v \<and>
    ia64_rse_phys_to_virt e p < 96 \<and> ia64_rse_virt_to_phys e (ia64_rse_phys_to_virt e p) = p"
  using virt_phys_inverse [OF assms(1,2)] phys_virt_inverse [OF assms(1,3)] by blast

theorem phys_to_virt_witness:
  "ia64_rse_phys_to_virt ((env_zero False (\<lambda>_. 0))\<lparr>cfm_sof := 20, cfm_sol := 16, cfm_sor := 2, cfm_rrb_gr := 5,
     rse_bol := 90\<rparr>) (ia64_rse_virt_to_phys ((env_zero False (\<lambda>_. 0))\<lparr>cfm_sof := 20, cfm_sol := 16, cfm_sor := 2,
     cfm_rrb_gr := 5, rse_bol := 90\<rparr>) 13) = 13"
  using phys_to_virt_to_phys [of "(env_zero False (\<lambda>_. 0))\<lparr>cfm_sof := 20, cfm_sol := 16, cfm_sor := 2,
      cfm_rrb_gr := 5, rse_bol := 90\<rparr>" 13 0]
  by (simp add: frame_ok_def ia64_cfm_frame_fields_valid_def)

section \<open>Writing the frame back\<close>

lemma copy_dirty:
  "ia64_rse_copy_dirty d src s dirty dst =
    (\<lambda>k. if d \<le> k \<and> bit dirty (k - d) then src (s + (k - d)) else dst k)"
proof (induction d src s dirty dst rule: ia64_rse_copy_dirty.induct)
  case (1 d src s dirty dst)
  show ?case
  proof (cases "dirty = 0")
    case True
    then show ?thesis by (simp add: ia64_rse_copy_dirty.simps [of d src s 0])
  next
    case False
    define b where "b = ctz_word dirty"
    define sh where "sh = drop_bit b dirty"
    note c = ctz_word_props [OF False, folded b_def, simplified]
    show ?thesis
    proof (cases "sh AND 15 = 15")
      case True
      define count where "count = ctz_word (NOT sh)"
      define keep where "keep = (if count = 64 then 0 else NOT (push_bit b (push_bit count (1 :: u64) - 1)))"
      have run: "bit dirty (b + i)" if "i < count" for i
      proof (cases "NOT sh = 0")
        case True
        then have "sh = - 1" by (metis bit.double_compl bit.compl_zero)
        moreover have "i < 64" using True that unfolding count_def by (simp add: ctz_word_zero)
        ultimately have "bit sh i" by simp
        then show ?thesis by (simp add: sh_def bit_drop_bit_eq)
      next
        case False
        have "\<not> bit (NOT sh) i" "i < 64"
          using ctz_word_props(3) [OF False] ctz_word_props(1) [OF False] that unfolding count_def by auto
        then show ?thesis by (simp add: bit_not_iff sh_def bit_drop_bit_eq)
      qed
      have run': "bit dirty i" if "b \<le> i" "i < b + count" for i
        using run [of "i - b"] that by simp
      have kept: "bit (dirty AND keep) i \<longleftrightarrow> bit dirty i \<and> \<not> (b \<le> i \<and> i < b + count)" for i
      proof (cases "count = 64")
        case True
        have "b \<le> i \<and> i < b + 64" if "bit dirty i"
          using bit_u64_less [OF that] c(3) [of i] that by (cases "i < b") auto
        with True show ?thesis by (auto simp: keep_def)
      next
        case False
        show ?thesis
          unfolding keep_def if_not_P [OF False] low_mask_eq bit_and_iff bit_not_iff bit_push_bit_iff bit_mask_iff
          using bit_u64_less [of dirty i] by auto
      qed
      have "ia64_rse_copy_dirty d src s dirty dst =
          ia64_rse_copy_dirty d src s (dirty AND keep) (copy_range dst (d + b) src (s + b) count)"
        using False True unfolding sh_def b_def count_def keep_def
        by (subst ia64_rse_copy_dirty.simps) (simp only: Let_def if_False if_True refl)
      also have "\<dots> = (\<lambda>k. if d \<le> k \<and> bit (dirty AND keep) (k - d) then src (s + (k - d))
          else copy_range dst (d + b) src (s + b) count k)"
        using "1.IH"(1) [OF False refl refl] True by (simp only: b_def sh_def count_def keep_def)
      finally show ?thesis
        using run' unfolding kept by (auto simp: fun_eq_iff copy_range_def)
    next
      case nr: False
      have "ia64_rse_copy_dirty d src s dirty dst =
          ia64_rse_copy_dirty d src s (dirty AND (dirty - 1)) (dst(d + b := src (s + b)))"
        using False nr by (subst ia64_rse_copy_dirty.simps) (simp add: Let_def b_def sh_def)
      also have "\<dots> = (\<lambda>k. if d \<le> k \<and> bit (dirty AND (dirty - 1)) (k - d) then src (s + (k - d))
          else (dst(d + b := src (s + b))) k)"
        using "1.IH"(2) [OF False refl refl] nr unfolding b_def sh_def by blast
      finally show ?thesis
        using c(2) unfolding bit_clear_lowest [OF False, folded b_def] by (auto simp: fun_eq_iff)
    qed
  qed
qed

lemma frame_dirty_bit:
  assumes "sof \<le> 96" "v < 128"
  shows "bits2_get (rse_frame_dirty sof d) v \<longleftrightarrow> v < sof \<and> bits2_get d v"
proof (cases "sof < 64")
  case True
  have m: "bit (if sof = 0 then 0 else push_bit sof 1 - 1 :: u64) v \<longleftrightarrow> v < sof"
    using True unfolding low_mask_eq by (auto simp: bit_mask_iff)
  show ?thesis
  proof (cases "v < 64")
    case v: True
    show ?thesis
      unfolding rse_frame_dirty_def case_prod_beta if_P [OF True] bits2_get_low [OF v] fst_conv bit_and_iff m by blast
  next
    case False
    then show ?thesis using True assms(2) by (simp add: rse_frame_dirty_def case_prod_beta bits2_get_high)
  qed
next
  case False
  have m: "bit (push_bit (sof - 64) 1 - 1 :: u64) k \<longleftrightarrow> k < sof - 64" for k
    using assms(1) unfolding low_mask_eq by (auto simp: bit_mask_iff)
  show ?thesis
  proof (cases "v < 64")
    case v: True
    then show ?thesis using False by (simp add: rse_frame_dirty_def case_prod_beta bits2_get_low)
  next
    case v: False
    then have v': "64 \<le> v" by simp
    have eq: "v - 64 < sof - 64 \<longleftrightarrow> v < sof" using v False by auto
    show ?thesis
      unfolding rse_frame_dirty_def case_prod_beta if_not_P [OF False] bits2_get_high [OF v' assms(2)] snd_conv bit_and_iff m eq
      by blast
  qed
qed

definition dirty_list :: "bits2 \<Rightarrow> nat list" where
  "dirty_list d = set_bits_of (fst d) @ map ((+) 64) (set_bits_of (snd d))"

lemma scan_dirty_fold: "scan_dirty body d e = fold body (dirty_list d) e"
  by (simp add: scan_dirty_def case_prod_beta scan_bits_fold dirty_list_def fold_map o_def)

lemma set_dirty_list: "set (dirty_list d) = {v. v < 128 \<and> bits2_get d v}"
proof -
  have "v \<in> set (dirty_list d) \<longleftrightarrow> v < 128 \<and> bits2_get d v" for v
  proof (cases "v < 64")
    case True
    then show ?thesis by (auto simp: dirty_list_def bits2_get_low)
  next
    case False
    then have "v = 64 + (v - 64)" by simp
    then have "v \<in> (+) 64 ` {i. bit (snd d) i} \<longleftrightarrow> bit (snd d) (v - 64)" by (metis (mono_tags, lifting) add_left_cancel imageE imageI mem_Collect_eq)
    moreover have "\<not> bit (fst d) v" using False bit_u64_less [of "fst d" v] by auto
    moreover have "v < 128" if "bit (snd d) (v - 64)" using bit_u64_less [OF that] by simp
    ultimately show ?thesis using False bits2_get_high [of v d] by (auto simp: dirty_list_def)
  qed
  then show ?thesis by blast
qed

lemma distinct_dirty_list: "distinct (dirty_list d)"
  using bit_u64_less [of "fst d"] by (auto simp: dirty_list_def distinct_map)

lemma fold_upd_at:
  assumes "distinct xs" "inj_on f (set xs)"
  shows "v \<in> set xs \<Longrightarrow> fold (\<lambda>v p. p(f v := g v)) xs p (f v) = g v"
    and "j \<notin> f ` set xs \<Longrightarrow> fold (\<lambda>v p. p(f v := g v)) xs p j = p j"
proof -
  show "v \<in> set xs \<Longrightarrow> fold (\<lambda>v p. p(f v := g v)) xs p (f v) = g v"
    using assms
  proof (induction xs arbitrary: p)
    case (Cons x xs)
    have other: "fold (\<lambda>v p. p(f v := g v)) ys q j = q j" if "j \<notin> f ` set ys" for ys q j
      using that by (induction ys arbitrary: q) auto
    show ?case
    proof (cases "v = x")
      case True
      with Cons.prems have "f x \<notin> f ` set xs" by (auto simp: inj_on_def)
      from other [OF this, of "p(f x := g x)"] True show ?thesis by (simp only: fold_simps fun_upd_same)
    next
      case False
      with Cons have "v \<in> set xs" "distinct xs" "inj_on f (set xs)" by auto
      then show ?thesis unfolding fold_simps by (rule Cons.IH)
    qed
  qed simp
  show "j \<notin> f ` set xs \<Longrightarrow> fold (\<lambda>v p. p(f v := g v)) xs p j = p j"
    by (induction xs arbitrary: p) auto
qed

lemma fold_bits2_at:
  assumes "distinct xs" "inj_on f (set xs)" "\<forall>v\<in>set xs. f v < 128"
  shows "v \<in> set xs \<Longrightarrow> bits2_get (fold (\<lambda>v b. bits2_set b (f v) (g v)) xs b) (f v) = g v"
    and "j < 128 \<Longrightarrow> j \<notin> f ` set xs \<Longrightarrow> bits2_get (fold (\<lambda>v b. bits2_set b (f v) (g v)) xs b) j = bits2_get b j"
proof -
  have other: "bits2_get (fold (\<lambda>v b. bits2_set b (f v) (g v)) ys c) j = bits2_get c j"
    if "j \<notin> f ` set ys" "j < 128" "\<forall>v\<in>set ys. f v < 128" for ys c j
    using that by (induction ys arbitrary: c) (auto simp: bits2_get_set)
  show "v \<in> set xs \<Longrightarrow> bits2_get (fold (\<lambda>v b. bits2_set b (f v) (g v)) xs b) (f v) = g v"
    using assms
  proof (induction xs arbitrary: b)
    case (Cons x xs)
    show ?case
    proof (cases "v = x")
      case True
      with Cons.prems have "f x \<notin> f ` set xs" by (auto simp: inj_on_def)
      with True Cons.prems show ?thesis by (simp add: other bits2_get_set)
    next
      case False
      with Cons show ?thesis by simp
    qed
  qed simp
  show "j < 128 \<Longrightarrow> j \<notin> f ` set xs \<Longrightarrow> bits2_get (fold (\<lambda>v b. bits2_set b (f v) (g v)) xs b) j = bits2_get b j"
    using assms(3) by (simp add: other)
qed

text \<open>
  The effect of a write-back: every dirty register of the frame is in the file at its physical
  position, value and NaT bit, and nothing else has changed but the dirty marks.
\<close>

definition written_back :: "env \<Rightarrow> env \<Rightarrow> bool" where
  "written_back e e' \<longleftrightarrow>
     e' = e\<lparr>rse_gr_dirty := (0, 0), rse_pgr := rse_pgr e', rse_pgr_nat := rse_pgr_nat e'\<rparr> \<and>
     (\<forall>v<cfm_sof e. bits2_get (rse_gr_dirty e) v \<longrightarrow>
        rse_pgr e' (ia64_rse_virt_to_phys e v) = gr e (32 + v) \<and>
        bits2_get (rse_pgr_nat e') (ia64_rse_virt_to_phys e v) = bits2_get (nat_bits e) (32 + v)) \<and>
     (\<forall>p. (\<forall>v<cfm_sof e. bits2_get (rse_gr_dirty e) v \<longrightarrow> ia64_rse_virt_to_phys e v \<noteq> p) \<longrightarrow>
        rse_pgr e' p = rse_pgr e p \<and> (p < 128 \<longrightarrow> bits2_get (rse_pgr_nat e') p = bits2_get (rse_pgr_nat e) p))"

lemma scan_pgr:
  "fold (\<lambda>v e. e\<lparr>rse_pgr := (rse_pgr e)(f v := gr e (32 + v))\<rparr>) xs e =
    e\<lparr>rse_pgr := fold (\<lambda>v p. p(f v := gr e (32 + v))) xs (rse_pgr e)\<rparr>"
  by (induction xs arbitrary: e) simp_all

lemma scan_pgr_nat:
  "fold (\<lambda>v e. ia64_rse_pgr_nat_set (f v) (n v) (e\<lparr>rse_pgr := (rse_pgr e)(f v := gr e (32 + v))\<rparr>)) xs e =
    e\<lparr>rse_pgr := fold (\<lambda>v p. p(f v := gr e (32 + v))) xs (rse_pgr e),
      rse_pgr_nat := fold (\<lambda>v b. bits2_set b (f v) (n v)) xs (rse_pgr_nat e)\<rparr>"
  by (induction xs arbitrary: e) (simp_all add: ia64_rse_pgr_nat_set_def)


lemma written_backI:
  assumes "e' = e\<lparr>rse_gr_dirty := (0, 0), rse_pgr := pgr, rse_pgr_nat := nats\<rparr>"
    and "\<And>v. v < cfm_sof e \<Longrightarrow> bits2_get (rse_gr_dirty e) v \<Longrightarrow>
        pgr (ia64_rse_virt_to_phys e v) = gr e (32 + v) \<and>
        bits2_get nats (ia64_rse_virt_to_phys e v) = bits2_get (nat_bits e) (32 + v)"
    and "\<And>p. (\<And>v. v < cfm_sof e \<Longrightarrow> bits2_get (rse_gr_dirty e) v \<Longrightarrow> ia64_rse_virt_to_phys e v \<noteq> p) \<Longrightarrow>
        pgr p = rse_pgr e p \<and> (p < 128 \<longrightarrow> bits2_get nats p = bits2_get (rse_pgr_nat e) p)"
  shows "written_back e e'"
  using assms(2,3) unfolding written_back_def assms(1) by simp

lemma frame_dirty_list:
  assumes ok: "frame_ok e" and f: "\<forall>v<cfm_sof e. f v = ia64_rse_virt_to_phys e v"
  defines "xs \<equiv> dirty_list (rse_frame_dirty (cfm_sof e) (rse_gr_dirty e))"
  shows "v \<in> set xs \<longleftrightarrow> v < cfm_sof e \<and> bits2_get (rse_gr_dirty e) v"
    and "inj_on f (set xs)" and "\<forall>v\<in>set xs. f v < 128" and "distinct xs"
proof -
  note fr = frame_okD [OF ok]
  have mem: "v \<in> set xs \<longleftrightarrow> v < cfm_sof e \<and> bits2_get (rse_gr_dirty e) v" for v
    using fr(1) frame_dirty_bit [of "cfm_sof e" v "rse_gr_dirty e"] unfolding xs_def set_dirty_list by auto
  then show "v \<in> set xs \<longleftrightarrow> v < cfm_sof e \<and> bits2_get (rse_gr_dirty e) v" .
  have lt: "v < 96" if "v < cfm_sof e" for v using that fr(1) by simp
  show "inj_on f (set xs)"
    by (rule inj_onI) (use mem f lt virt_to_phys_inj [OF ok] in metis)
  show "\<forall>v\<in>set xs. f v < 128"
  proof
    fix v assume "v \<in> set xs"
    then have v: "v < cfm_sof e" by (simp add: mem)
    have "f v < 96" using virt_to_phys_less [OF ok lt [OF v]] f v by simp
    then show "f v < 128" by simp
  qed
  show "distinct xs" unfolding xs_def by (rule distinct_dirty_list)
qed

lemma scan_written_back:
  assumes ok: "frame_ok e" and f: "\<forall>v<cfm_sof e. f v = ia64_rse_virt_to_phys e v"
    and n: "\<forall>v<cfm_sof e. n v = bits2_get (nat_bits e) (32 + v)"
  defines "xs \<equiv> dirty_list (rse_frame_dirty (cfm_sof e) (rse_gr_dirty e))"
  shows "written_back e (e\<lparr>rse_gr_dirty := (0, 0),
    rse_pgr := fold (\<lambda>v p. p(f v := gr e (32 + v))) xs (rse_pgr e),
    rse_pgr_nat := fold (\<lambda>v b. bits2_set b (f v) (n v)) xs (rse_pgr_nat e)\<rparr>)"
proof (rule written_backI [OF refl])
  note l = frame_dirty_list [OF ok f, folded xs_def]
  note at = fold_upd_at [OF l(4,2)] fold_bits2_at [OF l(4,2,3)]
  { fix v assume v: "v < cfm_sof e" "bits2_get (rse_gr_dirty e) v"
    then have m: "v \<in> set xs" by (simp add: l)
    show "fold (\<lambda>v p. p(f v := gr e (32 + v))) xs (rse_pgr e) (ia64_rse_virt_to_phys e v) = gr e (32 + v) \<and>
      bits2_get (fold (\<lambda>v b. bits2_set b (f v) (n v)) xs (rse_pgr_nat e)) (ia64_rse_virt_to_phys e v) =
        bits2_get (nat_bits e) (32 + v)"
      using at(1,3) [OF m] f n v(1) by simp }
  { fix p assume n: "\<And>v. v < cfm_sof e \<Longrightarrow> bits2_get (rse_gr_dirty e) v \<Longrightarrow> ia64_rse_virt_to_phys e v \<noteq> p"
    have p: "p \<notin> f ` set xs"
    proof
      assume "p \<in> f ` set xs"
      then obtain v where "v < cfm_sof e" "bits2_get (rse_gr_dirty e) v" "p = f v" using l(1) by (auto simp del: fold_simps)
      with n f show False by metis
    qed
    show "fold (\<lambda>v p. p(f v := gr e (32 + v))) xs (rse_pgr e) p = rse_pgr e p \<and>
      (p < 128 \<longrightarrow> bits2_get (fold (\<lambda>v b. bits2_set b (f v) (n v)) xs (rse_pgr_nat e)) p = bits2_get (rse_pgr_nat e) p)"
      by (rule conjI [OF at(2) [OF p]]) (rule impI, erule at(4) [OF _ p]) }
qed

text \<open>When no NaT bit is set anywhere, the copies skip the NaT files.\<close>

definition stacked_nats_clear :: "env \<Rightarrow> bool" where
  "stacked_nats_clear e \<longleftrightarrow>
     drop_bit 32 (fst (nat_bits e)) OR snd (nat_bits e) OR fst (rse_pgr_nat e) OR snd (rse_pgr_nat e) = 0"

lemma stacked_nats_clearD:
  assumes "stacked_nats_clear e"
  shows "p < 128 \<Longrightarrow> \<not> bits2_get (rse_pgr_nat e) p" and "v < 96 \<Longrightarrow> \<not> bits2_get (nat_bits e) (32 + v)"
proof -
  have z: "drop_bit 32 (fst (nat_bits e)) = 0" "snd (nat_bits e) = 0" "fst (rse_pgr_nat e) = 0" "snd (rse_pgr_nat e) = 0"
    using assms unfolding stacked_nats_clear_def by (simp_all add: or_eq_0_iff)
  show "p < 128 \<Longrightarrow> \<not> bits2_get (rse_pgr_nat e) p"
    using z by (cases "p < 64") (simp_all add: bits2_get_low bits2_get_high)
  show "v < 96 \<Longrightarrow> \<not> bits2_get (nat_bits e) (32 + v)"
  proof (cases "v < 32")
    case True
    have "\<not> bit (drop_bit 32 (fst (nat_bits e))) v" using z(1) by simp
    with True show ?thesis by (simp add: bits2_get_low bit_drop_bit_eq)
  qed (use z in \<open>simp_all add: bits2_get_high\<close>)
qed

lemma written_back_clear:
  assumes ok: "frame_ok e" and c: "stacked_nats_clear e"
    and w: "written_back e (e\<lparr>rse_gr_dirty := (0, 0), rse_pgr := pgr, rse_pgr_nat := nats\<rparr>)"
  shows "written_back e (e\<lparr>rse_gr_dirty := (0, 0), rse_pgr := pgr\<rparr>)"
proof (rule written_backI [where nats = "rse_pgr_nat e"])
  note fr = frame_okD [OF ok]
  fix v assume v: "v < cfm_sof e" "bits2_get (rse_gr_dirty e) v"
  with fr(1) have "v < 96" by simp
  with v show "pgr (ia64_rse_virt_to_phys e v) = gr e (32 + v) \<and>
      bits2_get (rse_pgr_nat e) (ia64_rse_virt_to_phys e v) = bits2_get (nat_bits e) (32 + v)"
    using w stacked_nats_clearD [OF c] virt_to_phys_less [OF ok, of v] by (auto simp: written_back_def)
next
  fix p assume "\<And>v. v < cfm_sof e \<Longrightarrow> bits2_get (rse_gr_dirty e) v \<Longrightarrow> ia64_rse_virt_to_phys e v \<noteq> p"
  then show "pgr p = rse_pgr e p \<and> (p < 128 \<longrightarrow> bits2_get (rse_pgr_nat e) p = bits2_get (rse_pgr_nat e) p)"
    using w by (auto simp: written_back_def)
qed simp


lemma sync_out_slow_written_back:
  assumes ok: "frame_ok e"
  shows "written_back e (ia64_rse_sync_frame_out_slow (rse_gr_dirty e) e)"
proof -
  note fr = frame_okD [OF ok]
  let ?mapped = "\<lambda>v. let p = (if v < ia64_rse_rotating_gr_count e then
                   let p1 = v + cfm_rrb_gr e in
                     if p1 \<ge> ia64_rse_rotating_gr_count e then p1 - ia64_rse_rotating_gr_count e else p1
                 else v) + rse_bol e
            in if p \<ge> 96 then p - 96 else p"
  let ?nat = "\<lambda>v. if v < 32 then bit (fst (nat_bits e)) (32 + v) else bit (snd (nat_bits e)) (v - 32)"
  let ?xs = "dirty_list (rse_frame_dirty (cfm_sof e) (rse_gr_dirty e))"
  let ?e1 = "e\<lparr>rse_gr_dirty := (0, 0)\<rparr>"
  have f: "\<forall>v<cfm_sof e. ?mapped v = ia64_rse_virt_to_phys e v"
    by (simp add: ia64_rse_virt_to_phys_def Let_def not_less add.commute)
  have n: "\<forall>v<cfm_sof e. ?nat v = bits2_get (nat_bits e) (32 + v)"
    using fr(1) by (auto simp: bits2_get_low bits2_get_high)
  note w = scan_written_back [OF ok]
  have sel: "gr ?e1 = gr e" "rse_pgr ?e1 = rse_pgr e" "rse_pgr_nat ?e1 = rse_pgr_nat e" by simp_all
  consider (direct) "stacked_nats_clear e" "(ia64_rse_rotating_gr_count e = 0 \<or> cfm_rrb_gr e = 0) \<and> rse_bol e + cfm_sof e \<le> 96"
    | (clear) "stacked_nats_clear e" "\<not> ((ia64_rse_rotating_gr_count e = 0 \<or> cfm_rrb_gr e = 0) \<and> rse_bol e + cfm_sof e \<le> 96)"
    | (nats) "\<not> stacked_nats_clear e" by metis
  then show ?thesis
  proof cases
    case direct
    have d: "\<forall>v<cfm_sof e. rse_bol e + v = ia64_rse_virt_to_phys e v"
      using direct(2) by (auto simp: ia64_rse_virt_to_phys_def Let_def)
    have "ia64_rse_sync_frame_out_slow (rse_gr_dirty e) e =
        fold (\<lambda>v t. t\<lparr>rse_pgr := (rse_pgr t)(rse_bol e + v := gr t (32 + v))\<rparr>) ?xs ?e1"
      using direct unfolding ia64_rse_sync_frame_out_slow_def Let_def stacked_nats_clear_def scan_dirty_fold
      by (simp only: if_False if_True simp_thms)
    then show ?thesis
      unfolding scan_pgr sel using written_back_clear [OF ok direct(1) w [OF d n]] by simp
  next
    case clear
    have "ia64_rse_sync_frame_out_slow (rse_gr_dirty e) e =
        fold (\<lambda>v e. e\<lparr>rse_pgr := (rse_pgr e)(?mapped v := gr e (32 + v))\<rparr>) ?xs ?e1"
      using clear unfolding ia64_rse_sync_frame_out_slow_def Let_def stacked_nats_clear_def scan_dirty_fold
      by (simp only: if_False if_True simp_thms)
    then show ?thesis
      unfolding scan_pgr sel using written_back_clear [OF ok clear(1) w [OF f n]] by simp
  next
    case nats
    have "ia64_rse_sync_frame_out_slow (rse_gr_dirty e) e =
        fold (\<lambda>v e. ia64_rse_pgr_nat_set (?mapped v) (?nat v) (e\<lparr>rse_pgr := (rse_pgr e)(?mapped v := gr e (32 + v))\<rparr>)) ?xs ?e1"
      using nats unfolding ia64_rse_sync_frame_out_slow_def Let_def stacked_nats_clear_def scan_dirty_fold
      by (simp only: if_False if_True simp_thms)
    then show ?thesis
      unfolding scan_pgr_nat sel using w [OF f n] by simp
  qed
qed


lemma sync_out_direct_written_back:
  assumes ok: "frame_ok e" and c: "stacked_nats_clear e"
    and z: "cfm_sor e = 0 \<or> cfm_rrb_gr e = 0" "rse_bol e + cfm_sof e \<le> 96"
  shows "written_back e (ia64_rse_sync_frame_out_direct (rse_gr_dirty e) (cfm_sof e) (rse_bol e) e)"
proof -
  note fr = frame_okD [OF ok]
  obtain d0 d1 where d: "rse_frame_dirty (cfm_sof e) (rse_gr_dirty e) = (d0, d1)" by fastforce
  let ?pgr = "\<lambda>p. if rse_bol e \<le> p \<and> p - rse_bol e < 128 \<and> bits2_get (d0, d1) (p - rse_bol e)
    then gr e (32 + (p - rse_bol e)) else rse_pgr e p"
  have mem: "bits2_get (d0, d1) v \<longleftrightarrow> v < cfm_sof e \<and> bits2_get (rse_gr_dirty e) v" if "v < 128" for v
    using frame_dirty_bit [OF fr(1) that, of "rse_gr_dirty e"] d by simp
  have f: "rse_bol e + v = ia64_rse_virt_to_phys e v" if "v < cfm_sof e" for v
    using z that fr(5) by (auto simp: ia64_rse_virt_to_phys_def Let_def)
  have two: "(if rse_bol e + 64 \<le> k \<and> bit d1 (k - (rse_bol e + 64)) then gr e (96 + (k - (rse_bol e + 64)))
      else if rse_bol e \<le> k \<and> bit d0 (k - rse_bol e) then gr e (32 + (k - rse_bol e)) else rse_pgr e k) = ?pgr k" for k
  proof (cases "rse_bol e \<le> k")
    case True
    then obtain v where k: "k = rse_bol e + v" using le_Suc_ex by blast
    consider "v < 64" | "64 \<le> v" "v < 128" | "128 \<le> v" by linarith
    then show ?thesis
      using bit_u64_less [of d0 v] bit_u64_less [of d1 "v - 64"] unfolding k
      by cases (auto simp: bits2_get_low bits2_get_high)
  qed auto
  have "ia64_rse_sync_frame_out_direct (rse_gr_dirty e) (cfm_sof e) (rse_bol e) e =
      e\<lparr>rse_gr_dirty := (0, 0), rse_pgr := ?pgr\<rparr>"
  proof -
    have "(if d1 \<noteq> 0 then ia64_rse_copy_dirty (rse_bol e + 64) (gr e) (32 + 64) d1
          (ia64_rse_copy_dirty (rse_bol e) (gr e) 32 d0 (rse_pgr e))
        else ia64_rse_copy_dirty (rse_bol e) (gr e) 32 d0 (rse_pgr e)) = ?pgr"
      unfolding two [symmetric] copy_dirty by (cases "d1 = 0") (simp_all add: fun_eq_iff)
    moreover have "gr (e\<lparr>rse_gr_dirty := x\<rparr>) = gr e" "rse_pgr (e\<lparr>rse_gr_dirty := x\<rparr>) = rse_pgr e" for x by simp_all
    ultimately show ?thesis unfolding ia64_rse_sync_frame_out_direct_def d Let_def prod.case by (simp only:)
  qed
  moreover have "written_back e (e\<lparr>rse_gr_dirty := (0, 0), rse_pgr := ?pgr\<rparr>)"
  proof (rule written_backI [where nats = "rse_pgr_nat e"])
    fix v assume v: "v < cfm_sof e" "bits2_get (rse_gr_dirty e) v"
    then have "v < 96" using fr(1) by simp
    with v mem [of v] f [of v, symmetric] stacked_nats_clearD [OF c] z(2)
    show "?pgr (ia64_rse_virt_to_phys e v) = gr e (32 + v) \<and>
        bits2_get (rse_pgr_nat e) (ia64_rse_virt_to_phys e v) = bits2_get (nat_bits e) (32 + v)" by simp
  next
    fix p assume n: "\<And>v. v < cfm_sof e \<Longrightarrow> bits2_get (rse_gr_dirty e) v \<Longrightarrow> ia64_rse_virt_to_phys e v \<noteq> p"
    have "\<not> (rse_bol e \<le> p \<and> p - rse_bol e < 128 \<and> bits2_get (d0, d1) (p - rse_bol e))"
      using n [of "p - rse_bol e"] f [of "p - rse_bol e"] mem [of "p - rse_bol e"] by auto
    then show "?pgr p = rse_pgr e p \<and> (p < 128 \<longrightarrow> bits2_get (rse_pgr_nat e) p = bits2_get (rse_pgr_nat e) p)"
      by (simp only: if_False simp_thms)
  qed simp
  ultimately show ?thesis by simp
qed

lemma sync_frame_out:
  assumes ok: "frame_ok e"
  shows "written_back e (ia64_rse_sync_frame_out e)"
proof -
  obtain d0 d1 where d: "rse_gr_dirty e = (d0, d1)" by fastforce
  show ?thesis
  proof (cases "d0 OR d1 = 0")
    case True
    then have z: "rse_gr_dirty e = (0, 0)" by (simp add: d or_eq_0_iff)
    have nd: "\<not> bits2_get (0, 0) v" for v by (simp add: bits2_get_def)
    have "e = e\<lparr>rse_gr_dirty := (0, 0), rse_pgr := rse_pgr e, rse_pgr_nat := rse_pgr_nat e\<rparr>" using z by simp
    then have "written_back e e" by (rule written_backI) (simp_all add: z nd)
    with True show ?thesis by (simp add: ia64_rse_sync_frame_out_def d)
  next
    case False
    show ?thesis
    proof (cases "stacked_nats_clear e \<and> (cfm_sor e = 0 \<or> cfm_rrb_gr e = 0) \<and> rse_bol e + cfm_sof e \<le> 96")
      case True
      then have "ia64_rse_sync_frame_out e = ia64_rse_sync_frame_out_direct (rse_gr_dirty e) (cfm_sof e) (rse_bol e) e"
        using False unfolding ia64_rse_sync_frame_out_def d prod.case Let_def stacked_nats_clear_def
        by (simp only: if_False if_True simp_thms)
      with sync_out_direct_written_back [OF ok] True show ?thesis by simp
    next
      case False2: False
      then have "ia64_rse_sync_frame_out e = ia64_rse_sync_frame_out_slow (rse_gr_dirty e) e"
        using False unfolding ia64_rse_sync_frame_out_def d prod.case Let_def stacked_nats_clear_def
        by (simp only: if_False if_True simp_thms)
      with sync_out_slow_written_back [OF ok] show ?thesis by simp
    qed
  qed
qed


text \<open>The copy of the file into the logical view.\<close>

definition frame_loaded :: "nat \<Rightarrow> nat \<Rightarrow> env \<Rightarrow> env \<Rightarrow> bool" where
  "frame_loaded first past e e' \<longleftrightarrow>
     e' = e\<lparr>gr := gr e', nat_bits := nat_bits e', rse_gr_dirty := rse_gr_dirty e'\<rparr> \<and>
     (\<forall>v. first \<le> v \<and> v < past \<longrightarrow>
        gr e' (32 + v) = rse_pgr e (ia64_rse_virt_to_phys e v) \<and>
        bits2_get (nat_bits e') (32 + v) = bits2_get (rse_pgr_nat e) (ia64_rse_virt_to_phys e v)) \<and>
     (\<forall>r. \<not> (32 + first \<le> r \<and> r < 32 + past) \<longrightarrow>
        gr e' r = gr e r \<and> (r < 128 \<longrightarrow> bits2_get (nat_bits e') r = bits2_get (nat_bits e) r))"


lemma rse_block_core:
  assumes b: "b < 96" and p: "p = (if b + m \<ge> 96 then b + m - 96 else b + m)" and n: "n = min s (96 - p)"
    and s: "0 < s" "s \<le> past - first" "m + s \<le> 96" "first < past"
    and f: "\<And>i. i < s \<Longrightarrow> f (first + i) = (if b + (m + i) < 96 then b + (m + i) else b + (m + i) - (96 :: nat))"
  shows "0 < n \<and> first + n \<le> past \<and> p + n \<le> 96 \<and> (\<forall>i<n. f (first + i) = p + i)"
proof -
  have p96: "p < 96" using b s p by (simp split: if_splits)
  have ns: "n \<le> s" "n \<le> 96 - p" using n by simp_all
  have "f (first + i) = p + i" if "i < n" for i
  proof (cases "b + m \<ge> 96")
    case True
    with that ns f [of i] p show ?thesis by simp
  next
    case False
    with that ns(2) p have "b + (m + i) < 96" by simp
    with False that ns f [of i] p show ?thesis by simp
  qed
  with p96 ns n s show ?thesis by auto
qed

lemma rse_block_map:
  assumes ok: "frame_ok e" and fp: "first < past" "past \<le> 96"
    and b: "rse_block (rse_bol e) (8 * cfm_sor e) (cfm_rrb_gr e) past first = (p, n)"
  shows "0 < n \<and> first + n \<le> past \<and> p + n \<le> 96 \<and> (\<forall>i<n. ia64_rse_virt_to_phys e (first + i) = p + i)"
proof -
  note fr = frame_okD [OF ok]
  let ?n = "8 * cfm_sor e" and ?r = "cfm_rrb_gr e" and ?b = "rse_bol e"
  note def = b [unfolded rse_block_def Let_def]
  have n96: "?n \<le> 96" using fr(1,3) by simp
  show ?thesis
  proof (cases "first < ?n \<and> ?r \<noteq> 0")
    case True
    then have r: "?r < ?n" using fr(6) by auto
    define m where "m = (if first + ?r \<ge> ?n then first + ?r - ?n else first + ?r)"
    define s where "s = min (past - first) (min (?n - first) (?n - m))"
    have m: "m < ?n" using True r by (auto simp: m_def)
    have p: "p = (if ?b + m \<ge> 96 then ?b + m - 96 else ?b + m)"
      using def True unfolding m_def by (simp only: if_True if_False simp_thms prod.inject)
    have n: "n = min s (96 - p)"
      using def True unfolding p s_def m_def by (simp only: if_True if_False simp_thms prod.inject)
    have s: "0 < s" "s \<le> past - first" "s \<le> ?n - first" "s \<le> ?n - m" using True m fp by (auto simp: s_def)
    have v: "ia64_rse_virt_to_phys e (first + i) = (if ?b + (m + i) < 96 then ?b + (m + i) else ?b + (m + i) - 96)"
      if "i < s" for i
    proof -
      have lt: "first + i < ?n" "m + i < ?n" using that s m True by simp_all
      have "(if first + i + ?r \<ge> ?n then first + i + ?r - ?n else first + i + ?r) = m + i"
        using lt by (simp add: m_def split: if_splits)
      then show ?thesis unfolding ia64_rse_virt_to_phys_def Let_def fr(5) if_P [OF lt(1)] by simp
    qed
    have "m + s \<le> 96" using s(4) m n96 by simp
    then show ?thesis by (rule rse_block_core [OF fr(4) p n s(1,2) _ fp(1) v])
  next
    case False
    define s where "s = past - first"
    have p: "p = (if ?b + first \<ge> 96 then ?b + first - 96 else ?b + first)"
      using def False by (simp only: if_True if_False simp_thms prod.inject)
    have n: "n = min s (96 - p)"
      using def False unfolding p s_def by (simp only: if_True if_False simp_thms prod.inject)
    have v: "ia64_rse_virt_to_phys e (first + i) = (if ?b + (first + i) < 96 then ?b + (first + i) else ?b + (first + i) - 96)" for i
      using False fr(5) by (auto simp: ia64_rse_virt_to_phys_def Let_def)
    show ?thesis by (rule rse_block_core [OF fr(4) p n]) (use fp v in \<open>simp_all add: s_def\<close>)
  qed
qed

lemma frame_loaded_refl: "past \<le> first \<Longrightarrow> frame_loaded first past e e"
  by (auto simp: frame_loaded_def)

lemma virt_to_phys_cong:
  "rse_bol e' = rse_bol e \<Longrightarrow> cfm_sof e' = cfm_sof e \<Longrightarrow> cfm_sor e' = cfm_sor e \<Longrightarrow> cfm_rrb_gr e' = cfm_rrb_gr e \<Longrightarrow>
    ia64_rse_virt_to_phys e' = ia64_rse_virt_to_phys e"
  by (rule ext) (simp only: ia64_rse_virt_to_phys_def ia64_rse_rotating_gr_count_def Let_def)

lemma frame_loaded_step:
  assumes step: "e1 = e\<lparr>gr := copy_range (gr e) (32 + first) (rse_pgr e) p n, nat_bits := nats\<rparr>"
    and n: "first + n \<le> past" "past \<le> 96"
    and v: "\<forall>i<n. ia64_rse_virt_to_phys e (first + i) = p + i"
    and nat: "\<And>r. r < 128 \<Longrightarrow> bits2_get nats r =
      (if 32 + first \<le> r \<and> r < 32 + first + n then bits2_get (rse_pgr_nat e) (r - (32 + first) + p) else bits2_get (nat_bits e) r)"
    and rest: "frame_loaded (first + n) past e1 e'"
  shows "frame_loaded first past e e'"
proof -
  note r = rest [unfolded frame_loaded_def]
  have vp: "ia64_rse_virt_to_phys e1 = ia64_rse_virt_to_phys e" unfolding step by (rule virt_to_phys_cong) simp_all
  have fields: "rse_pgr e1 = rse_pgr e" "rse_pgr_nat e1 = rse_pgr_nat e" "nat_bits e1 = nats"
    "gr e1 = copy_range (gr e) (32 + first) (rse_pgr e) p n" by (simp_all add: step)
  have r1: "e' = e1\<lparr>gr := gr e', nat_bits := nat_bits e', rse_gr_dirty := rse_gr_dirty e'\<rparr>" using r by blast
  show ?thesis unfolding frame_loaded_def
  proof (intro conjI allI impI)
    show "e' = e\<lparr>gr := gr e', nat_bits := nat_bits e', rse_gr_dirty := rse_gr_dirty e'\<rparr>"
      by (subst r1) (simp add: step)
  next
    fix w assume w: "first \<le> w \<and> w < past"
    have "gr e' (32 + w) = rse_pgr e (ia64_rse_virt_to_phys e w) \<and>
        bits2_get (nat_bits e') (32 + w) = bits2_get (rse_pgr_nat e) (ia64_rse_virt_to_phys e w)"
    proof (cases "w < first + n")
      case False
      then show ?thesis using r w unfolding vp fields by simp
    next
      case True
      then have out: "\<not> (32 + (first + n) \<le> 32 + w \<and> 32 + w < 32 + past)" by simp
      from True w have vw: "ia64_rse_virt_to_phys e w = p + (w - first)" using v [rule_format, of "w - first"] by (simp add: less_diff_conv2)
      have "gr e' (32 + w) = gr e1 (32 + w)" "bits2_get (nat_bits e') (32 + w) = bits2_get (nat_bits e1) (32 + w)"
        using r out w n by simp_all
      with True w n nat [of "32 + w"] show ?thesis unfolding vw fields by (simp add: copy_range_def add.commute)
    qed
    then show "gr e' (32 + w) = rse_pgr e (ia64_rse_virt_to_phys e w)"
      "bits2_get (nat_bits e') (32 + w) = bits2_get (rse_pgr_nat e) (ia64_rse_virt_to_phys e w)" by blast+
  next
    fix q assume q: "\<not> (32 + first \<le> q \<and> q < 32 + past)"
    then have out: "\<not> (32 + (first + n) \<le> q \<and> q < 32 + past)" by auto
    have e1: "gr e1 q = gr e q" using q n unfolding fields by (auto simp: copy_range_def)
    show "gr e' q = gr e q" using r out e1 by simp
    assume "q < 128"
    with nat [of q] q n r out fields(3) show "bits2_get (nat_bits e') q = bits2_get (nat_bits e) q" by auto
  qed
qed


lemma sync_in_blocks:
  assumes "frame_ok e" and "past \<le> 96" and "nat_clear \<longrightarrow> fst (rse_pgr_nat e) OR snd (rse_pgr_nat e) = 0"
  shows "frame_loaded first past e (rse_sync_in_blocks (8 * cfm_sor e) (cfm_rrb_gr e) nat_clear past first e)"
  using assms
proof (induction "8 * cfm_sor e" "cfm_rrb_gr e" nat_clear past first e rule: rse_sync_in_blocks.induct)
  case (1 nat_clear past first e)
  obtain p n where b: "rse_block (rse_bol e) (8 * cfm_sor e) (cfm_rrb_gr e) past first = (p, n)" by fastforce
  let ?nats = "if nat_clear then ia64_clear_bit_range (nat_bits e) (32 + first) n
    else ia64_copy_bit_range (nat_bits e) (32 + first) (rse_pgr_nat e) p n"
  let ?e1 = "e\<lparr>gr := copy_range (gr e) (32 + first) (rse_pgr e) p n, nat_bits := ?nats\<rparr>"
  show ?case
  proof (cases "first < past")
    case False
    then show ?thesis
      by (subst rse_sync_in_blocks.simps) (simp add: b frame_loaded_refl)
  next
    case True
    note m = rse_block_map [OF "1.prems"(1) True "1.prems"(2) b]
    have ok1: "frame_ok ?e1" using "1.prems"(1) by (simp add: frame_ok_def)
    have f: "cfm_sor ?e1 = cfm_sor e" "cfm_rrb_gr ?e1 = cfm_rrb_gr e" "rse_pgr_nat ?e1 = rse_pgr_nat e" by simp_all
    have ih: "frame_loaded (first + n) past ?e1
        (rse_sync_in_blocks (8 * cfm_sor e) (cfm_rrb_gr e) nat_clear past (first + n) ?e1)"
      using "1.hyps" [OF b [symmetric] refl] True m ok1 "1.prems"(2,3) f by simp
    have eq: "rse_sync_in_blocks (8 * cfm_sor e) (cfm_rrb_gr e) nat_clear past first e =
        rse_sync_in_blocks (8 * cfm_sor e) (cfm_rrb_gr e) nat_clear past (first + n) ?e1"
      using True m by (subst rse_sync_in_blocks.simps) (simp add: b)
    have nat: "bits2_get ?nats r =
      (if 32 + first \<le> r \<and> r < 32 + first + n then bits2_get (rse_pgr_nat e) (r - (32 + first) + p) else bits2_get (nat_bits e) r)"
      if "r < 128" for r
    proof (cases nat_clear)
      case c: True
      then have "\<not> bits2_get (rse_pgr_nat e) i" for i using "1.prems"(3) by (simp add: bits2_get_def or_eq_0_iff)
      with c m "1.prems"(2) that show ?thesis by (simp add: bits2_get_clear)
    next
      case c: False
      with m "1.prems"(2) that show ?thesis by (simp add: bits2_get_copy)
    qed
    show ?thesis unfolding eq
      by (rule frame_loaded_step [OF refl _ "1.prems"(2) _ nat ih]) (use m in blast)+
  qed
qed


lemma sync_frame_in_range:
  assumes ok: "frame_ok e"
  shows "frame_loaded first (min (first + count) (cfm_sof e)) e (ia64_rse_sync_frame_in_range first count e)"
proof -
  note fr = frame_okD [OF ok]
  have "\<not> (8 * cfm_sor e \<noteq> 0 \<and> cfm_rrb_gr e \<ge> 8 * cfm_sor e)" using fr(6) by auto
  then have "ia64_rse_sync_frame_in_range first count e =
      rse_sync_in_blocks (8 * cfm_sor e) (cfm_rrb_gr e) (fst (rse_pgr_nat e) OR snd (rse_pgr_nat e) = 0)
        (min (first + count) (cfm_sof e)) first e"
    unfolding ia64_rse_sync_frame_in_range_def Let_def fr(5) by (rule if_not_P)
  with sync_in_blocks [OF ok, of "min (first + count) (cfm_sof e)"] fr(1) show ?thesis by simp
qed

text \<open>
  The two runs of the unrotated frame, before and after the end of the file.
\<close>

lemma sync_in_two_runs:
  assumes ok: "frame_ok e" and z: "cfm_sor e = 0 \<or> cfm_rrb_gr e = 0"
  defines "a \<equiv> min (cfm_sof e) (96 - rse_bol e)"
  defines "g1 \<equiv> copy_range (gr e) 32 (rse_pgr e) (rse_bol e) a"
  shows "v < cfm_sof e \<Longrightarrow> ia64_rse_virt_to_phys e v = (if v < a then rse_bol e + v else v - a)"
    and "(if cfm_sof e - a \<noteq> 0 then copy_range g1 (32 + a) (rse_pgr e) 0 (cfm_sof e - a) else g1) r =
      (if 32 \<le> r \<and> r < 32 + cfm_sof e then rse_pgr e (ia64_rse_virt_to_phys e (r - 32)) else gr e r)"
proof -
  note fr = frame_okD [OF ok]
  show v: "v < cfm_sof e \<Longrightarrow> ia64_rse_virt_to_phys e v = (if v < a then rse_bol e + v else v - a)" for v
    using z fr(1,4,5) by (auto simp: ia64_rse_virt_to_phys_def Let_def a_def)
  show "(if cfm_sof e - a \<noteq> 0 then copy_range g1 (32 + a) (rse_pgr e) 0 (cfm_sof e - a) else g1) r =
      (if 32 \<le> r \<and> r < 32 + cfm_sof e then rse_pgr e (ia64_rse_virt_to_phys e (r - 32)) else gr e r)"
  proof -
    have a: "a \<le> cfm_sof e" by (simp add: a_def)
    show ?thesis
    proof (cases "r < 32")
      case False
      then obtain w where r: "r = 32 + w" using le_Suc_ex not_less by blast
      consider "w < a" | "a \<le> w" "w < cfm_sof e" | "cfm_sof e \<le> w" by linarith
      then show ?thesis
        using a v [of w] unfolding r by cases (simp_all add: g1_def copy_range_def add.commute)
    qed (simp add: g1_def copy_range_def)
  qed
qed

lemma pgr_nats_clear: "fst (rse_pgr_nat e) OR snd (rse_pgr_nat e) = 0 \<Longrightarrow> \<not> bits2_get (rse_pgr_nat e) i"
  by (simp add: bits2_get_def or_eq_0_iff)

text \<open>
  A copy that finds no NaT bit in the file clears all the stacked NaT bits, those past the frame
  included.
\<close>

lemma bits2_get_static:
  assumes "r < 128"
  shows "bits2_get (fst b AND 0xFFFFFFFF, 0) r \<longleftrightarrow> r < 32 \<and> bits2_get b r"
proof -
  have "bit (0xFFFFFFFF :: u64) r \<longleftrightarrow> r < 32"
  proof -
    have "(0xFFFFFFFF :: u64) = mask 32" by (simp add: mask_eq_exp_minus_1)
    then show ?thesis by (simp only: bit_mask_iff) auto
  qed
  then show ?thesis using assms
    by (cases "r < 64") (simp_all add: bits2_get_low bits2_get_high bit_and_iff, auto)
qed

definition frame_in_step :: "env \<Rightarrow> env \<Rightarrow> bool" where
  "frame_in_step e e' \<longleftrightarrow>
     e' = e\<lparr>gr := gr e', nat_bits := nat_bits e', rse_gr_dirty := (0, 0)\<rparr> \<and>
     (\<forall>v<cfm_sof e.
        gr e' (32 + v) = rse_pgr e (ia64_rse_virt_to_phys e v) \<and>
        bits2_get (nat_bits e') (32 + v) = bits2_get (rse_pgr_nat e) (ia64_rse_virt_to_phys e v)) \<and>
     (\<forall>r. \<not> (32 \<le> r \<and> r < 32 + cfm_sof e) \<longrightarrow> gr e' r = gr e r) \<and>
     (\<forall>r<32. bits2_get (nat_bits e') r = bits2_get (nat_bits e) r)"

lemma frame_in_stepI:
  assumes "e' = e\<lparr>gr := g, nat_bits := n, rse_gr_dirty := (0, 0)\<rparr>"
    and "\<And>r. g r = (if 32 \<le> r \<and> r < 32 + cfm_sof e then rse_pgr e (ia64_rse_virt_to_phys e (r - 32)) else gr e r)"
    and "\<And>r. r < 32 + cfm_sof e \<Longrightarrow> bits2_get n r =
       (if 32 \<le> r then bits2_get (rse_pgr_nat e) (ia64_rse_virt_to_phys e (r - 32)) else bits2_get (nat_bits e) r)"
  shows "frame_in_step e e'"
  using assms(2,3) unfolding frame_in_step_def assms(1) by auto

lemma frame_loaded_in:
  assumes "frame_loaded 0 (cfm_sof e) e t" and "cfm_sof e \<le> 96"
  shows "frame_in_step e (t\<lparr>rse_gr_dirty := (0, 0)\<rparr>)"
proof -
  note l = assms(1) [unfolded frame_loaded_def]
  have t: "t = e\<lparr>gr := gr t, nat_bits := nat_bits t, rse_gr_dirty := rse_gr_dirty t\<rparr>" using l by blast
  have "t\<lparr>rse_gr_dirty := (0, 0)\<rparr> = e\<lparr>gr := gr t, nat_bits := nat_bits t, rse_gr_dirty := (0, 0)\<rparr>"
    by (subst t) simp
  then show ?thesis
  proof (rule frame_in_stepI)
    fix r
    show "gr t r = (if 32 \<le> r \<and> r < 32 + cfm_sof e then rse_pgr e (ia64_rse_virt_to_phys e (r - 32)) else gr e r)"
      using l le_Suc_ex [of 32 r] by (cases "32 \<le> r") auto
    show "bits2_get (nat_bits t) r =
       (if 32 \<le> r then bits2_get (rse_pgr_nat e) (ia64_rse_virt_to_phys e (r - 32)) else bits2_get (nat_bits e) r)"
      if "r < 32 + cfm_sof e"
      using l le_Suc_ex [of 32 r] that assms(2) by (cases "32 \<le> r") auto
  qed
qed

lemma sync_frame_in:
  assumes ok: "frame_ok e"
  shows "frame_in_step e (ia64_rse_sync_frame_in e)"
proof -
  note fr = frame_okD [OF ok]
  let ?clear = "fst (rse_pgr_nat e) OR snd (rse_pgr_nat e) = 0"
  define a where "a = min (cfm_sof e) (96 - rse_bol e)"
  define g1 where "g1 = copy_range (gr e) 32 (rse_pgr e) (rse_bol e) a"
  define g2 where "g2 = (if cfm_sof e - a \<noteq> 0 then copy_range g1 (32 + a) (rse_pgr e) 0 (cfm_sof e - a) else g1)"
  define n1 where "n1 = ia64_copy_bit_range (nat_bits e) 32 (rse_pgr_nat e) (rse_bol e) a"
  define n2 where "n2 = (if cfm_sof e - a \<noteq> 0 then ia64_copy_bit_range n1 (32 + a) (rse_pgr_nat e) 0 (cfm_sof e - a) else n1)"
  note defs = a_def g1_def g2_def n1_def n2_def
  have nz: "bits2_get (fst (nat_bits e) AND 0xFFFFFFFF, 0) r =
       (if 32 \<le> r then bits2_get (rse_pgr_nat e) (ia64_rse_virt_to_phys e (r - 32)) else bits2_get (nat_bits e) r)"
    if "?clear" "r < 32 + cfm_sof e" for r
    using that fr(1) pgr_nats_clear [OF that(1)] by (simp add: bits2_get_static)
  show ?thesis
  proof (cases "cfm_sor e = 0 \<or> cfm_rrb_gr e = 0")
    case False
    then have eq: "ia64_rse_sync_frame_in e = (ia64_rse_sync_frame_in_range 0 (cfm_sof e) e)\<lparr>rse_gr_dirty := (0, 0)\<rparr>"
      by (simp add: ia64_rse_sync_frame_in_def ia64_rse_sync_frame_in_slow_def)
    have "frame_loaded 0 (cfm_sof e) e (ia64_rse_sync_frame_in_range 0 (cfm_sof e) e)"
      using sync_frame_in_range [OF ok, of 0 "cfm_sof e"] by simp
    from frame_loaded_in [OF this fr(1)] show ?thesis unfolding eq .
  next
    case True
    note two = sync_in_two_runs [OF ok True, folded a_def, folded g1_def, folded g2_def]
    show ?thesis
    proof (cases ?clear)
      case c: True
      then have "ia64_rse_sync_frame_in e = ia64_rse_sync_frame_in_direct (cfm_sof e) (rse_bol e) e"
        using True by (simp add: ia64_rse_sync_frame_in_def)
      also have "\<dots> = e\<lparr>gr := g2, nat_bits := (fst (nat_bits e) AND 0xFFFFFFFF, 0), rse_gr_dirty := (0, 0)\<rparr>"
        unfolding ia64_rse_sync_frame_in_direct_def Let_def defs ..
      finally show ?thesis by (rule frame_in_stepI) (use two nz [OF c] in auto)
    next
      case c: False
      then have "ia64_rse_sync_frame_in e = ia64_rse_sync_frame_in_slow e"
        unfolding ia64_rse_sync_frame_in_def by simp
      also have "\<dots> = e\<lparr>gr := g2, nat_bits := n2, rse_gr_dirty := (0, 0)\<rparr>"
        unfolding ia64_rse_sync_frame_in_slow_def if_P [OF True] Let_def defs if_not_P [OF c] ..
      finally show ?thesis
      proof (rule frame_in_stepI)
        show "g2 r = (if 32 \<le> r \<and> r < 32 + cfm_sof e then rse_pgr e (ia64_rse_virt_to_phys e (r - 32)) else gr e r)" for r
          by (rule two(2))
        fix r assume r: "r < 32 + cfm_sof e"
        have a: "a \<le> cfm_sof e" "rse_bol e + a \<le> 96" using fr(4) by (auto simp: a_def)
        show "bits2_get n2 r =
          (if 32 \<le> r then bits2_get (rse_pgr_nat e) (ia64_rse_virt_to_phys e (r - 32)) else bits2_get (nat_bits e) r)"
        proof (cases "r < 32")
          case True
          with r fr(1) a show ?thesis by (simp add: n2_def n1_def bits2_get_copy)
        next
          case False
          then obtain w where w: "r = 32 + w" using le_Suc_ex not_less by blast
          with r have ws: "w < cfm_sof e" by simp
          show ?thesis
            using two(1) [OF ws] a fr(1) ws unfolding w
            by (cases "w < a") (simp_all add: n2_def n1_def bits2_get_copy add.commute)
        qed
      qed
    qed
  qed
qed

section \<open>Rotation of the frame\<close>

text \<open>
  One step of the rotating registers: the register that \<open>v\<close> names afterwards was named \<open>rot_pred n v\<close>
  before.
\<close>

definition rot_pred :: "nat \<Rightarrow> nat \<Rightarrow> nat" where
  "rot_pred n v = (if v < n then (if v = 0 then n - 1 else v - 1) else v)"

lemma rot_pred_less: "n \<le> m \<Longrightarrow> v < m \<Longrightarrow> rot_pred n v < m"
  by (auto simp: rot_pred_def)

lemma bits2_get_stacked:
  assumes "v < 128"
  shows "bits2_get (drop_bit 32 (fst b) OR push_bit 32 (snd b), drop_bit 32 (snd b)) v \<longleftrightarrow> v < 96 \<and> bits2_get b (32 + v)"
proof -
  consider "v < 32" | "32 \<le> v" "v < 64" | "64 \<le> v" "v < 96" | "96 \<le> v" by linarith
  then show ?thesis
    using assms bit_u64_less [of "fst b" "32 + v"] bit_u64_less [of "snd b" "v - 32"]
    by cases (auto simp: bits2_get_low bits2_get_high bit_or_iff bit_drop_bit_eq bit_push_bit_iff dest: bit_u64_less)
qed

lemma bits2_get_unstacked:
  assumes "r < 128"
  shows "bits2_get ((fst b AND 0xFFFFFFFF) OR push_bit 32 (fst c), drop_bit 32 (fst c) OR push_bit 32 (snd c)) r \<longleftrightarrow>
    (if r < 32 then bits2_get b r else bits2_get c (r - 32))"
proof -
  have m: "bit (fst b AND 0xFFFFFFFF) k \<longleftrightarrow> k < 32 \<and> bit (fst b) k" if "k < 64" for k
    using bits2_get_static [of k b] that by (simp add: bits2_get_low)
  consider "r < 32" | "32 \<le> r" "r < 64" | "64 \<le> r" "r < 96" | "96 \<le> r" by linarith
  then show ?thesis
  proof cases
    case 1
    then show ?thesis using m [of r] by (simp add: bits2_get_low bit_or_iff bit_push_bit_iff)
  next
    case 2
    then show ?thesis using m [of r] by (simp add: bits2_get_low bit_or_iff bit_push_bit_iff)
  next
    case 3
    then show ?thesis using assms bit_u64_less [of "snd c" "r - 96"]
      by (auto simp: bits2_get_low bits2_get_high bit_or_iff bit_push_bit_iff bit_drop_bit_eq)
  next
    case 4
    then show ?thesis using assms bit_u64_less [of "fst c" "r - 32"]
      by (auto simp: bits2_get_low bits2_get_high bit_or_iff bit_push_bit_iff bit_drop_bit_eq)
  qed
qed

lemma rotate_gr_fields:
  "cfm_sof (ia64_rotate_rotating_gr_right e) = cfm_sof e" "cfm_sol (ia64_rotate_rotating_gr_right e) = cfm_sol e"
  "cfm_sor (ia64_rotate_rotating_gr_right e) = cfm_sor e" "cfm_rrb_gr (ia64_rotate_rotating_gr_right e) = cfm_rrb_gr e"
  "rse_bol (ia64_rotate_rotating_gr_right e) = rse_bol e" "rse_pgr (ia64_rotate_rotating_gr_right e) = rse_pgr e"
  "rse_pgr_nat (ia64_rotate_rotating_gr_right e) = rse_pgr_nat e"
  by (simp_all add: ia64_rotate_rotating_gr_right_def Let_def)

lemma rotate_gr:
  assumes ok: "frame_ok e" and v: "v < 96"
  defines "e' \<equiv> ia64_rotate_rotating_gr_right e" and "u \<equiv> rot_pred (8 * cfm_sor e) v"
  shows "gr e' (32 + v) = gr e (32 + u)" and "bits2_get (nat_bits e') (32 + v) = bits2_get (nat_bits e) (32 + u)"
    and "bits2_get (rse_gr_dirty e') v = bits2_get (rse_gr_dirty e) u"
proof -
  note fr = frame_okD [OF ok]
  let ?n = "8 * cfm_sor e"
  have all: "gr e' (32 + v) = gr e (32 + u) \<and> bits2_get (nat_bits e') (32 + v) = bits2_get (nat_bits e) (32 + u) \<and>
    bits2_get (rse_gr_dirty e') v = bits2_get (rse_gr_dirty e) u"
  proof (cases "?n = 0")
    case True
    then show ?thesis by (simp add: e'_def u_def rot_pred_def ia64_rotate_rotating_gr_right_def fr(5))
  next
    case False
    define nat0 where "nat0 = (drop_bit 32 (fst (nat_bits e)) OR push_bit 32 (snd (nat_bits e)), drop_bit 32 (snd (nat_bits e)))"
    define nat1 where "nat1 = ia64_rotate_low_bits_left_one nat0 ?n"
    have g: "gr e' = (copy_range (gr e) 33 (gr e) 32 (?n - 1))(32 := gr e (32 + ?n - 1))"
      "nat_bits e' = ((fst (nat_bits e) AND 0xFFFFFFFF) OR push_bit 32 (fst nat1), drop_bit 32 (fst nat1) OR push_bit 32 (snd nat1))"
      "rse_gr_dirty e' = ia64_rotate_low_bits_left_one (rse_gr_dirty e) ?n"
      using False by (simp_all add: e'_def ia64_rotate_rotating_gr_right_def Let_def fr(5) nat1_def nat0_def)
    have n: "0 < ?n" "?n \<le> 96" using False fr(1,3) by simp_all
    have rot: "bits2_get (ia64_rotate_low_bits_left_one b ?n) v = bits2_get b u" for b
      using bits2_get_rotate [of ?n v b] n v by (auto simp: u_def rot_pred_def)
    have u: "u < 96" using rot_pred_less [OF n(2) v] by (simp add: u_def)
    have "bits2_get (nat_bits e') (32 + v) = bits2_get nat1 v"
      unfolding g(2) using v by (subst bits2_get_unstacked) simp_all
    also have "\<dots> = bits2_get (nat_bits e) (32 + u)"
      unfolding nat1_def rot nat0_def using u by (subst bits2_get_stacked) simp_all
    finally show ?thesis
      using rot v n by (auto simp: g(1,3) u_def rot_pred_def copy_range_def)
  qed
  then show "gr e' (32 + v) = gr e (32 + u)" and "bits2_get (nat_bits e') (32 + v) = bits2_get (nat_bits e) (32 + u)"
    and "bits2_get (rse_gr_dirty e') v = bits2_get (rse_gr_dirty e) u" by blast+
qed


definition frame_coherent :: "env \<Rightarrow> bool" where
  "frame_coherent e \<longleftrightarrow> (\<forall>v<cfm_sof e. \<not> bits2_get (rse_gr_dirty e) v \<longrightarrow>
     gr e (32 + v) = rse_pgr e (ia64_rse_virt_to_phys e v) \<and>
     bits2_get (nat_bits e) (32 + v) = bits2_get (rse_pgr_nat e) (ia64_rse_virt_to_phys e v))"

lemma set_cfm_rrb_fr_frame:
  "cfm_sof (ia64_set_cfm_rrb_fr n e) = cfm_sof e" "cfm_sol (ia64_set_cfm_rrb_fr n e) = cfm_sol e"
  "cfm_sor (ia64_set_cfm_rrb_fr n e) = cfm_sor e" "cfm_rrb_gr (ia64_set_cfm_rrb_fr n e) = cfm_rrb_gr e"
  "rse_bol (ia64_set_cfm_rrb_fr n e) = rse_bol e" "rse_pgr (ia64_set_cfm_rrb_fr n e) = rse_pgr e"
  "rse_pgr_nat (ia64_set_cfm_rrb_fr n e) = rse_pgr_nat e" "gr (ia64_set_cfm_rrb_fr n e) = gr e"
  "nat_bits (ia64_set_cfm_rrb_fr n e) = nat_bits e" "rse_gr_dirty (ia64_set_cfm_rrb_fr n e) = rse_gr_dirty e"
  by (simp_all add: ia64_set_cfm_rrb_fr_def Let_def)

lemma rotate_pr_frame:
  "cfm_sof (ia64_rotate_cfm_rrb_pr_right e) = cfm_sof e" "cfm_sol (ia64_rotate_cfm_rrb_pr_right e) = cfm_sol e"
  "cfm_sor (ia64_rotate_cfm_rrb_pr_right e) = cfm_sor e" "cfm_rrb_gr (ia64_rotate_cfm_rrb_pr_right e) = cfm_rrb_gr e"
  "rse_bol (ia64_rotate_cfm_rrb_pr_right e) = rse_bol e" "rse_pgr (ia64_rotate_cfm_rrb_pr_right e) = rse_pgr e"
  "rse_pgr_nat (ia64_rotate_cfm_rrb_pr_right e) = rse_pgr_nat e" "gr (ia64_rotate_cfm_rrb_pr_right e) = gr e"
  "nat_bits (ia64_rotate_cfm_rrb_pr_right e) = nat_bits e" "rse_gr_dirty (ia64_rotate_cfm_rrb_pr_right e) = rse_gr_dirty e"
  by (simp_all add: ia64_rotate_cfm_rrb_pr_right_def Let_def)

lemma rotate_loop_fields:
  "cfm_sof (ia64_rotate_loop_regs e) = cfm_sof e" "cfm_sol (ia64_rotate_loop_regs e) = cfm_sol e"
  "cfm_sor (ia64_rotate_loop_regs e) = cfm_sor e" "rse_bol (ia64_rotate_loop_regs e) = rse_bol e"
  "rse_pgr (ia64_rotate_loop_regs e) = rse_pgr e" "rse_pgr_nat (ia64_rotate_loop_regs e) = rse_pgr_nat e"
  "gr (ia64_rotate_loop_regs e) = gr (ia64_rotate_rotating_gr_right e)"
  "nat_bits (ia64_rotate_loop_regs e) = nat_bits (ia64_rotate_rotating_gr_right e)"
  "rse_gr_dirty (ia64_rotate_loop_regs e) = rse_gr_dirty (ia64_rotate_rotating_gr_right e)"
  "cfm_rrb_gr (ia64_rotate_loop_regs e) =
     (let n = ia64_rse_rotating_gr_count e in
      if n = 0 then cfm_rrb_gr e else if cfm_rrb_gr e = 0 then n - 1 else cfm_rrb_gr e - 1)"
  by (simp_all add: ia64_rotate_loop_regs_def Let_def rotate_pr_frame set_cfm_rrb_fr_frame rotate_gr_fields)

lemma rotate_loop_frame:
  assumes ok: "frame_ok e"
  shows "frame_ok (ia64_rotate_loop_regs e)"
    and "v < 96 \<Longrightarrow> ia64_rse_virt_to_phys (ia64_rotate_loop_regs e) v =
      ia64_rse_virt_to_phys e (rot_pred (8 * cfm_sor e) v)"
proof -
  note fr = frame_okD [OF ok]
  let ?e = "ia64_rotate_loop_regs e" and ?n = "8 * cfm_sor e" and ?r = "cfm_rrb_gr e"
  have r: "cfm_rrb_gr ?e = (if ?n = 0 then ?r else if ?r = 0 then ?n - 1 else ?r - 1)"
    by (simp add: rotate_loop_fields fr(5) Let_def)
  show ok': "frame_ok ?e"
    using ok by (auto simp: frame_ok_def rotate_loop_fields(1-4) r)
  assume v: "v < 96"
  have u: "rot_pred ?n v < 96" using v fr(1,3) by (intro rot_pred_less) simp_all
  have "rot_index ?n (cfm_rrb_gr ?e) v = rot_index ?n ?r (rot_pred ?n v)"
  proof (cases "v < ?n")
    case False
    then show ?thesis by (simp add: rot_index_def rot_pred_def)
  next
    case True
    then have n: "0 < ?n" by simp
    have rn: "?r < ?n" using fr(6) n by auto
    have eq: "v + cfm_rrb_gr ?e = rot_pred ?n v + ?r \<or> v + cfm_rrb_gr ?e = rot_pred ?n v + ?r + ?n \<or>
        v + cfm_rrb_gr ?e + ?n = rot_pred ?n v + ?r"
      unfolding r rot_pred_def using True n by auto
    have "(v + cfm_rrb_gr ?e) mod ?n = (rot_pred ?n v + ?r) mod ?n"
      using eq by (metis mod_add_self2)
    moreover have "rot_pred ?n v < ?n" using True by (auto simp: rot_pred_def)
    ultimately show ?thesis using True by (simp add: rot_index_def)
  qed
  then show "ia64_rse_virt_to_phys ?e v = ia64_rse_virt_to_phys e (rot_pred ?n v)"
    by (simp add: virt_to_phys_alt [OF ok' v] virt_to_phys_alt [OF ok u] rotate_loop_fields(3,4))
qed

text \<open>
  C12: The write-back of the current frame, by whichever of its three copy strategies, stores every
  dirty register of the frame with its NaT bit at the physical position the renaming gives it,
  leaves every other physical register as it was, clears the dirty marks and changes nothing else.
\<close>

theorem sync_frame_out_written_back:
  assumes "frame_ok e"
  shows "written_back e (ia64_rse_sync_frame_out e)"
  by (rule sync_frame_out [OF assms])

theorem sync_frame_out_witness:
  "rse_pgr (ia64_rse_sync_frame_out ((env_zero False (\<lambda>_. 0))\<lparr>cfm_sof := 20, cfm_sol := 16, cfm_sor := 2,
     cfm_rrb_gr := 5, rse_bol := 90, gr := (\<lambda>_. 7), rse_gr_dirty := (2 ^ 13, 0)\<rparr>)) 92 = 7"
  using sync_frame_out_written_back [of "(env_zero False (\<lambda>_. 0))\<lparr>cfm_sof := 20, cfm_sol := 16, cfm_sor := 2,
     cfm_rrb_gr := 5, rse_bol := 90, gr := (\<lambda>_. 7), rse_gr_dirty := (2 ^ 13, 0)\<rparr>"]
  by (auto simp: frame_ok_def ia64_cfm_frame_fields_valid_def written_back_def bits2_get_def
      ia64_rse_virt_to_phys_def ia64_rse_rotating_gr_count_def elim!: allE [of _ 13])

text \<open>
  C13: The reload of the current frame, by whichever of its copy strategies, gives every register of
  the frame the value and NaT bit of its physical register, clears the dirty marks, and changes
  neither the registers outside the frame nor the NaT bits of the static registers nor any other
  state.
\<close>

theorem sync_frame_in_view:
  assumes "frame_ok e"
  shows "frame_in_step e (ia64_rse_sync_frame_in e)"
  by (rule sync_frame_in [OF assms])

theorem sync_frame_in_witness:
  "gr (ia64_rse_sync_frame_in ((env_zero False (\<lambda>_. 0))\<lparr>cfm_sof := 20, cfm_sol := 16, cfm_sor := 2,
     cfm_rrb_gr := 5, rse_bol := 90, rse_pgr := (\<lambda>p. if p = 92 then 7 else 0)\<rparr>)) 45 = 7"
  using sync_frame_in_view [of "(env_zero False (\<lambda>_. 0))\<lparr>cfm_sof := 20, cfm_sol := 16, cfm_sor := 2,
     cfm_rrb_gr := 5, rse_bol := 90, rse_pgr := (\<lambda>p. if p = 92 then 7 else 0)\<rparr>"]
  by (auto simp: frame_ok_def ia64_cfm_frame_fields_valid_def frame_in_step_def
      ia64_rse_virt_to_phys_def ia64_rse_rotating_gr_count_def elim!: allE [of _ 13])

lemma rotate_loop_renames:
  assumes ok: "frame_ok e" and v: "v < 96"
  shows "ia64_rse_virt_to_phys (ia64_rotate_loop_regs e) v = ia64_rse_virt_to_phys e (rot_pred (8 * cfm_sor e) v)"
    "gr (ia64_rotate_loop_regs e) (32 + v) = gr e (32 + rot_pred (8 * cfm_sor e) v)"
    "bits2_get (nat_bits (ia64_rotate_loop_regs e)) (32 + v) = bits2_get (nat_bits e) (32 + rot_pred (8 * cfm_sor e) v)"
    "bits2_get (rse_gr_dirty (ia64_rotate_loop_regs e)) v = bits2_get (rse_gr_dirty e) (rot_pred (8 * cfm_sor e) v)"
  using rotate_loop_frame(2) [OF ok v] rotate_gr [OF ok v] by (simp_all only: rotate_loop_fields)

lemma rotate_loop_coherent:
  assumes ok: "frame_ok e" and coh: "frame_coherent e"
  shows "frame_coherent (ia64_rotate_loop_regs e)"
  unfolding frame_coherent_def
proof (intro allI impI)
  let ?e = "ia64_rotate_loop_regs e"
  note fr = frame_okD [OF ok]
  fix v assume v: "v < cfm_sof ?e" and nd: "\<not> bits2_get (rse_gr_dirty ?e) v"
  have sof: "v < cfm_sof e" using v by (simp add: rotate_loop_fields)
  then have v96: "v < 96" using fr(1) by simp
  have "rot_pred (8 * cfm_sor e) v < cfm_sof e" by (rule rot_pred_less [OF fr(3) sof])
  then show "gr ?e (32 + v) = rse_pgr ?e (ia64_rse_virt_to_phys ?e v) \<and>
      bits2_get (nat_bits ?e) (32 + v) = bits2_get (rse_pgr_nat ?e) (ia64_rse_virt_to_phys ?e v)"
    using coh nd unfolding rotate_loop_renames [OF ok v96] rotate_loop_fields(5,6) by (simp add: frame_coherent_def)
qed

lemma rotate_gr_static:
  assumes "j < 32"
  shows "gr (ia64_rotate_rotating_gr_right e) j = gr e j"
  using assms by (simp add: ia64_rotate_rotating_gr_right_def Let_def copy_range_def)

text \<open>The floating-point and predicate parts of a loop rotation do not meet the general registers.\<close>

lemma rotate_gr_others:
  "fp (ia64_rotate_rotating_gr_right e) = fp e" "pr (ia64_rotate_rotating_gr_right e) = pr e"
  "cfm_rrb_fr (ia64_rotate_rotating_gr_right e) = cfm_rrb_fr e" "cfm_rrb_pr (ia64_rotate_rotating_gr_right e) = cfm_rrb_pr e"
  by (simp_all add: ia64_rotate_rotating_gr_right_def Let_def)

lemma rotate_pr_others:
  "fp (ia64_rotate_cfm_rrb_pr_right e) = fp e" "cfm_rrb_fr (ia64_rotate_cfm_rrb_pr_right e) = cfm_rrb_fr e"
  by (simp_all add: ia64_rotate_cfm_rrb_pr_right_def Let_def)

lemma set_fr_others: "pr (ia64_set_cfm_rrb_fr n e) = pr e" "cfm_rrb_pr (ia64_set_cfm_rrb_fr n e) = cfm_rrb_pr e"
  by (simp_all add: ia64_set_cfm_rrb_fr_def Let_def)

lemma fr_view_cong:
  assumes "fp e = fp f" "cfm_rrb_fr e = cfm_rrb_fr f"
  shows "fr_ok e = fr_ok f" "fr_logical e = fr_logical f"
  by (simp_all add: fr_ok_def fr_logical_def fun_eq_iff ia64_sync_rotating_fr_def Let_def assms)

lemma rotate_loop_others:
  assumes ok: "fr_ok e"
  defines "e' \<equiv> ia64_rotate_loop_regs e"
  shows "i < 96 \<Longrightarrow> fr_logical e' i = fr_logical e ((i + 95) mod 96)" and "cfm_rrb_fr e' = (cfm_rrb_fr e + 95) mod 96"
    and "fr_content (fp e') k = fr_content (fp e) k"
    and "i < 48 \<Longrightarrow> pr e' (16 + i) = pr e (16 + (i + 47) mod 48)" and "0 < j \<Longrightarrow> j < 16 \<Longrightarrow> pr e' j = pr e j"
    and "cfm_rrb_pr e' = (cfm_rrb_pr e + 47) mod 48"
proof -
  define e1 where "e1 = ia64_rotate_rotating_gr_right e"
  define e2 where "e2 = (if ia64_rse_rotating_gr_count e \<noteq> 0
    then e1\<lparr>cfm_rrb_gr := (if cfm_rrb_gr e1 \<noteq> 0 then cfm_rrb_gr e1 - 1 else ia64_rse_rotating_gr_count e - 1)\<rparr> else e1)"
  define e3 where "e3 = ia64_set_cfm_rrb_fr (if cfm_rrb_fr e2 \<noteq> 0 then cfm_rrb_fr e2 - 1 else 95) e2"
  have e': "e' = ia64_rotate_cfm_rrb_pr_right e3"
    unfolding e'_def e3_def e2_def e1_def ia64_rotate_loop_regs_def Let_def ..
  have e2: "fp e2 = fp e" "pr e2 = pr e" "cfm_rrb_fr e2 = cfm_rrb_fr e" "cfm_rrb_pr e2 = cfm_rrb_pr e"
    by (simp_all add: e2_def e1_def rotate_gr_others)
  have ok2: "fr_ok e2" "fr_logical e2 = fr_logical e" using fr_view_cong [of e2 e] e2 ok by simp_all
  note r = set_cfm_rrb_fr_rotates [OF ok2(1), folded e3_def]
  have l: "fr_logical e' = fr_logical e3" by (rule fr_view_cong(2)) (simp_all add: e' rotate_pr_others)
  show "i < 96 \<Longrightarrow> fr_logical e' i = fr_logical e ((i + 95) mod 96)" using r(2) [of i] by (simp add: l ok2)
  show "cfm_rrb_fr e' = (cfm_rrb_fr e + 95) mod 96" using r(3) by (simp add: e' rotate_pr_others e2)
  show "fr_content (fp e') k = fr_content (fp e) k" using r(4) [of k] by (simp add: e' rotate_pr_others e2)
  have p3: "pr e3 = pr e" "cfm_rrb_pr e3 = cfm_rrb_pr e" by (simp_all add: e3_def set_fr_others e2)
  show "i < 48 \<Longrightarrow> pr e' (16 + i) = pr e (16 + (i + 47) mod 48)" using rotate_pr_right_renames [of i e3] by (simp add: e' p3)
  show "0 < j \<Longrightarrow> j < 16 \<Longrightarrow> pr e' j = pr e j" using rotate_pr_right_static [of j e3] by (simp add: e' p3)
  show "cfm_rrb_pr e' = (cfm_rrb_pr e + 47) mod 48" using rotate_cfm_rrb_pr_right_base [of e3] by (simp add: e' p3)
qed

text \<open>
  C14: Rotating the registers of a software-pipelined loop renames them without moving a physical register.  Every stacked
  general register afterwards names the physical register, value, NaT bit and dirty mark of its predecessor in the rotating
  region, and a frame in step with the file stays so.  Every rotating floating-point register holds, once the pending
  rotation is carried out, what its predecessor held, and every rotating predicate the value of its predecessor; the three
  rotation bases step down by one.  Static general, floating-point and predicate registers keep their values.
\<close>

theorem rotate_loop_regs_renames:
  assumes ok: "frame_ok e" and coh: "frame_coherent e" and fok: "fr_ok e"
  defines "e' \<equiv> ia64_rotate_loop_regs e" and "prev \<equiv> rot_pred (8 * cfm_sor e)"
  shows "frame_ok e' \<and> frame_coherent e' \<and> rse_pgr e' = rse_pgr e \<and>
    (\<forall>v<96. ia64_rse_virt_to_phys e' v = ia64_rse_virt_to_phys e (prev v) \<and>
      gr e' (32 + v) = gr e (32 + prev v) \<and>
      bits2_get (nat_bits e') (32 + v) = bits2_get (nat_bits e) (32 + prev v) \<and>
      bits2_get (rse_gr_dirty e') v = bits2_get (rse_gr_dirty e) (prev v)) \<and>
    (\<forall>i<96. fr_logical e' i = fr_logical e ((i + 95) mod 96)) \<and> cfm_rrb_fr e' = (cfm_rrb_fr e + 95) mod 96 \<and>
    (\<forall>i<48. pr e' (16 + i) = pr e (16 + (i + 47) mod 48)) \<and> cfm_rrb_pr e' = (cfm_rrb_pr e + 47) mod 48 \<and>
    (\<forall>j<32. gr e' j = gr e j \<and> fr_content (fp e') j = fr_content (fp e) j) \<and> (\<forall>j. 0 < j \<and> j < 16 \<longrightarrow> pr e' j = pr e j)"
proof -
  have st: "\<forall>j<32. gr e' j = gr e j" by (simp add: e'_def rotate_loop_fields(7) rotate_gr_static)
  show ?thesis
    using rotate_loop_renames [OF ok] rotate_loop_coherent [OF ok coh] rotate_loop_frame(1) [OF ok]
      rotate_loop_others [OF fok] st
    unfolding e'_def prev_def rotate_loop_fields(5) by blast
qed

theorem rotate_loop_regs_witness:
  "gr (ia64_rotate_loop_regs ((env_zero False (\<lambda>_. 0))\<lparr>cfm_sof := 20, cfm_sol := 16, cfm_sor := 2,
     cfm_rrb_gr := 0, rse_bol := 90, gr := (\<lambda>r. if r = 47 then 7 else 0), rse_gr_dirty := (2 ^ 15, 0),
     pr := (\<lambda>j. if j = 63 then 1 else 0)\<rparr>)) 32 = 7 \<and>
   pr (ia64_rotate_loop_regs ((env_zero False (\<lambda>_. 0))\<lparr>cfm_sof := 20, cfm_sol := 16, cfm_sor := 2,
     cfm_rrb_gr := 0, rse_bol := 90, gr := (\<lambda>r. if r = 47 then 7 else 0), rse_gr_dirty := (2 ^ 15, 0),
     pr := (\<lambda>j. if j = 63 then 1 else 0)\<rparr>)) 16 = 1"
proof -
  let ?e = "(env_zero False (\<lambda>_. 0))\<lparr>cfm_sof := 20, cfm_sol := 16, cfm_sor := 2, cfm_rrb_gr := 0, rse_bol := 90,
     gr := (\<lambda>r. if r = 47 then 7 else 0), rse_gr_dirty := (2 ^ 15, 0), pr := (\<lambda>j. if j = 63 then 1 else 0)\<rparr>"
  have ok: "frame_ok ?e" by (simp add: frame_ok_def ia64_cfm_frame_fields_valid_def)
  have coh: "frame_coherent ?e" by (auto simp: frame_coherent_def bits2_get_def bit_exp_iff env_zero_def)
  have fok: "fr_ok ?e"
    by (simp add: fr_ok_def env_zero_def fp_state_zero_def fr_content_def bits2_get_def)
  note r = rotate_loop_regs_renames [OF ok coh fok]
  have "gr (ia64_rotate_loop_regs ?e) (32 + 0) = gr ?e (32 + rot_pred (8 * cfm_sor ?e) 0)"
    using r zero_less_numeral by blast
  moreover have "pr (ia64_rotate_loop_regs ?e) (16 + 0) = pr ?e (16 + (0 + 47) mod 48)"
    using r zero_less_numeral by blast
  ultimately show ?thesis by (simp add: rot_pred_def)
qed

end
