(* ===== verification/Sapic.thy ===== *)
theory Sapic
  imports Cpu_State
begin

text \<open>
  The Local SAPIC of \<^verbatim>\<open>target/ia64/arch/interrupt.c\<close>: the request and in-service bitmaps, the
  priority and masking rules of external interrupt vectors, acceptance and end of interrupt, the
  request line to the execution loop, and the delivery of interrupt messages between processors.
\<close>

section \<open>Vectors\<close>

abbreviation (input) IA64_SPURIOUS_VECTOR :: nat where "IA64_SPURIOUS_VECTOR \<equiv> 15"

abbreviation (input) IA64_CR_SAPIC_LID :: nat where "IA64_CR_SAPIC_LID \<equiv> 64"
abbreviation (input) IA64_CR_SAPIC_TPR :: nat where "IA64_CR_SAPIC_TPR \<equiv> 66"
abbreviation (input) IA64_CR_ITV :: nat where "IA64_CR_ITV \<equiv> 72"

text \<open>\<^verbatim>\<open>IA64_TPR_MMI\<close>, \<^verbatim>\<open>IA64_PSR_MC\<close> and \<^verbatim>\<open>IA64_PSR_IC\<close> are single bits; they are tested as such.\<close>

definition ia64_external_interrupt_vector_valid :: "nat \<Rightarrow> bool" where
  "ia64_external_interrupt_vector_valid vector \<longleftrightarrow> vector = 0 \<or> vector = 2 \<or> vector \<ge> 16"

definition sapic_vector_active :: "(nat \<Rightarrow> u64) \<Rightarrow> nat \<Rightarrow> bool" where
  "sapic_vector_active bitmap vector \<longleftrightarrow> bitmap (vector div 64) AND push_bit (vector mod 64) 1 \<noteq> 0"

definition sapic_vector_priority :: "nat \<Rightarrow> int" where
  "sapic_vector_priority vector =
     (if vector = 2 then 257 else if vector = 0 then 256 else if vector \<ge> 16 then int vector else - 1)"

definition sapic_vector_priority_class :: "nat \<Rightarrow> int" where
  "sapic_vector_priority_class vector = (if vector \<ge> 16 then int (vector div 16) else - 1)"

text \<open>The loop over the four words from the highest down; \<open>63 - clz64(w)\<close> is the highest set bit.\<close>

definition highest_bit :: "u64 \<Rightarrow> nat" where
  "highest_bit w = (case List.find (bit w) (rev [0..<64]) of None \<Rightarrow> 0 | Some i \<Rightarrow> i)"

fun sapic_find_highest_from :: "nat list \<Rightarrow> (nat \<Rightarrow> u64) \<Rightarrow> nat" where
  "sapic_find_highest_from [] bitmap = IA64_SPURIOUS_VECTOR"
| "sapic_find_highest_from (word # words) bitmap =
     (let active = (if word = 0 then bitmap word AND NOT 0xffff else bitmap word)
      in if active \<noteq> 0 then word * 64 + highest_bit active
         else sapic_find_highest_from words bitmap)"

definition sapic_find_highest_normal :: "(nat \<Rightarrow> u64) \<Rightarrow> nat" where
  "sapic_find_highest_normal bitmap = sapic_find_highest_from [3, 2, 1, 0] bitmap"

definition sapic_find_isr :: "env \<Rightarrow> nat" where
  "sapic_find_isr e =
     (if sapic_vector_active (sapic_isr (intr e)) 2 then 2
      else if sapic_vector_active (sapic_isr (intr e)) 0 then 0
      else sapic_find_highest_normal (sapic_isr (intr e)))"

definition sapic_vector_unmasked :: "env \<Rightarrow> nat \<Rightarrow> bool" where
  "sapic_vector_unmasked e vector =
     (let tpr = cr e IA64_CR_SAPIC_TPR;
          isr = sapic_find_isr e;
          vector_priority = sapic_vector_priority vector;
          vector_class = sapic_vector_priority_class vector
      in if vector_priority \<le> sapic_vector_priority isr then False
         else if vector = 2 then True
         else if vector = 0 then tpr AND 0x10000 = 0
         else tpr AND 0x10000 = 0 \<and> drop_bit 4 (tpr AND 0xf0) < word_of_int vector_class)"

definition sapic_find_irr :: "env \<Rightarrow> nat" where
  "sapic_find_irr e =
     (if sapic_vector_active (sapic_irr (intr e)) 2 \<and> sapic_vector_unmasked e 2 then 2
      else if sapic_vector_active (sapic_irr (intr e)) 0 \<and> sapic_vector_unmasked e 0 then 0
      else
        let vector = sapic_find_highest_normal (sapic_irr (intr e))
        in if vector \<noteq> IA64_SPURIOUS_VECTOR \<and> sapic_vector_unmasked e vector then vector
           else IA64_SPURIOUS_VECTOR)"

section \<open>The request line\<close>

definition sapic_special :: "env \<Rightarrow> bool" where
  "sapic_special e \<longleftrightarrow>
     pal_mca_pending e \<and> psr e AND IA64_PSR_MC = 0 \<or>
     sapic_init_pending (intr e) \<and> psr e AND IA64_PSR_MC = 0 \<or>
     sapic_pmi_pending (intr e) \<noteq> 0 \<and> psr e AND IA64_PSR_IC \<noteq> 0 \<and> pal_pmi_entry e \<noteq> 0"

definition ia64_sapic_update_interrupt :: "env \<Rightarrow> env" where
  "ia64_sapic_update_interrupt e =
     e\<lparr>interrupt_hard := sapic_special e \<or> sapic_find_irr e \<noteq> IA64_SPURIOUS_VECTOR\<rparr>"

definition ia64_sapic_has_pending :: "env \<Rightarrow> bool" where
  "ia64_sapic_has_pending e \<longleftrightarrow> sapic_find_irr e \<noteq> IA64_SPURIOUS_VECTOR"

definition ia64_sapic_has_pmi :: "env \<Rightarrow> bool" where
  "ia64_sapic_has_pmi e \<longleftrightarrow> sapic_pmi_pending (intr e) \<noteq> 0"

definition ia64_sapic_has_init :: "env \<Rightarrow> bool" where
  "ia64_sapic_has_init e \<longleftrightarrow> sapic_init_pending (intr e)"

text \<open>\<open>31 - clz32(pending)\<close> of the 16 bit mask.\<close>

definition ia64_sapic_accept_pmi :: "env \<Rightarrow> int \<times> env" where
  "ia64_sapic_accept_pmi e =
     (let pending = sapic_pmi_pending (intr e) in
      if pending = 0 then (- 1, e)
      else
        let vector = highest_bit (ucast pending);
            e1 = e\<lparr>intr := (intr e)\<lparr>sapic_pmi_pending := pending AND NOT (push_bit vector 1)\<rparr>\<rparr>
        in (int vector, ia64_sapic_update_interrupt e1))"

definition ia64_sapic_accept_init :: "env \<Rightarrow> bool \<times> env" where
  "ia64_sapic_accept_init e =
     (if \<not> sapic_init_pending (intr e) then (False, e)
      else (True, ia64_sapic_update_interrupt
                    (e\<lparr>intr := (intr e)\<lparr>sapic_init_pending := False, sapic_init_reason := 0\<rparr>\<rparr>)))"

section \<open>Acceptance and end of interrupt\<close>

definition bitmap_set :: "nat \<Rightarrow> (nat \<Rightarrow> u64) \<Rightarrow> nat \<Rightarrow> u64" where
  "bitmap_set v b = b(v div 64 := b (v div 64) OR push_bit (v mod 64) 1)"

definition bitmap_clear :: "nat \<Rightarrow> (nat \<Rightarrow> u64) \<Rightarrow> nat \<Rightarrow> u64" where
  "bitmap_clear v b = b(v div 64 := b (v div 64) AND NOT (push_bit (v mod 64) 1))"

definition ia64_sapic_accept :: "env \<Rightarrow> nat \<times> env" where
  "ia64_sapic_accept e =
     (let vector = sapic_find_irr e in
      if vector \<noteq> IA64_SPURIOUS_VECTOR then
        (vector, ia64_sapic_update_interrupt
           (e\<lparr>intr := (intr e)\<lparr>sapic_irr := bitmap_clear vector (sapic_irr (intr e)),
                              sapic_isr := bitmap_set vector (sapic_isr (intr e))\<rparr>\<rparr>))
      else (vector, e))"

definition ia64_sapic_eoi :: "env \<Rightarrow> env" where
  "ia64_sapic_eoi e =
     (let vector = sapic_find_isr e;
          e1 = (if vector \<noteq> IA64_SPURIOUS_VECTOR
                then e\<lparr>intr := (intr e)\<lparr>sapic_isr := bitmap_clear vector (sapic_isr (intr e))\<rparr>\<rparr>
                else e)
      in ia64_sapic_update_interrupt e1)"

definition ia64_sapic_get_ivr :: "env \<Rightarrow> nat \<times> env" where
  "ia64_sapic_get_ivr e = ia64_sapic_accept e"

definition ia64_sapic_set_irq_work :: "nat \<Rightarrow> env \<Rightarrow> env" where
  "ia64_sapic_set_irq_work vector e =
     ia64_sapic_update_interrupt (e\<lparr>intr := (intr e)\<lparr>sapic_irr := bitmap_set vector (sapic_irr (intr e))\<rparr>\<rparr>)"

section \<open>Messages between processors\<close>

datatype sapic_delivery_mode =
  IA64_SAPIC_DELIVERY_INT | IA64_SAPIC_DELIVERY_INT_REDIRECT | IA64_SAPIC_DELIVERY_PMI
  | IA64_SAPIC_DELIVERY_NMI | IA64_SAPIC_DELIVERY_INIT | IA64_SAPIC_DELIVERY_EXTINT | IA64_SAPIC_DELIVERY_RESERVED

datatype sapic_destination_mode = IA64_SAPIC_DESTINATION_PHYSICAL | IA64_SAPIC_DESTINATION_LOGICAL

definition ia64_sapic_set_special_work :: "bool \<Rightarrow> nat \<Rightarrow> env \<Rightarrow> env" where
  "ia64_sapic_set_special_work pmi vector e =
     ia64_sapic_update_interrupt
       (if pmi then e\<lparr>intr := (intr e)\<lparr>sapic_pmi_pending := sapic_pmi_pending (intr e) OR push_bit vector 1\<rparr>\<rparr>
        else
          e\<lparr>intr := (intr e)\<lparr>
            sapic_init_reason :=
              (if \<not> sapic_init_pending (intr e) \<or> of_nat vector > sapic_init_reason (intr e) then of_nat vector
               else sapic_init_reason (intr e)),
            sapic_init_pending := True\<rparr>\<rparr>)"

definition ia64_sapic_lid :: "nat \<Rightarrow> nat \<Rightarrow> u64" where
  "ia64_sapic_lid sid eid = push_bit 24 (of_nat sid) OR push_bit 16 (of_nat eid)"

text \<open>The processors of the machine in the order of \<^verbatim>\<open>CPU_FOREACH\<close>; a processor is its index there.\<close>

definition ia64_cpu_by_sapic_id :: "nat \<Rightarrow> nat \<Rightarrow> env list \<Rightarrow> nat option" where
  "ia64_cpu_by_sapic_id sid eid cpus =
     List.find (\<lambda>i. cr (cpus ! i) IA64_CR_SAPIC_LID AND 0xffff0000 = ia64_sapic_lid sid eid) [0..<length cpus]"

definition ia64_sapic_set_xtp :: "u8 \<Rightarrow> env \<Rightarrow> env" where
  "ia64_sapic_set_xtp xtp e = e\<lparr>intr := (intr e)\<lparr>sapic_xtp := xtp AND 0x8f\<rparr>\<rparr>"

definition ia64_sapic_get_xtp :: "env \<Rightarrow> u8" where
  "ia64_sapic_get_xtp e = sapic_xtp (intr e)"

definition ia64_cpu_has_work :: "env \<Rightarrow> bool" where
  "ia64_cpu_has_work e \<longleftrightarrow>
     (let nmi_pending = (sapic_irr (intr e) 0 AND 4 \<noteq> 0);
          interrupts_enabled = (psr e AND IA64_PSR_I \<noteq> 0 \<or> halted e \<and> pal_halt_wake (intr e))
      in interrupt_hard e \<and>
         (interrupts_enabled \<or> nmi_pending \<or>
          pal_mca_pending e \<and> psr e AND IA64_PSR_MC = 0 \<or>
          sapic_pmi_pending (intr e) \<noteq> 0 \<and> psr e AND IA64_PSR_IC \<noteq> 0 \<and> pal_pmi_entry e \<noteq> 0 \<or>
          sapic_init_pending (intr e) \<and> psr e AND IA64_PSR_MC = 0))"

text \<open>
  The selection loop of \<^verbatim>\<open>sapic_redirect_target\<close>: the best candidate so far with its priority and its
  place in the walk from the requested processor upwards and around.
\<close>

definition redirect_candidate :: "env list \<Rightarrow> nat \<Rightarrow> nat \<Rightarrow> bool" where
  "redirect_candidate cpus requested i \<longleftrightarrow>
     cr (cpus ! i) IA64_CR_SAPIC_LID AND 0xff0000 = cr (cpus ! requested) IA64_CR_SAPIC_LID AND 0xff0000 \<and>
     sapic_xtp (intr (cpus ! i)) AND 0x80 = 0"

definition redirect_key :: "env list \<Rightarrow> nat \<Rightarrow> nat \<Rightarrow> nat \<times> nat" where
  "redirect_key cpus requested i =
     (unat (sapic_xtp (intr (cpus ! i)) AND 0x0f), (if i < requested then 2 ^ 32 + i else i))"

definition redirect_step :: "env list \<Rightarrow> nat \<Rightarrow> nat \<Rightarrow> (nat \<times> nat \<times> nat) option \<Rightarrow> (nat \<times> nat \<times> nat) option" where
  "redirect_step cpus requested i best =
     (if \<not> redirect_candidate cpus requested i then best
      else
        let (priority, order) = redirect_key cpus requested i
        in case best of
             None \<Rightarrow> Some (i, priority, order)
           | Some (_, best_priority, best_order) \<Rightarrow>
               if priority < best_priority \<or> priority = best_priority \<and> order < best_order
               then Some (i, priority, order) else best)"

definition sapic_redirect_target :: "nat \<Rightarrow> env list \<Rightarrow> nat" where
  "sapic_redirect_target requested cpus =
     (case fold (redirect_step cpus requested) [0..<length cpus] None of
        None \<Rightarrow> requested
      | Some (i, _) \<Rightarrow> i)"

text \<open>
  \<^verbatim>\<open>sapic_deliver_to\<close>, once the work queued for the target processor has run there.
\<close>

definition sapic_deliver_to :: "nat \<Rightarrow> sapic_delivery_mode \<Rightarrow> nat \<Rightarrow> env list \<Rightarrow> env list" where
  "sapic_deliver_to i delivery vector cpus =
     cpus[i := (if delivery = IA64_SAPIC_DELIVERY_PMI then ia64_sapic_set_special_work True vector (cpus ! i)
                else if delivery = IA64_SAPIC_DELIVERY_INIT then ia64_sapic_set_special_work False vector (cpus ! i)
                else ia64_sapic_set_irq_work vector (cpus ! i))]"

text \<open>The first switch: the effective redirection hint and vector, \<^term>\<open>None\<close> where the code returns false.\<close>

definition sapic_delivery_vector :: "sapic_delivery_mode \<Rightarrow> bool \<Rightarrow> nat \<Rightarrow> (bool \<times> nat) option" where
  "sapic_delivery_vector delivery redirect vector =
     (case delivery of
        IA64_SAPIC_DELIVERY_INT_REDIRECT \<Rightarrow>
          if ia64_external_interrupt_vector_valid vector then Some (True, vector) else None
      | IA64_SAPIC_DELIVERY_INT \<Rightarrow>
          if ia64_external_interrupt_vector_valid vector then Some (redirect, vector) else None
      | IA64_SAPIC_DELIVERY_NMI \<Rightarrow> Some (redirect, 2)
      | IA64_SAPIC_DELIVERY_EXTINT \<Rightarrow> Some (redirect, 0)
      | IA64_SAPIC_DELIVERY_PMI \<Rightarrow> if vector \<ge> 4 then None else Some (redirect, vector)
      | IA64_SAPIC_DELIVERY_INIT \<Rightarrow> Some (redirect, 0)
      | IA64_SAPIC_DELIVERY_RESERVED \<Rightarrow> None)"

definition ia64_sapic_deliver ::
  "sapic_destination_mode \<Rightarrow> nat \<Rightarrow> nat \<Rightarrow> bool \<Rightarrow> sapic_delivery_mode \<Rightarrow> nat \<Rightarrow> env list \<Rightarrow> bool \<times> env list" where
  "ia64_sapic_deliver destination_mode sid eid redirect0 delivery vector0 cpus =
     (if destination_mode \<noteq> IA64_SAPIC_DESTINATION_PHYSICAL then (False, cpus)
      else case sapic_delivery_vector delivery redirect0 vector0 of
        None \<Rightarrow> (False, cpus)
      | Some (redirect, vector) \<Rightarrow>
          case ia64_cpu_by_sapic_id sid eid cpus of
            None \<Rightarrow> (False, cpus)
          | Some i \<Rightarrow>
              if redirect \<and> delivery \<noteq> IA64_SAPIC_DELIVERY_NMI \<and> delivery \<noteq> IA64_SAPIC_DELIVERY_EXTINT
              then (True, sapic_deliver_to (sapic_redirect_target i cpus) delivery vector cpus)
              else (True, sapic_deliver_to i delivery vector cpus))"

section \<open>Priorities\<close>

definition vector_valid :: "nat \<Rightarrow> bool" where
  "vector_valid v \<longleftrightarrow> v < 256 \<and> ia64_external_interrupt_vector_valid v"


lemma vector_active_bit: "sapic_vector_active b v \<longleftrightarrow> bit (b (v div 64)) (v mod 64)"
  unfolding sapic_vector_active_def bit_iff_and_push_bit_not_eq_0 ..

lemma highest_bit:
  assumes "w \<noteq> 0"
  shows "bit w (highest_bit w)" and "highest_bit w < 64" and "highest_bit w < j \<Longrightarrow> \<not> bit w j"
proof -
  obtain n where n: "bit w n" using assms by (metis bit_word_eqI bit_0_eq bot_apply bot_bool_def)
  then have "n < 64" by (rule bit_u64_less)
  with n obtain i where f: "List.find (bit w) (rev [0..<64]) = Some i"
    by (metis atLeastLessThan_iff find_None_iff option.exhaust set_rev set_upt zero_le)
  then obtain k where k: "k < length (rev [0..<64])" "bit w (rev [0..<64] ! k)" "i = rev [0..<64] ! k"
    "\<forall>j<k. \<not> bit w (rev [0..<64] ! j)"
    by (auto simp: find_Some_iff)
  have i: "i = 63 - k" "k < 64" using k(1,3) by (simp_all add: rev_nth)
  have hb: "highest_bit w = i" by (simp only: highest_bit_def f option.case)
  show "bit w (highest_bit w)" "highest_bit w < 64" using k i hb by simp_all
  show "\<not> bit w j" if "highest_bit w < j"
  proof
    assume b: "bit w j"
    then have "j < 64" by (rule bit_u64_less)
    then have "63 - j < k" "rev [0..<64] ! (63 - j) = j" using that i hb by (simp_all add: rev_nth)
    with k(4) b show False by auto
  qed
qed

definition normal_vectors :: "(nat \<Rightarrow> u64) \<Rightarrow> nat set" where
  "normal_vectors b = {v. 16 \<le> v \<and> v < 256 \<and> sapic_vector_active b v}"

lemma find_highest_word:
  fixes b :: "nat \<Rightarrow> u64"
  assumes "word < 4"
  defines "active \<equiv> (if word = 0 then b word AND NOT 0xffff else b word)"
  shows "active \<noteq> 0 \<Longrightarrow> word * 64 + highest_bit active \<in> normal_vectors b"
    and "active \<noteq> 0 \<Longrightarrow> v \<in> normal_vectors b \<Longrightarrow> v div 64 \<le> word \<Longrightarrow> v \<le> word * 64 + highest_bit active"
    and "active = 0 \<Longrightarrow> v \<in> normal_vectors b \<Longrightarrow> v div 64 \<noteq> word"
proof -
  have low: "bit (b 0 AND NOT 0xffff) j \<longleftrightarrow> 16 \<le> j \<and> bit (b 0) j" for j
  proof -
    have "(0xffff :: u64) = mask 16" by (simp add: mask_eq_exp_minus_1)
    then have "bit (b 0 AND NOT 0xffff) j \<longleftrightarrow> bit (b 0) j \<and> \<not> bit (mask 16 :: u64) j"
      by (simp only: bit_and_not_word)
    then show ?thesis using bit_u64_less [of "b 0" j] by (auto simp: bit_mask_iff)
  qed
  have act: "bit active j \<longleftrightarrow> bit (b word) j \<and> 16 \<le> word * 64 + j" for j
  proof (cases "word = 0")
    case True
    then show ?thesis using low [of j] by (auto simp: active_def)
  next
    case False
    then show ?thesis by (auto simp: active_def)
  qed
  show "word * 64 + highest_bit active \<in> normal_vectors b" if "active \<noteq> 0"
    using highest_bit(1,2) [OF that] assms(1) by (simp add: act normal_vectors_def vector_active_bit)
  show "v \<le> word * 64 + highest_bit active" if a: "active \<noteq> 0" "v \<in> normal_vectors b" "v div 64 \<le> word" for v
  proof (cases "v div 64 = word")
    case True
    then have v: "v = word * 64 + v mod 64" by (metis div_mult_mod_eq)
    have "bit active (v mod 64)"
      using a(2) True v by (simp add: act normal_vectors_def vector_active_bit)
    then have "v mod 64 \<le> highest_bit active" using highest_bit(3) [OF a(1)] not_le by blast
    then show ?thesis using v by simp
  next
    case False
    then have "v div 64 < word" using a(3) by simp
    then have "v < word * 64" by (simp add: div_less_iff_less_mult)
    then show ?thesis by simp
  qed
  show "v div 64 \<noteq> word" if a: "active = 0" "v \<in> normal_vectors b" for v
  proof
    assume w: "v div 64 = word"
    then have v: "v = word * 64 + v mod 64" by (metis div_mult_mod_eq)
    have "bit active (v mod 64)"
      using a(2) w v by (simp add: act normal_vectors_def vector_active_bit)
    with a(1) show False by simp
  qed
qed

lemma find_highest_from:
  assumes "n \<le> 4" and "\<forall>v\<in>normal_vectors b. v div 64 < n"
  shows "sapic_find_highest_from (rev [0..<n]) b =
    (if normal_vectors b = {} then IA64_SPURIOUS_VECTOR else Max (normal_vectors b))"
  using assms
proof (induction n)
  case 0
  then have "normal_vectors b = {}" by auto
  then show ?case by simp
next
  case (Suc n)
  have fin: "finite (normal_vectors b)" by (rule finite_subset [of _ "{..<256}"]) (auto simp: normal_vectors_def)
  define active where "active = (if n = 0 then b n AND NOT 0xffff else b n)"
  have n: "n < 4" using Suc.prems(1) by simp
  note w = find_highest_word [OF n, of b, folded active_def]
  have le: "v div 64 \<le> n" if "v \<in> normal_vectors b" for v using Suc.prems(2) that by auto
  have eq: "sapic_find_highest_from (rev [0..<Suc n]) b =
      (if active \<noteq> 0 then n * 64 + highest_bit active else sapic_find_highest_from (rev [0..<n]) b)"
    by (simp add: active_def Let_def)
  show ?case
  proof (cases "active = 0")
    case True
    then have "\<forall>v\<in>normal_vectors b. v div 64 < n" using w(3) le by (meson le_neq_implies_less)
    with Suc.IH Suc.prems(1) True show ?thesis unfolding eq by simp
  next
    case False
    have "Max (normal_vectors b) = n * 64 + highest_bit active"
      by (rule Max_eqI [OF fin]) (use w False le in auto)
    with False w(1) show ?thesis unfolding eq by auto
  qed
qed

lemma find_highest_normal:
  "sapic_find_highest_normal b = (if normal_vectors b = {} then IA64_SPURIOUS_VECTOR else Max (normal_vectors b))"
proof -
  have "[3, 2, 1, 0] = rev [0..<4]" by (simp add: upt_rec)
  moreover have "\<forall>v\<in>normal_vectors b. v div 64 < 4" by (auto simp: normal_vectors_def div_less_iff_less_mult)
  ultimately show ?thesis unfolding sapic_find_highest_normal_def using find_highest_from [of 4 b] by simp
qed


definition active_vectors :: "(nat \<Rightarrow> u64) \<Rightarrow> nat set" where
  "active_vectors b = {v. vector_valid v \<and> sapic_vector_active b v}"

lemma active_vectors_split: "v \<in> active_vectors b \<longleftrightarrow>
    v = 2 \<and> sapic_vector_active b 2 \<or> v = 0 \<and> sapic_vector_active b 0 \<or> v \<in> normal_vectors b"
  by (auto simp: active_vectors_def normal_vectors_def vector_valid_def ia64_external_interrupt_vector_valid_def)

lemma normal_vectors_finite: "finite (normal_vectors b)"
  by (rule finite_subset [of _ "{..<256}"]) (auto simp: normal_vectors_def)

lemma normal_vectors_max:
  "v \<in> normal_vectors b \<Longrightarrow> v \<le> sapic_find_highest_normal b \<and> sapic_find_highest_normal b \<in> normal_vectors b"
  using Max_in [OF normal_vectors_finite, of b] Max_ge [OF normal_vectors_finite, of v b]
  by (auto simp: find_highest_normal)

lemma priority_normal: "v \<in> normal_vectors b \<Longrightarrow> sapic_vector_priority v = int v"
  by (auto simp: normal_vectors_def sapic_vector_priority_def)

lemma find_isr:
  assumes "v \<in> active_vectors (sapic_isr (intr e))"
  shows "sapic_find_isr e \<in> active_vectors (sapic_isr (intr e))"
    and "sapic_vector_priority v \<le> sapic_vector_priority (sapic_find_isr e)"
proof -
  let ?b = "sapic_isr (intr e)"
  have "sapic_find_isr e \<in> active_vectors ?b \<and> sapic_vector_priority v \<le> sapic_vector_priority (sapic_find_isr e)"
  proof (cases "sapic_vector_active ?b 2")
    case True
    then have "sapic_find_isr e = 2" by (simp add: sapic_find_isr_def)
    with True assms show ?thesis
      by (auto simp: active_vectors_split sapic_vector_priority_def normal_vectors_def)
  next
    case n2: False
    show ?thesis
    proof (cases "sapic_vector_active ?b 0")
      case True
      then have "sapic_find_isr e = 0" using n2 by (simp add: sapic_find_isr_def)
      with True n2 assms show ?thesis
        by (auto simp: active_vectors_split sapic_vector_priority_def normal_vectors_def)
    next
      case False
      then have eq: "sapic_find_isr e = sapic_find_highest_normal ?b" using n2 by (simp add: sapic_find_isr_def)
      have v: "v \<in> normal_vectors ?b" using assms n2 False by (auto simp: active_vectors_split)
      note m = normal_vectors_max [OF v]
      with v show ?thesis
        unfolding eq by (simp add: active_vectors_split priority_normal [OF v] priority_normal [OF conjunct2 [OF m]])
    qed
  qed
  then show "sapic_find_isr e \<in> active_vectors ?b"
    and "sapic_vector_priority v \<le> sapic_vector_priority (sapic_find_isr e)" by blast+
qed

lemma find_isr_none: "active_vectors (sapic_isr (intr e)) = {} \<Longrightarrow> sapic_find_isr e = IA64_SPURIOUS_VECTOR"
  using normal_vectors_max [of _ "sapic_isr (intr e)"]
  by (auto simp: sapic_find_isr_def find_highest_normal active_vectors_split set_eq_iff)

lemma priority_inj:
  "vector_valid v \<Longrightarrow> vector_valid w \<Longrightarrow> sapic_vector_priority v = sapic_vector_priority w \<Longrightarrow> v = w"
  by (auto simp: vector_valid_def ia64_external_interrupt_vector_valid_def sapic_vector_priority_def split: if_splits)

text \<open>The task priority register as numbers: the class it masks up to, and the mask of all vectors.\<close>

definition tpr_class :: "env \<Rightarrow> int" where
  "tpr_class e = uint (drop_bit 4 (cr e IA64_CR_SAPIC_TPR AND 0xf0))"

lemma unmasked_iff:
  assumes "vector_valid v"
  shows "sapic_vector_unmasked e v \<longleftrightarrow> sapic_vector_priority (sapic_find_isr e) < sapic_vector_priority v \<and>
    (v \<noteq> 2 \<longrightarrow> \<not> bit (cr e IA64_CR_SAPIC_TPR) 16) \<and> (16 \<le> v \<longrightarrow> tpr_class e < int (v div 16))"
proof -
  have b: "cr e IA64_CR_SAPIC_TPR AND 0x10000 = 0 \<longleftrightarrow> \<not> bit (cr e IA64_CR_SAPIC_TPR) 16"
    unfolding bit_iff_and_push_bit_not_eq_0 by simp
  have c: "drop_bit 4 (cr e IA64_CR_SAPIC_TPR AND 0xf0) < word_of_int (sapic_vector_priority_class v) \<longleftrightarrow>
      tpr_class e < int (v div 16)" if "16 \<le> v"
  proof -
    have "v div 16 < 16" using assms by (auto simp: vector_valid_def)
    then have "uint (word_of_int (int (v div 16)) :: u64) = int (v div 16)"
      by (subst uint_word_of_int_eq) (rule take_bit_int_eq_self, simp_all)
    with that show ?thesis by (simp only: word_less_def sapic_vector_priority_class_def if_True tpr_class_def)
  qed
  show ?thesis
    using assms b c
    by (auto simp: sapic_vector_unmasked_def Let_def vector_valid_def ia64_external_interrupt_vector_valid_def)
qed

lemma unmasked_mono:
  assumes "vector_valid v" "vector_valid w" "sapic_vector_priority v \<le> sapic_vector_priority w" "sapic_vector_unmasked e v"
  shows "sapic_vector_unmasked e w"
proof -
  have "w = 2 \<or> w = 0 \<and> v \<noteq> 2 \<or> 16 \<le> w \<and> 16 \<le> v \<and> v \<le> w"
    using assms(1-3) by (auto simp: vector_valid_def ia64_external_interrupt_vector_valid_def
        sapic_vector_priority_def split: if_splits)
  moreover have "int (v div 16) \<le> int (w div 16)" if "v \<le> w" using that by (simp add: div_le_mono)
  ultimately show ?thesis
    using assms by (auto simp: unmasked_iff)
qed

text \<open>
  The architected rules, stated without the priority numbers and the search of the code: the ranking of vectors, the
  vectors a bitmap of 256 bits holds, and which of the requested ones may interrupt what is in service under the current
  task priority (mask class in bits 4 to 7, mask of all maskable vectors in bit 16).
\<close>

definition outranks :: "nat \<Rightarrow> nat \<Rightarrow> bool" where
  "outranks v w \<longleftrightarrow> v = 2 \<and> w \<noteq> 2 \<or> v = 0 \<and> w \<ge> 16 \<or> w \<ge> 16 \<and> v > w"

definition vectors_in :: "(nat \<Rightarrow> u64) \<Rightarrow> nat set" where
  "vectors_in b = {v. v < 256 \<and> (v = 0 \<or> v = 2 \<or> v \<ge> 16) \<and> bit (b (v div 64)) (v mod 64)}"

definition deliverable :: "env \<Rightarrow> nat \<Rightarrow> bool" where
  "deliverable e v \<longleftrightarrow> v \<in> vectors_in (sapic_irr (intr e)) \<and>
     (\<forall>w \<in> vectors_in (sapic_isr (intr e)). outranks v w) \<and>
     (v \<noteq> 2 \<longrightarrow> \<not> bit (cr e IA64_CR_SAPIC_TPR) 16) \<and>
     (v \<ge> 16 \<longrightarrow> unat (cr e IA64_CR_SAPIC_TPR) div 16 mod 16 < v div 16)"

lemma vectors_in_active: "vectors_in b = active_vectors b"
  by (auto simp: vectors_in_def active_vectors_def vector_valid_def ia64_external_interrupt_vector_valid_def vector_active_bit)

lemma outranks_priority:
  "vector_valid v \<Longrightarrow> vector_valid w \<Longrightarrow> outranks v w \<longleftrightarrow> sapic_vector_priority w < sapic_vector_priority v"
  by (auto simp: outranks_def vector_valid_def ia64_external_interrupt_vector_valid_def sapic_vector_priority_def)

lemma above_in_service:
  assumes "vector_valid v"
  shows "sapic_vector_priority (sapic_find_isr e) < sapic_vector_priority v \<longleftrightarrow>
    (\<forall>w \<in> active_vectors (sapic_isr (intr e)). outranks v w)"
proof (cases "active_vectors (sapic_isr (intr e)) = {}")
  case True
  then show ?thesis
    using find_isr_none [OF True] assms
    by (auto simp: sapic_vector_priority_def vector_valid_def ia64_external_interrupt_vector_valid_def)
next
  case False
  then have i: "sapic_find_isr e \<in> active_vectors (sapic_isr (intr e))" using find_isr(1) by blast
  have "outranks v w \<longleftrightarrow> sapic_vector_priority w < sapic_vector_priority v" if "w \<in> active_vectors (sapic_isr (intr e))" for w
    using that outranks_priority [OF assms] by (simp add: active_vectors_def)
  then show ?thesis using i find_isr(2) [of _ e] by (meson le_less_trans)
qed

lemma tpr_class_nat: "tpr_class e < int k \<longleftrightarrow> unat (cr e IA64_CR_SAPIC_TPR) div 16 mod 16 < k"
proof -
  let ?t = "cr e IA64_CR_SAPIC_TPR"
  have "drop_bit 4 (?t AND 0xf0) = take_bit 4 (drop_bit 4 ?t)"
    by (simp add: take_bit_eq_mask mask_eq_exp_minus_1)
  moreover have "unat ?t < 2 ^ 64" by (rule order.strict_trans2 [OF unsigned_less]) simp
  ultimately have "unat (drop_bit 4 (?t AND 0xf0)) = unat ?t div 16 mod 16"
    by (simp only: unsigned_take_bit_eq unsigned_drop_bit_eq) (simp add: take_bit_eq_mod drop_bit_eq_div)
  then show ?thesis unfolding tpr_class_def by (simp add: uint_nat)
qed

lemma deliverable_iff: "deliverable e v \<longleftrightarrow> v \<in> active_vectors (sapic_irr (intr e)) \<and> sapic_vector_unmasked e v"
  unfolding deliverable_def vectors_in_active
  using above_in_service [of v e] unmasked_iff [of v e] tpr_class_nat [of e "v div 16"]
  by (auto simp: active_vectors_def)

lemma find_irr:
  assumes "deliverable e v"
  shows "deliverable e (sapic_find_irr e) \<and> sapic_find_irr e \<noteq> IA64_SPURIOUS_VECTOR \<and>
    sapic_vector_priority v \<le> sapic_vector_priority (sapic_find_irr e)"
proof -
  let ?b = "sapic_irr (intr e)"
  have v: "vector_valid v" "v \<in> active_vectors ?b" "sapic_vector_unmasked e v"
    using assms by (auto simp: deliverable_iff active_vectors_def)
  consider (nmi) "sapic_vector_active ?b 2" "sapic_vector_unmasked e 2"
    | (ext) "\<not> (sapic_vector_active ?b 2 \<and> sapic_vector_unmasked e 2)" "sapic_vector_active ?b 0" "sapic_vector_unmasked e 0"
    | (normal) "\<not> (sapic_vector_active ?b 2 \<and> sapic_vector_unmasked e 2)" "\<not> (sapic_vector_active ?b 0 \<and> sapic_vector_unmasked e 0)"
    by blast
  then show ?thesis
  proof cases
    case nmi
    then have "sapic_find_irr e = 2" by (simp add: sapic_find_irr_def)
    with nmi v show ?thesis
      by (auto simp: deliverable_iff active_vectors_split sapic_vector_priority_def normal_vectors_def)
  next
    case ext
    then have "sapic_find_irr e = 0" by (auto simp: sapic_find_irr_def)
    with ext v show ?thesis
      by (auto simp: deliverable_iff active_vectors_split sapic_vector_priority_def normal_vectors_def)
  next
    case normal
    with v have n: "v \<in> normal_vectors ?b" by (auto simp: active_vectors_split)
    let ?m = "sapic_find_highest_normal ?b"
    have m: "v \<le> ?m" "?m \<in> normal_vectors ?b" using normal_vectors_max [OF n] by auto
    have valid: "vector_valid ?m"
      using m(2) by (auto simp: normal_vectors_def vector_valid_def ia64_external_interrupt_vector_valid_def)
    have p: "sapic_vector_priority v \<le> sapic_vector_priority ?m"
      using m by (simp add: priority_normal [OF n] priority_normal [OF m(2)])
    have u: "sapic_vector_unmasked e ?m" by (rule unmasked_mono [OF v(1) valid p v(3)])
    have ns: "?m \<noteq> IA64_SPURIOUS_VECTOR" using m(2) by (auto simp: normal_vectors_def)
    have "sapic_find_irr e = ?m"
      using normal u ns unfolding sapic_find_irr_def Let_def by (simp only: if_False if_True simp_thms)
    with u ns m p show ?thesis by (simp add: deliverable_iff active_vectors_split)
  qed
qed

lemma find_irr_deliverable:
  assumes "sapic_find_irr e \<noteq> IA64_SPURIOUS_VECTOR"
  shows "deliverable e (sapic_find_irr e)"
proof -
  let ?b = "sapic_irr (intr e)"
  have n: "sapic_find_highest_normal ?b \<in> normal_vectors ?b" if "sapic_find_highest_normal ?b \<noteq> IA64_SPURIOUS_VECTOR"
    using that Max_in [OF normal_vectors_finite, of ?b] by (auto simp: find_highest_normal split: if_splits)
  show ?thesis
    using assms n unfolding sapic_find_irr_def Let_def
    by (auto simp: deliverable_iff active_vectors_split split: if_splits)
qed

lemma has_pending_iff: "ia64_sapic_has_pending e \<longleftrightarrow> (\<exists>v. deliverable e v)"
  using find_irr find_irr_deliverable by (auto simp: ia64_sapic_has_pending_def)

text \<open>
  C21: The vector the Local SAPIC offers is the highest-ranked requested vector that outranks every vector in service and
  that the task priority register does not mask, NMI above ExtINT above the numbered vectors; it offers the spurious
  vector exactly when there is none.
\<close>

theorem find_irr_highest:
  "(sapic_find_irr e = IA64_SPURIOUS_VECTOR \<longleftrightarrow> (\<nexists>v. deliverable e v)) \<and>
   (sapic_find_irr e \<noteq> IA64_SPURIOUS_VECTOR \<longrightarrow> deliverable e (sapic_find_irr e) \<and>
     (\<forall>v. deliverable e v \<longrightarrow> v = sapic_find_irr e \<or> outranks (sapic_find_irr e) v))"
proof -
  have valid: "vector_valid v" if "deliverable e v" for v
    using that by (simp add: deliverable_iff active_vectors_def)
  have "v = sapic_find_irr e \<or> outranks (sapic_find_irr e) v" if d: "deliverable e v" for v
  proof -
    note f = find_irr [OF d]
    have o: "vector_valid v" "vector_valid (sapic_find_irr e)" using d f by (blast intro: valid)+
    show ?thesis using f priority_inj [OF o] outranks_priority [OF o(2,1)] by linarith
  qed
  then show ?thesis using find_irr find_irr_deliverable by metis
qed


definition sapic_example :: env where
  "sapic_example = (env_zero False (\<lambda>_. 0))\<lparr>cr := (\<lambda>_. 0)(IA64_CR_SAPIC_TPR := 0x20),
     intr := interrupt_state_zero\<lparr>sapic_irr := (\<lambda>_. 0)(0 := 0x3000000000000), sapic_isr := (\<lambda>_. 0)\<rparr>\<rparr>"

lemma sapic_example_deliverable: "deliverable sapic_example 48"
proof -
  have "active_vectors (sapic_isr (intr sapic_example)) = {}"
    by (auto simp: active_vectors_def sapic_example_def vector_active_bit)
  then have i: "sapic_find_isr sapic_example = IA64_SPURIOUS_VECTOR" by (rule find_isr_none)
  have "vector_valid 48" by (simp add: vector_valid_def ia64_external_interrupt_vector_valid_def)
  moreover have "sapic_vector_unmasked sapic_example 48"
    unfolding unmasked_iff [OF \<open>vector_valid 48\<close>] i
    by (simp add: sapic_vector_priority_def tpr_class_def sapic_example_def)
  ultimately show ?thesis
    by (simp add: deliverable_iff active_vectors_def sapic_example_def sapic_vector_active_def)
qed

theorem find_irr_highest_witness:
  "sapic_find_irr sapic_example \<noteq> IA64_SPURIOUS_VECTOR \<and>
   (sapic_find_irr sapic_example = 48 \<or> outranks (sapic_find_irr sapic_example) 48)"
  using find_irr_highest [of sapic_example] sapic_example_deliverable by metis

section \<open>Acceptance and end of interrupt\<close>

lemma bit_single: "bit (push_bit n 1 :: u64) k \<longleftrightarrow> n < 64 \<and> k = n"
  by (auto simp: bit_exp_iff)

lemma div_mod_64_eq: "w = v \<longleftrightarrow> w div 64 = v div 64 \<and> w mod 64 = v mod (64 :: nat)"
  by (metis div_mult_mod_eq)

lemma bitmap_set_active: "sapic_vector_active (bitmap_set v b) w \<longleftrightarrow> w = v \<or> sapic_vector_active b w"
proof (cases "w div 64 = v div 64")
  case True
  then show ?thesis
    unfolding vector_active_bit bitmap_set_def div_mod_64_eq [of w v] True fun_upd_same bit_or_iff bit_single by auto
next
  case False
  then show ?thesis unfolding vector_active_bit bitmap_set_def div_mod_64_eq [of w v] by simp
qed

lemma bitmap_clear_active: "sapic_vector_active (bitmap_clear v b) w \<longleftrightarrow> w \<noteq> v \<and> sapic_vector_active b w"
proof (cases "w div 64 = v div 64")
  case True
  then show ?thesis
    unfolding vector_active_bit bitmap_clear_def div_mod_64_eq [of w v] True fun_upd_same bit_and_not_word bit_single by auto
next
  case False
  then show ?thesis unfolding vector_active_bit bitmap_clear_def div_mod_64_eq [of w v] by simp
qed

lemma bitmap_clear_set:
  assumes "\<not> sapic_vector_active b v"
  shows "bitmap_clear v (bitmap_set v b) = b"
proof -
  have "\<not> bit (b (v div 64)) (v mod 64)" using assms by (simp add: vector_active_bit)
  then have "(b (v div 64) OR push_bit (v mod 64) 1) AND NOT (push_bit (v mod 64) 1) = b (v div 64)"
    by (intro bit_word_eqI) (unfold bit_and_not_word bit_or_iff bit_single, auto)
  then show ?thesis by (simp add: bitmap_clear_def bitmap_set_def)
qed

lemma update_interrupt_fields:
  "intr (ia64_sapic_update_interrupt e) = intr e" "cr (ia64_sapic_update_interrupt e) = cr e"
  "psr (ia64_sapic_update_interrupt e) = psr e" "pal_mca_pending (ia64_sapic_update_interrupt e) = pal_mca_pending e"
  "pal_pmi_entry (ia64_sapic_update_interrupt e) = pal_pmi_entry e"
  by (simp_all add: ia64_sapic_update_interrupt_def)

lemma sapic_state_cong:
  assumes "intr e = intr f" "cr e = cr f"
  shows "sapic_find_isr e = sapic_find_isr f" "sapic_vector_unmasked e = sapic_vector_unmasked f"
    "sapic_find_irr e = sapic_find_irr f" "deliverable e = deliverable f"
proof -
  show i: "sapic_find_isr e = sapic_find_isr f" by (simp only: sapic_find_isr_def assms)
  then show u: "sapic_vector_unmasked e = sapic_vector_unmasked f"
    by (intro ext) (simp only: sapic_vector_unmasked_def assms)
  then show "sapic_find_irr e = sapic_find_irr f" by (simp only: sapic_find_irr_def assms)
  show "deliverable e = deliverable f" using u by (intro ext) (simp only: deliverable_iff assms)
qed

lemma accept_fields:
  assumes "sapic_find_irr e = v" "v \<noteq> IA64_SPURIOUS_VECTOR" "ia64_sapic_accept e = (w, e')"
  shows "w = v" "cr e' = cr e" "sapic_irr (intr e') = bitmap_clear v (sapic_irr (intr e))"
    "sapic_isr (intr e') = bitmap_set v (sapic_isr (intr e))"
  using assms(3) unfolding ia64_sapic_accept_def Let_def assms(1) if_P [OF assms(2)]
  by (auto simp: update_interrupt_fields)

text \<open>
  C22: Reading \<^verbatim>\<open>CR.IVR\<close> moves the offered vector from the request to the in-service bitmap, where it
  is the highest; until \<^verbatim>\<open>CR.EOI\<close> only vectors of higher priority can be offered, and \<^verbatim>\<open>CR.EOI\<close>
  then restores the in-service bitmap exactly.
\<close>

theorem accept_then_eoi:
  assumes v: "sapic_find_irr e \<noteq> IA64_SPURIOUS_VECTOR" and acc: "ia64_sapic_accept e = (v, e')"
  shows "v = sapic_find_irr e \<and> \<not> sapic_vector_active (sapic_irr (intr e')) v \<and> sapic_find_isr e' = v \<and>
    (\<forall>w. deliverable e' w \<longrightarrow> sapic_vector_priority v < sapic_vector_priority w) \<and>
    sapic_isr (intr (ia64_sapic_eoi e')) = sapic_isr (intr e)"
proof -
  note f = accept_fields [OF refl v acc]
  have d: "deliverable e v" using find_irr_deliverable [OF v] f(1) by simp
  then have valid: "vector_valid v" and un: "sapic_vector_unmasked e v"
    by (auto simp: deliverable_iff active_vectors_def)
  then have v256: "v < 256" by (simp add: vector_valid_def)
  have higher: "sapic_vector_priority (sapic_find_isr e) < sapic_vector_priority v"
    using un unfolding unmasked_iff [OF valid] by blast
  have notin: "\<not> sapic_vector_active (sapic_isr (intr e)) v"
  proof
    assume "sapic_vector_active (sapic_isr (intr e)) v"
    then have "v \<in> active_vectors (sapic_isr (intr e))" using valid by (simp add: active_vectors_def)
    from find_isr(2) [OF this] higher show False by simp
  qed
  have in_isr: "w \<in> active_vectors (sapic_isr (intr e')) \<longleftrightarrow> w = v \<or> w \<in> active_vectors (sapic_isr (intr e))" for w
    using valid v256 f(4) unfolding f(1) [symmetric]
    by (auto simp: active_vectors_def bitmap_set_active vector_valid_def)
  then have v_in: "v \<in> active_vectors (sapic_isr (intr e'))" by blast
  have top: "sapic_find_isr e' = v"
  proof -
    have i: "sapic_find_isr e' \<in> active_vectors (sapic_isr (intr e'))"
      "sapic_vector_priority v \<le> sapic_vector_priority (sapic_find_isr e')" using find_isr [OF v_in] by auto
    show ?thesis
    proof (rule ccontr)
      assume "sapic_find_isr e' \<noteq> v"
      then have "sapic_find_isr e' \<in> active_vectors (sapic_isr (intr e))" using i(1) in_isr by blast
      from find_isr(2) [OF this] higher i(2) show False by simp
    qed
  qed
  have "sapic_vector_priority v < sapic_vector_priority w" if "deliverable e' w" for w
    using that top by (auto simp: deliverable_iff active_vectors_def unmasked_iff)
  moreover have "\<not> sapic_vector_active (sapic_irr (intr e')) v" using f(3) f(1) by (simp add: bitmap_clear_active)
  moreover have "sapic_isr (intr (ia64_sapic_eoi e')) = sapic_isr (intr e)"
    using v f(1,4) bitmap_clear_set [OF notin]
    by (simp add: ia64_sapic_eoi_def top update_interrupt_fields)
  ultimately show ?thesis using f(1) top by blast
qed

theorem accept_then_eoi_witness:
  "sapic_isr (intr (ia64_sapic_eoi (snd (ia64_sapic_accept sapic_example)))) = (\<lambda>_. 0)"
proof -
  have "sapic_find_irr sapic_example \<noteq> IA64_SPURIOUS_VECTOR" using find_irr sapic_example_deliverable by blast
  with accept_then_eoi [of sapic_example "fst (ia64_sapic_accept sapic_example)" "snd (ia64_sapic_accept sapic_example)"]
  show ?thesis by (simp add: sapic_example_def)
qed


section \<open>Routing\<close>

definition key_le :: "nat \<times> nat \<Rightarrow> nat \<times> nat \<Rightarrow> bool" where
  "key_le a b \<longleftrightarrow> fst a < fst b \<or> fst a = fst b \<and> snd a \<le> snd b"

definition redirect_best :: "env list \<Rightarrow> nat \<Rightarrow> nat list \<Rightarrow> (nat \<times> nat \<times> nat) option \<Rightarrow> bool" where
  "redirect_best cpus requested is best \<longleftrightarrow>
     (case best of
        None \<Rightarrow> \<forall>i\<in>set is. \<not> redirect_candidate cpus requested i
      | Some (i, k) \<Rightarrow> i \<in> set is \<and> redirect_candidate cpus requested i \<and> k = redirect_key cpus requested i \<and>
          (\<forall>j\<in>set is. redirect_candidate cpus requested j \<longrightarrow> key_le k (redirect_key cpus requested j)))"

lemma redirect_best_step:
  assumes "redirect_best cpus requested is best"
  shows "redirect_best cpus requested (is @ [i]) (redirect_step cpus requested i best)"
proof (cases "redirect_candidate cpus requested i")
  case False
  with assms show ?thesis by (auto simp: redirect_best_def redirect_step_def split: option.splits)
next
  case True
  obtain p q where k: "redirect_key cpus requested i = (p, q)" by fastforce
  show ?thesis
  proof (cases best)
    case None
    with True k assms show ?thesis
      by (auto simp: redirect_best_def redirect_step_def key_le_def)
  next
    case (Some b)
    obtain j bp bq where b: "b = (j, bp, bq)" by (cases b) auto
    have bst: "j \<in> set is" "redirect_candidate cpus requested j" "(bp, bq) = redirect_key cpus requested j"
      "\<forall>j\<in>set is. redirect_candidate cpus requested j \<longrightarrow> key_le (bp, bq) (redirect_key cpus requested j)"
      using assms unfolding redirect_best_def Some b option.case prod.case by blast+
    show ?thesis
    proof (cases "p < bp \<or> p = bp \<and> q < bq")
      case better: True
      have "key_le (p, q) (redirect_key cpus requested l)" if "l \<in> set is" "redirect_candidate cpus requested l" for l
      proof -
        have "key_le (bp, bq) (redirect_key cpus requested l)" using bst(4) that by blast
        with better show ?thesis by (auto simp: key_le_def)
      qed
      with better True k show ?thesis
        by (auto simp: redirect_best_def redirect_step_def Some b key_le_def)
    next
      case worse: False
      then have "key_le (bp, bq) (p, q)" by (auto simp: key_le_def)
      moreover have "redirect_step cpus requested i best = Some (j, bp, bq)"
        using worse True k by (simp add: redirect_step_def Some b)
      ultimately show ?thesis using k bst unfolding redirect_best_def by auto
    qed
  qed
qed

lemma redirect_best_fold: "redirect_best cpus requested is (fold (redirect_step cpus requested) is None)"
proof (induction "is" rule: rev_induct)
  case Nil
  show ?case by (simp add: redirect_best_def)
next
  case (snoc i "is")
  from redirect_best_step [OF this, of i] show ?case by simp
qed

lemma find_by_index:
  "List.find P [0..<n] = Some i \<Longrightarrow> i < n \<and> P i"
  "List.find P [0..<n] = None \<Longrightarrow> j < n \<Longrightarrow> \<not> P j"
  by (auto simp: find_Some_iff find_None_iff)

lemma redirect_target_cases:
  assumes "requested < length cpus"
  defines "t \<equiv> sapic_redirect_target requested cpus"
  shows "t < length cpus"
    and "t = requested \<and> (\<forall>i<length cpus. \<not> redirect_candidate cpus requested i) \<or>
      redirect_candidate cpus requested t \<and>
      (\<forall>i<length cpus. redirect_candidate cpus requested i \<longrightarrow>
         key_le (redirect_key cpus requested t) (redirect_key cpus requested i))"
proof -
  note b = redirect_best_fold [of cpus requested "[0..<length cpus]"]
  have "t < length cpus \<and> (t = requested \<and> (\<forall>i<length cpus. \<not> redirect_candidate cpus requested i) \<or>
      redirect_candidate cpus requested t \<and>
      (\<forall>i<length cpus. redirect_candidate cpus requested i \<longrightarrow>
         key_le (redirect_key cpus requested t) (redirect_key cpus requested i)))"
  proof (cases "fold (redirect_step cpus requested) [0..<length cpus] None")
    case None
    then show ?thesis using b assms(1) by (simp add: t_def sapic_redirect_target_def redirect_best_def)
  next
    case (Some r)
    obtain i k where r: "r = (i, k)" by (rule prod.exhaust)
    with Some have t: "t = i" by (simp add: t_def sapic_redirect_target_def)
    have "i \<in> set [0..<length cpus] \<and> redirect_candidate cpus requested i \<and> k = redirect_key cpus requested i \<and>
        (\<forall>j\<in>set [0..<length cpus]. redirect_candidate cpus requested j \<longrightarrow> key_le k (redirect_key cpus requested j))"
      using b unfolding Some r redirect_best_def option.case prod.case .
    then show ?thesis unfolding t set_upt by auto
  qed
  then show "t < length cpus"
    and "t = requested \<and> (\<forall>i<length cpus. \<not> redirect_candidate cpus requested i) \<or>
      redirect_candidate cpus requested t \<and>
      (\<forall>i<length cpus. redirect_candidate cpus requested i \<longrightarrow>
         key_le (redirect_key cpus requested t) (redirect_key cpus requested i))" by blast+
qed

text \<open>
  The routing rules, stated on the fields of the registers: the processor whose \<^verbatim>\<open>CR.LID\<close> holds the identity, and among
  the processors of its cluster that take redirected interrupts (bit 7 of the external task priority clear) the one of
  lowest external task priority, the first at or above the addressee walking round the processors among equals.
\<close>

definition lid_id :: "env \<Rightarrow> nat" where
  "lid_id e = unat (cr e IA64_CR_SAPIC_LID) div 2 ^ 24 mod 256"

definition lid_eid :: "env \<Rightarrow> nat" where
  "lid_eid e = unat (cr e IA64_CR_SAPIC_LID) div 2 ^ 16 mod 256"

definition addressed :: "env list \<Rightarrow> nat \<Rightarrow> nat \<Rightarrow> nat \<Rightarrow> bool" where
  "addressed cpus sid eid i \<longleftrightarrow> i < length cpus \<and> lid_id (cpus ! i) = sid \<and> lid_eid (cpus ! i) = eid \<and>
     (\<forall>j<i. \<not> (lid_id (cpus ! j) = sid \<and> lid_eid (cpus ! j) = eid))"

definition takes_redirected :: "env list \<Rightarrow> nat \<Rightarrow> nat \<Rightarrow> bool" where
  "takes_redirected cpus i j \<longleftrightarrow> j < length cpus \<and> lid_eid (cpus ! j) = lid_eid (cpus ! i) \<and>
     \<not> bit (sapic_xtp (intr (cpus ! j))) 7"

definition task_priority :: "env \<Rightarrow> nat" where
  "task_priority e = unat (sapic_xtp (intr e)) mod 16"

definition walk :: "env list \<Rightarrow> nat \<Rightarrow> nat \<Rightarrow> nat" where
  "walk cpus i j = (j + length cpus - i) mod length cpus"

definition redirected :: "env list \<Rightarrow> nat \<Rightarrow> nat \<Rightarrow> bool" where
  "redirected cpus i t \<longleftrightarrow>
     takes_redirected cpus i t \<and>
     (\<forall>j. takes_redirected cpus i j \<and> j \<noteq> t \<longrightarrow> task_priority (cpus ! t) < task_priority (cpus ! j) \<or>
        task_priority (cpus ! t) = task_priority (cpus ! j) \<and> walk cpus i t < walk cpus i j) \<or>
     t = i \<and> (\<nexists>j. takes_redirected cpus i j)"

text \<open>Which messages are well formed, and what receiving one changes.\<close>

fun message_valid :: "sapic_delivery_mode \<Rightarrow> nat \<Rightarrow> bool" where
  "message_valid IA64_SAPIC_DELIVERY_INT v \<longleftrightarrow> v = 0 \<or> v = 2 \<or> v \<ge> 16"
| "message_valid IA64_SAPIC_DELIVERY_INT_REDIRECT v \<longleftrightarrow> v = 0 \<or> v = 2 \<or> v \<ge> 16"
| "message_valid IA64_SAPIC_DELIVERY_PMI v \<longleftrightarrow> v < 4"
| "message_valid IA64_SAPIC_DELIVERY_NMI v \<longleftrightarrow> True"
| "message_valid IA64_SAPIC_DELIVERY_INIT v \<longleftrightarrow> True"
| "message_valid IA64_SAPIC_DELIVERY_EXTINT v \<longleftrightarrow> True"
| "message_valid IA64_SAPIC_DELIVERY_RESERVED v \<longleftrightarrow> False"

fun received :: "sapic_delivery_mode \<Rightarrow> nat \<Rightarrow> env \<Rightarrow> env \<Rightarrow> bool" where
  "received IA64_SAPIC_DELIVERY_INT v e f \<longleftrightarrow>
     vectors_in (sapic_irr (intr f)) = insert v (vectors_in (sapic_irr (intr e)))"
| "received IA64_SAPIC_DELIVERY_INT_REDIRECT v e f \<longleftrightarrow>
     vectors_in (sapic_irr (intr f)) = insert v (vectors_in (sapic_irr (intr e)))"
| "received IA64_SAPIC_DELIVERY_NMI v e f \<longleftrightarrow>
     vectors_in (sapic_irr (intr f)) = insert 2 (vectors_in (sapic_irr (intr e)))"
| "received IA64_SAPIC_DELIVERY_EXTINT v e f \<longleftrightarrow>
     vectors_in (sapic_irr (intr f)) = insert 0 (vectors_in (sapic_irr (intr e)))"
| "received IA64_SAPIC_DELIVERY_PMI v e f \<longleftrightarrow>
     (\<forall>k<16. bit (sapic_pmi_pending (intr f)) k \<longleftrightarrow> k = v \<or> bit (sapic_pmi_pending (intr e)) k)"
| "received IA64_SAPIC_DELIVERY_INIT v e f \<longleftrightarrow> sapic_init_pending (intr f)"
| "received IA64_SAPIC_DELIVERY_RESERVED v e f \<longleftrightarrow> False"

lemma nat_bits_eq: "(a :: nat) = b \<longleftrightarrow> (\<forall>n. bit a n \<longleftrightarrow> bit b n)"
  by (auto intro: bit_eqI)

lemma word_bits_eq: "(x :: u64) = y \<longleftrightarrow> (\<forall>n. bit x n \<longleftrightarrow> bit y n)"
  by (auto intro: bit_word_eqI)

lemma byte_high: "n < 256 \<Longrightarrow> 8 \<le> k \<Longrightarrow> \<not> bit (n :: nat) k"
proof -
  assume n: "n < 256" and k: "8 \<le> k"
  have "(2 :: nat) ^ 8 \<le> 2 ^ k" using k by (intro power_increasing) simp_all
  with n show ?thesis by (simp add: bit_iff_odd)
qed

lemma byte_bits: "bit (unat (x :: u64) div 2 ^ m mod 256) k \<longleftrightarrow> k < 8 \<and> bit x (m + k)"
proof -
  have "unat x div 2 ^ m mod 256 = take_bit 8 (drop_bit m (unat x))" by (simp add: take_bit_eq_mod drop_bit_eq_div)
  then show ?thesis by (simp only: bit_take_bit_iff bit_drop_bit_eq comp_def) (simp add: bit_unsigned_iff)
qed

lemma byte_field:
  fixes x :: u64
  assumes "n < 256"
  shows "unat x div 2 ^ m mod 256 = n \<longleftrightarrow> (\<forall>k<8. bit x (m + k) \<longleftrightarrow> bit n k)"
  unfolding nat_bits_eq [of _ n] byte_bits using byte_high [OF assms] by (metis linorder_not_less)

lemma lid_lookup:
  assumes "sid < 256" "eid < 256"
  shows "cr e IA64_CR_SAPIC_LID AND 0xffff0000 = ia64_sapic_lid sid eid \<longleftrightarrow> lid_id e = sid \<and> lid_eid e = eid"
proof -
  let ?x = "cr e IA64_CR_SAPIC_LID"
  have m: "(0xffff0000 :: u64) = push_bit 16 (mask 16)" by (simp add: mask_eq_exp_minus_1)
  have l: "bit (?x AND 0xffff0000) n \<longleftrightarrow> 16 \<le> n \<and> n < 32 \<and> bit ?x n" for n
    unfolding m by (auto simp: bit_and_iff bit_push_bit_iff bit_mask_iff dest: bit_word_lt_length)
  have r: "bit (ia64_sapic_lid sid eid) n \<longleftrightarrow> n < 64 \<and> (24 \<le> n \<and> bit sid (n - 24) \<or> 16 \<le> n \<and> bit eid (n - 16))" for n
    unfolding ia64_sapic_lid_def by (auto simp: bit_or_iff bit_push_bit_iff bit_of_nat_iff dest: bit_word_lt_length)
  note h = byte_high [OF assms(1)] byte_high [OF assms(2)]
  have "(\<forall>n. bit (?x AND 0xffff0000) n \<longleftrightarrow> bit (ia64_sapic_lid sid eid) n) \<longleftrightarrow>
      (\<forall>k<8. bit ?x (24 + k) \<longleftrightarrow> bit sid k) \<and> (\<forall>k<8. bit ?x (16 + k) \<longleftrightarrow> bit eid k)" (is "?L \<longleftrightarrow> ?R")
  proof
    assume L: ?L
    have "bit ?x (24 + k) \<longleftrightarrow> bit sid k" if "k < 8" for k
      using L [rule_format, of "24 + k"] h(2) [of "8 + k"] that unfolding l r by simp
    moreover have "bit ?x (16 + k) \<longleftrightarrow> bit eid k" if "k < 8" for k
      using L [rule_format, of "16 + k"] that unfolding l r by simp
    ultimately show ?R by blast
  next
    assume R: ?R
    show ?L
    proof
      fix n
      show "bit (?x AND 0xffff0000) n \<longleftrightarrow> bit (ia64_sapic_lid sid eid) n"
        using R [THEN conjunct1, rule_format, of "n - 24"] R [THEN conjunct2, rule_format, of "n - 16"]
          h(1) [of "n - 24"] h(2) [of "n - 16"]
        unfolding l r by (cases "n < 24"; cases "n < 32") auto
    qed
  qed
  then show ?thesis
    unfolding lid_id_def lid_eid_def byte_field [OF assms(1)] byte_field [OF assms(2)] by (simp only: word_bits_eq simp_thms)
qed

lemma lookup_addressed:
  assumes "sid < 256" "eid < 256"
  shows "ia64_cpu_by_sapic_id sid eid cpus = Some i \<longleftrightarrow> addressed cpus sid eid i"
    and "ia64_cpu_by_sapic_id sid eid cpus = None \<longleftrightarrow> (\<nexists>i. addressed cpus sid eid i)"
proof -
  show i: "ia64_cpu_by_sapic_id sid eid cpus = Some i \<longleftrightarrow> addressed cpus sid eid i" for i
    unfolding ia64_cpu_by_sapic_id_def lid_lookup [OF assms] find_Some_iff addressed_def by auto
  show "ia64_cpu_by_sapic_id sid eid cpus = None \<longleftrightarrow> (\<nexists>i. addressed cpus sid eid i)"
    unfolding i [symmetric] by simp
qed

lemma candidate_iff:
  assumes "j < length cpus"
  shows "redirect_candidate cpus i j \<longleftrightarrow> takes_redirected cpus i j"
proof -
  have m: "(0xff0000 :: u64) = push_bit 16 (mask 8)" by (simp add: mask_eq_exp_minus_1)
  have l: "bit (x AND 0xff0000) n \<longleftrightarrow> 16 \<le> n \<and> n < 24 \<and> bit x n" for n and x :: u64
    unfolding m by (auto simp: bit_and_iff bit_push_bit_iff bit_mask_iff dest: bit_word_lt_length)
  have "x AND 0xff0000 = y AND 0xff0000 \<longleftrightarrow> (\<forall>k<8. bit x (16 + k) \<longleftrightarrow> bit y (16 + k))" (is "?L \<longleftrightarrow> ?R") for x y :: u64
  proof
    assume ?L
    then have L: "16 \<le> n \<and> n < 24 \<and> bit x n \<longleftrightarrow> 16 \<le> n \<and> n < 24 \<and> bit y n" for n
      unfolding word_bits_eq [of "x AND 0xff0000"] l by blast
    show ?R
    proof (intro allI impI)
      fix k :: nat
      assume "k < 8"
      then show "bit x (16 + k) \<longleftrightarrow> bit y (16 + k)" using L [of "16 + k"] by simp
    qed
  next
    assume R: ?R
    have "16 \<le> n \<and> n < 24 \<and> bit x n \<longleftrightarrow> 16 \<le> n \<and> n < 24 \<and> bit y n" for n
      using R [rule_format, of "n - 16"] by auto
    then show ?L unfolding word_bits_eq [of "x AND 0xff0000"] l by blast
  qed
  moreover have "unat x div 2 ^ 16 mod 256 = unat y div 2 ^ 16 mod 256 \<longleftrightarrow> (\<forall>k<8. bit x (16 + k) \<longleftrightarrow> bit y (16 + k))"
    for x y :: u64
    unfolding nat_bits_eq [of "unat x div 2 ^ 16 mod 256"] byte_bits by blast
  moreover have "sapic_xtp (intr (cpus ! j)) AND 0x80 = 0 \<longleftrightarrow> \<not> bit (sapic_xtp (intr (cpus ! j))) 7"
    unfolding bit_iff_and_push_bit_not_eq_0 by simp
  ultimately show ?thesis using assms by (auto simp: redirect_candidate_def takes_redirected_def lid_eid_def)
qed

lemma walk_key:
  assumes "i < length cpus" "j < length cpus" "k < length cpus" "length cpus \<le> 2 ^ 32"
  shows "snd (redirect_key cpus i j) \<le> snd (redirect_key cpus i k) \<longleftrightarrow> j = k \<or> walk cpus i j < walk cpus i k"
proof -
  have w: "walk cpus i l = (if l < i then l + length cpus - i else l - i)" if "l < length cpus" for l
    using that assms(1) by (auto simp: walk_def mod_if)
  show ?thesis unfolding w [OF assms(2)] w [OF assms(3)] using assms by (auto simp: redirect_key_def)
qed

lemma priority_key: "fst (redirect_key cpus i j) = task_priority (cpus ! j)"
proof -
  have "sapic_xtp (intr (cpus ! j)) AND 0x0f = take_bit 4 (sapic_xtp (intr (cpus ! j)))"
    by (simp add: take_bit_eq_mask mask_eq_exp_minus_1)
  then show ?thesis
    by (simp only: redirect_key_def task_priority_def fst_conv unsigned_take_bit_eq) (simp add: take_bit_eq_mod)
qed

lemma target_redirected:
  assumes i: "i < length cpus" and n: "length cpus \<le> 2 ^ 32"
  shows "redirected cpus i (sapic_redirect_target i cpus)"
proof -
  let ?t = "sapic_redirect_target i cpus"
  note t = redirect_target_cases [OF i]
  have c: "takes_redirected cpus i j \<longleftrightarrow> j < length cpus \<and> redirect_candidate cpus i j" for j
    using candidate_iff [of j cpus i] by (auto simp: takes_redirected_def)
  have "task_priority (cpus ! ?t) < task_priority (cpus ! j) \<or>
      task_priority (cpus ! ?t) = task_priority (cpus ! j) \<and> walk cpus i ?t < walk cpus i j"
    if "key_le (redirect_key cpus i ?t) (redirect_key cpus i j)" "j < length cpus" "j \<noteq> ?t" for j
    using that(1,3) walk_key [OF i t(1) that(2) n] unfolding key_le_def priority_key by auto
  then show ?thesis using t unfolding redirected_def c by blast
qed

lemma vectors_in_set:
  "v < 256 \<Longrightarrow> v = 0 \<or> v = 2 \<or> v \<ge> 16 \<Longrightarrow> vectors_in (bitmap_set v b) = insert v (vectors_in b)"
  unfolding vectors_in_active
  by (auto simp: active_vectors_def bitmap_set_active vector_valid_def ia64_external_interrupt_vector_valid_def)

lemma deliver_to_received:
  assumes "message_valid d v" "v < 256" "t < length cpus" "sapic_delivery_vector d redirect v = Some (r, w)"
  shows "received d v (cpus ! t) (sapic_deliver_to t d w cpus ! t)"
proof -
  have pmi: "bit (2 ^ n :: u16) k \<longleftrightarrow> k = n" if "n < 4" for n k :: nat
    using that by (auto simp: bit_exp_iff)
  show ?thesis using assms
    by (cases d) (auto simp: sapic_deliver_to_def sapic_delivery_vector_def ia64_sapic_set_irq_work_def
        ia64_sapic_set_special_work_def update_interrupt_fields vectors_in_set bit_or_iff pmi
        ia64_external_interrupt_vector_valid_def split: if_splits)
qed

lemma delivery_vector_valid:
  "sapic_delivery_vector d redirect v = None \<longleftrightarrow> \<not> message_valid d v"
  "sapic_delivery_vector d redirect v = Some (r, w) \<Longrightarrow> r = (redirect \<or> d = IA64_SAPIC_DELIVERY_INT_REDIRECT)"
  by (cases d; auto simp: sapic_delivery_vector_def ia64_external_interrupt_vector_valid_def split: if_splits)+

text \<open>
  C23: A physically addressed interrupt message is accepted exactly when its vector is valid for its delivery mode and a
  processor has the addressed identity.  It is then received by one processor and no other changes: the addressee, unless
  the message is redirectable (by its hint or its mode, and neither NMI nor ExtINT), when it goes to the processor of the
  addressee's cluster that takes redirected interrupts and has the lowest external task priority, the first at or above the
  addressee among equals, and to the addressee when there is none.  A refused message changes nothing.
\<close>

theorem deliver_routed:
  assumes del: "ia64_sapic_deliver IA64_SAPIC_DESTINATION_PHYSICAL sid eid redirect d v cpus = (accepted, cpus')"
    and fields: "sid < 256" "eid < 256" "v < 256" and n: "length cpus \<le> 2 ^ 32"
  shows "(accepted \<longleftrightarrow> message_valid d v \<and> (\<exists>i. addressed cpus sid eid i)) \<and>
    (\<not> accepted \<longrightarrow> cpus' = cpus) \<and>
    (accepted \<longrightarrow> (\<exists>i t. addressed cpus sid eid i \<and> t < length cpus \<and>
       (if (redirect \<or> d = IA64_SAPIC_DELIVERY_INT_REDIRECT) \<and> d \<noteq> IA64_SAPIC_DELIVERY_NMI \<and> d \<noteq> IA64_SAPIC_DELIVERY_EXTINT
        then redirected cpus i t else t = i) \<and>
       received d v (cpus ! t) (cpus' ! t) \<and> length cpus' = length cpus \<and> (\<forall>j<length cpus. j \<noteq> t \<longrightarrow> cpus' ! j = cpus ! j)))"
proof (cases "message_valid d v \<and> (\<exists>i. addressed cpus sid eid i)")
  case False
  then have "sapic_delivery_vector d redirect v = None \<or> ia64_cpu_by_sapic_id sid eid cpus = None"
    unfolding delivery_vector_valid(1) lookup_addressed(2) [OF fields(1,2)] by blast
  then have "(accepted, cpus') = (False, cpus)"
    using del unfolding ia64_sapic_deliver_def by (auto split: option.splits)
  with False show ?thesis by simp
next
  case True
  then obtain i where a: "addressed cpus sid eid i" by blast
  then have look: "ia64_cpu_by_sapic_id sid eid cpus = Some i" and i: "i < length cpus"
    using lookup_addressed(1) [OF fields(1,2)] by (simp_all add: addressed_def)
  obtain r w where dv: "sapic_delivery_vector d redirect v = Some (r, w)"
    using True delivery_vector_valid(1) [of d redirect v] by fastforce
  let ?h = "(redirect \<or> d = IA64_SAPIC_DELIVERY_INT_REDIRECT) \<and> d \<noteq> IA64_SAPIC_DELIVERY_NMI \<and> d \<noteq> IA64_SAPIC_DELIVERY_EXTINT"
  define t where "t = (if ?h then sapic_redirect_target i cpus else i)"
  have t: "t < length cpus" using i redirect_target_cases(1) [OF i] by (simp add: t_def)
  have "accepted" "cpus' = sapic_deliver_to t d w cpus"
    using del delivery_vector_valid(2) [OF dv] by (auto simp: ia64_sapic_deliver_def dv look t_def split: if_splits)
  moreover have "if ?h then redirected cpus i t else t = i" using target_redirected [OF i n] by (simp add: t_def)
  moreover have "received d v (cpus ! t) (sapic_deliver_to t d w cpus ! t)"
    using True fields(3) t dv by (intro deliver_to_received) simp_all
  moreover have "length (sapic_deliver_to t d w cpus) = length cpus"
    "\<forall>j<length cpus. j \<noteq> t \<longrightarrow> sapic_deliver_to t d w cpus ! j = cpus ! j" by (simp_all add: sapic_deliver_to_def)
  ultimately show ?thesis using True a t by blast
qed

text \<open>Processor 1 has the lower external task priority and takes the message sent to processor 0.\<close>

definition redirect_pair :: "env list" where
  "redirect_pair =
     (let e = env_zero False (\<lambda>_. 0)
      in [e\<lparr>intr := (intr e)\<lparr>sapic_xtp := 5\<rparr>\<rparr>, e\<lparr>intr := (intr e)\<lparr>sapic_xtp := 3\<rparr>\<rparr>])"

theorem deliver_routed_witness:
  "48 \<in> vectors_in (sapic_irr (intr (snd (ia64_sapic_deliver IA64_SAPIC_DESTINATION_PHYSICAL 0 0 True
     IA64_SAPIC_DELIVERY_INT 48 redirect_pair) ! 1)))"
proof -
  let ?r = "ia64_sapic_deliver IA64_SAPIC_DESTINATION_PHYSICAL 0 0 True IA64_SAPIC_DELIVERY_INT 48 redirect_pair"
  have len: "length redirect_pair = 2" by (simp add: redirect_pair_def Let_def)
  have two: "j < 2 \<longleftrightarrow> j = 0 \<or> j = 1" for j :: nat by auto
  have a: "addressed redirect_pair 0 0 i \<longleftrightarrow> i = 0" for i
    unfolding addressed_def len two
    by (auto simp: lid_id_def lid_eid_def redirect_pair_def Let_def env_zero_def)
  have e: "takes_redirected redirect_pair 0 j \<longleftrightarrow> j = 0 \<or> j = 1" for j
    unfolding takes_redirected_def len two
    by (auto simp: lid_eid_def redirect_pair_def Let_def env_zero_def bit_iff_odd)
  have p: "task_priority (redirect_pair ! 0) = 5" "task_priority (redirect_pair ! 1) = 3"
    by (simp_all add: task_priority_def redirect_pair_def Let_def)
  have t: "t = 1" if r: "redirected redirect_pair 0 t" for t
  proof -
    have "\<exists>j :: nat. j = 0 \<or> j = 1" by blast
    with r have t01: "t = 0 \<or> t = 1" and
      m: "\<forall>j. (j = 0 \<or> j = 1) \<and> j \<noteq> t \<longrightarrow> task_priority (redirect_pair ! t) < task_priority (redirect_pair ! j) \<or>
        task_priority (redirect_pair ! t) = task_priority (redirect_pair ! j) \<and> walk redirect_pair 0 t < walk redirect_pair 0 j"
      unfolding redirected_def e by blast+
    show ?thesis using t01 m [rule_format, of 1] p by (elim disjE) simp_all
  qed
  have "?r = (fst ?r, snd ?r)" by (rule surjective_pairing)
  note d = deliver_routed [OF this]
  have acc: "fst ?r" using d [THEN conjunct1] a by (simp add: len)
  obtain t where r: "redirected redirect_pair 0 t"
    and v: "received IA64_SAPIC_DELIVERY_INT 48 (redirect_pair ! t) (snd ?r ! t)"
    using d [THEN conjunct2, THEN conjunct2, rule_format, OF _ _ _ _ acc] unfolding a len
    by (simp only: simp_thms if_True sapic_delivery_mode.distinct) auto
  show ?thesis using v unfolding t [OF r] by (simp only: received.simps insertI1)
qed

end
