(* ===== verification/Itc.thy ===== *)
theory Itc
  imports Sapic
begin

text \<open>
  The interval time counter and the interval timer of \<^verbatim>\<open>target/ia64/arch/interrupt.c\<close>: conversion of
  virtual nanoseconds to ticks, the debt of synthetic ticks, the match of \<^verbatim>\<open>CR.ITM\<close> and the host timer
  deadline.  The virtual clock reading is an argument of the operations that sample it, and the
  frequency of the CPU model is the parameter \<open>hz\<close>.
\<close>

section \<open>Definitions\<close>

abbreviation (input) NANOSECONDS_PER_SECOND :: u64 where "NANOSECONDS_PER_SECOND \<equiv> 1000000000"
abbreviation (input) IA64_CR_ITM :: nat where "IA64_CR_ITM \<equiv> 1"
abbreviation (input) IA64_AR_ITC :: nat where "IA64_AR_ITC \<equiv> 44"

definition ia64_itc_ticks_for_ns :: "u64 \<Rightarrow> u32 \<Rightarrow> u32 \<Rightarrow> u64 \<times> u32" where
  "ia64_itc_ticks_for_ns elapsed_ns frequency_hz initial_fraction =
     (if elapsed_ns < NANOSECONDS_PER_SECOND then
        let fraction = elapsed_ns * ucast frequency_hz + ucast initial_fraction
        in (fraction div NANOSECONDS_PER_SECOND, ucast (fraction mod NANOSECONDS_PER_SECOND))
      else
        let seconds = elapsed_ns div NANOSECONDS_PER_SECOND;
            nanoseconds = elapsed_ns mod NANOSECONDS_PER_SECOND;
            fraction = nanoseconds * ucast frequency_hz + ucast initial_fraction;
            ticks = seconds * ucast frequency_hz
        in (ticks + fraction div NANOSECONDS_PER_SECOND, ucast (fraction mod NANOSECONDS_PER_SECOND)))"

text \<open>\<^verbatim>\<open>muldiv64\<close> of \<^verbatim>\<open>qemu/host-utils.h\<close>: a 128 bit product, truncated after the division.\<close>

definition muldiv64 :: "u64 \<Rightarrow> u32 \<Rightarrow> u32 \<Rightarrow> u64" where
  "muldiv64 a b c = of_nat (unat a * unat b div unat c)"

abbreviation (input) INT64_MAX :: u64 where "INT64_MAX \<equiv> 0x7FFFFFFFFFFFFFFF"

definition ia64_itc_delay_ns :: "u32 \<Rightarrow> u64 \<Rightarrow> env \<Rightarrow> u64" where
  "ia64_itc_delay_ns hz delta_ticks e =
     (if delta_ticks > - 1 - itc_tick_debt (intr e) then INT64_MAX
      else
        let required_ticks = delta_ticks + itc_tick_debt (intr e);
            maximum_ticks = fst (ia64_itc_ticks_for_ns INT64_MAX hz (itc_fraction (intr e)))
        in if required_ticks > maximum_ticks then INT64_MAX
           else
             let delay_ns = muldiv64 required_ticks 1000000000 hz
             in if fst (ia64_itc_ticks_for_ns delay_ns hz (itc_fraction (intr e))) < required_ticks
                then delay_ns + 1 else delay_ns)"

definition ia64_itc_sync :: "u32 \<Rightarrow> int \<Rightarrow> env \<Rightarrow> env" where
  "ia64_itc_sync hz now e =
     (let elapsed = now - itc_last_ns (intr e) in
      if elapsed > 0 then
        let (ticks, fraction) = ia64_itc_ticks_for_ns (word_of_int elapsed) hz (itc_fraction (intr e));
            e1 = e\<lparr>intr := (intr e)\<lparr>itc_fraction := fraction, itc_last_ns := now\<rparr>\<rparr>
        in if ticks \<le> itc_tick_debt (intr e1)
           then e1\<lparr>intr := (intr e1)\<lparr>itc_tick_debt := itc_tick_debt (intr e1) - ticks\<rparr>\<rparr>
           else e1\<lparr>intr := (intr e1)\<lparr>itc_tick_debt := 0\<rparr>,
                   ar := (ar e1)(IA64_AR_ITC := ar e1 IA64_AR_ITC + (ticks - itc_tick_debt (intr e1)))\<rparr>
      else e)"

definition ia64_itv_vector :: "env \<Rightarrow> nat option" where
  "ia64_itv_vector e =
     (let vector = unat (cr e IA64_CR_ITV AND 0xFF)
      in if ia64_external_interrupt_vector_valid vector then Some vector else None)"

definition ia64_itv_masked :: "env \<Rightarrow> bool" where
  "ia64_itv_masked e \<longleftrightarrow> cr e IA64_CR_ITV AND 0x10000 \<noteq> 0"

definition ia64_itm_interrupt_active :: "env \<Rightarrow> bool" where
  "ia64_itm_interrupt_active e \<longleftrightarrow>
     (case ia64_itv_vector e of None \<Rightarrow> False | Some vector \<Rightarrow> sapic_vector_active (sapic_isr (intr e)) vector)"

definition ia64_itc_advance_pending_itm :: "u32 \<Rightarrow> int \<Rightarrow> env \<Rightarrow> env" where
  "ia64_itc_advance_pending_itm hz now e0 =
     (let e = ia64_itc_sync hz now e0 in
      if \<not> itm_armed (intr e) \<and> itm_last_match_valid (intr e) \<and> ia64_itm_interrupt_active e \<and>
         sint (ar e IA64_AR_ITC - (itm_last_match (intr e) + 1)) < 0
      then
        let ticks = itm_last_match (intr e) + 1 - ar e IA64_AR_ITC
        in e\<lparr>ar := (ar e)(IA64_AR_ITC := ar e IA64_AR_ITC + ticks),
             intr := (intr e)\<lparr>itc_tick_debt :=
               (if ticks > - 1 - itc_tick_debt (intr e) then - 1 else itc_tick_debt (intr e) + ticks)\<rparr>\<rparr>
      else e)"

definition ia64_itc_read :: "u32 \<Rightarrow> int \<Rightarrow> env \<Rightarrow> u64 \<times> env" where
  "ia64_itc_read hz now e =
     (let e1 = ia64_itc_advance_pending_itm hz now e in (ar e1 IA64_AR_ITC, e1))"

definition ia64_itc_write :: "int \<Rightarrow> u64 \<Rightarrow> env \<Rightarrow> env" where
  "ia64_itc_write now value e =
     e\<lparr>ar := (ar e)(IA64_AR_ITC := value),
       intr := (intr e)\<lparr>itc_last_ns := now, itc_fraction := 0, itc_tick_debt := 0, itm_last_match_valid := False\<rparr>\<rparr>"

definition ia64_itm_raise :: "u64 \<Rightarrow> env \<Rightarrow> env" where
  "ia64_itm_raise itm_value e =
     (case ia64_itv_vector e of
        None \<Rightarrow> e
      | Some vector \<Rightarrow>
          if itm_last_match_valid (intr e) \<and> itm_last_match (intr e) = itm_value
          then ia64_sapic_update_interrupt e
          else ia64_sapic_set_irq_work vector
                 (e\<lparr>intr := (intr e)\<lparr>itm_last_match := itm_value, itm_last_match_valid := True\<rparr>\<rparr>))"

definition ia64_itm_update_pending :: "u64 \<Rightarrow> u64 \<Rightarrow> bool \<Rightarrow> env \<Rightarrow> bool \<times> env" where
  "ia64_itm_update_pending itc itm_value was_armed e =
     (let delta_ticks = sint (itm_value - itc) in
      if ia64_itv_vector e = None then (True, e)
      else if ia64_itv_masked e then (True, e)
      else if delta_ticks > 0 then (False, e)
      else if delta_ticks = 0 \<or> was_armed then (True, ia64_itm_raise itm_value e)
      else (True, e))"

definition ia64_itm_update :: "u32 \<Rightarrow> int \<Rightarrow> u64 \<Rightarrow> env \<Rightarrow> env" where
  "ia64_itm_update hz now itm_value e =
     (let was_armed = (itm_armed (intr e) \<and> itm_armed_value (intr e) = itm_value);
          e1 = ia64_itc_advance_pending_itm hz now e;
          itc = ar e1 IA64_AR_ITC;
          delta_ticks = itm_value - itc;
          (pending, e2) = ia64_itm_update_pending itc itm_value was_armed e1
      in if pending then
           ia64_itc_advance_pending_itm hz now
             (e2\<lparr>intr := (intr e2)\<lparr>itm_timer := None, itm_armed := False\<rparr>\<rparr>)
         else
           let delay_ns = ia64_itc_delay_ns hz delta_ticks e2;
               deadline_ns =
                 (if delay_ns = INT64_MAX \<or> itc_last_ns (intr e2) > 2 ^ 63 - 1 - sint delay_ns
                  then 2 ^ 63 - 1 else itc_last_ns (intr e2) + sint delay_ns)
           in e2\<lparr>intr := (intr e2)\<lparr>itm_armed := True, itm_armed_value := itm_value,
                                  itm_timer := Some deadline_ns\<rparr>\<rparr>)"

definition ia64_itm_timer_work :: "u32 \<Rightarrow> int \<Rightarrow> env \<Rightarrow> env" where
  "ia64_itm_timer_work hz now e =
     (if \<not> itm_armed (intr e) then e
      else
        let was_armed = itm_armed (intr e);
            e1 = e\<lparr>intr := (intr e)\<lparr>itm_armed := False\<rparr>\<rparr>;
            itm = cr e1 IA64_CR_ITM;
            e2 = ia64_itc_advance_pending_itm hz now e1;
            (pending, e3) = ia64_itm_update_pending (ar e2 IA64_AR_ITC) itm was_armed e2
        in if \<not> pending then ia64_itm_update hz now itm e3 else e3)"

definition ia64_itc_check_timer :: "u32 \<Rightarrow> int \<Rightarrow> env \<Rightarrow> env" where
  "ia64_itc_check_timer hz now e =
     (let e1 = ia64_itc_advance_pending_itm hz now e;
          itm = cr e1 IA64_CR_ITM;
          was_armed = (itm_armed (intr e1) \<and> itm_armed_value (intr e1) = itm);
          e2 = (if was_armed \<and> sint (itm - ar e1 IA64_AR_ITC) \<le> 0
                then e1\<lparr>intr := (intr e1)\<lparr>itm_armed := False\<rparr>\<rparr> else e1);
          (_, e3) = ia64_itm_update_pending (ar e2 IA64_AR_ITC) itm was_armed e2
      in ia64_itc_advance_pending_itm hz now e3)"

definition ia64_itc_enter_halt :: "u32 \<Rightarrow> int \<Rightarrow> env \<Rightarrow> env" where
  "ia64_itc_enter_halt hz now e =
     (let e1 = ia64_itc_advance_pending_itm hz now e in ia64_itm_update hz now (cr e1 IA64_CR_ITM) e1)"

section \<open>The oscillator\<close>

lemma unat_ucast_32_64: "unat (ucast (w :: u32) :: u64) = unat w"
proof -
  have "unat w < 2 ^ 32" using unsigned_less [of w, where ?'a = nat] by simp
  then have "unat w < 2 ^ 64" by simp
  then show ?thesis by (simp add: unsigned_ucast_eq take_bit_nat_eq_self)
qed

lemma unat_fraction:
  fixes n :: u64 and hz q :: u32
  assumes f: "unat hz \<le> 1600000000" and r: "unat q < 1000000000" and n: "unat n < 1000000000"
  shows "unat (n * ucast hz + ucast q) = unat n * unat hz + unat q"
proof -
  have u: "unat (ucast hz :: u64) = unat hz" "unat (ucast q :: u64) = unat q" by (simp_all add: unat_ucast_32_64)
  have "unat n * unat hz \<le> 1000000000 * 1600000000" by (rule mult_le_mono) (use n f in auto)
  then have b: "unat n * unat hz + unat q < 2 ^ 64" using r by simp
  then have m: "unat n * unat hz < 2 ^ 64" by simp
  have "unat (n * ucast hz) = unat n * unat hz" using m by (simp add: unat_word_ariths u)
  with b show ?thesis by (simp add: unat_word_ariths u)
qed

lemma unat_ticks:
  fixes t :: u64 and hz q :: u32
  assumes f: "unat hz \<le> 1600000000" and r: "unat q < 1000000000" and t: "unat t < 2 ^ 63 + 2 ^ 31"
  shows "unat (fst (ia64_itc_ticks_for_ns t hz q)) = (unat t * unat hz + unat q) div 1000000000"
    and "unat (snd (ia64_itc_ticks_for_ns t hz q)) = (unat t * unat hz + unat q) mod 1000000000"
proof -
  let ?G = "1000000000 :: u64" and ?g = "1000000000 :: nat"
  have low: "unat (ucast (x mod ?G) :: u32) = unat x mod ?g" for x :: u64
  proof -
    have "unat (x mod ?G) = unat x mod ?g" by (simp add: unat_mod)
    moreover have "unat x mod ?g < 2 ^ 32" by (rule less_trans [OF mod_less_divisor]) simp_all
    ultimately show ?thesis by (simp add: unsigned_ucast_eq take_bit_nat_eq_self)
  qed
  have "unat (fst (ia64_itc_ticks_for_ns t hz q)) = (unat t * unat hz + unat q) div ?g \<and>
    unat (snd (ia64_itc_ticks_for_ns t hz q)) = (unat t * unat hz + unat q) mod ?g"
  proof (cases "t < ?G")
    case True
    then have "unat t < ?g" by (simp add: word_less_nat_alt)
    from unat_fraction [OF f r this] True show ?thesis
      by (simp add: ia64_itc_ticks_for_ns_def Let_def unat_div low)
  next
    case False
    let ?s = "t div ?G" and ?n = "t mod ?G"
    have s: "unat ?s = unat t div ?g" and n: "unat ?n = unat t mod ?g" by (simp_all add: unat_div unat_mod)
    have "unat ?n < ?g" using n by simp
    note fr = unat_fraction [OF f r this]
    have ts: "unat t = unat ?s * ?g + unat ?n" unfolding s n by (rule div_mult_mod_eq [symmetric])
    have split: "unat t * unat hz + unat q = unat ?s * unat hz * ?g + (unat ?n * unat hz + unat q)"
      by (subst ts) (simp only: add_mult_distrib add_mult_distrib2 ac_simps)
    have hz: "unat (ucast hz :: u64) = unat hz" by (simp add: unat_ucast_32_64)
    have bound: "(unat t * unat hz + unat q) div ?g < 2 ^ 64"
    proof -
      have "unat t * unat hz \<le> (2 ^ 63 + 2 ^ 31) * 1600000000" by (rule mult_le_mono) (use t f in auto)
      then have "unat t * unat hz + unat q < 2 ^ 64 * ?g" using r by simp
      then show ?thesis by (simp add: div_less_iff_less_mult)
    qed
    have d: "(unat t * unat hz + unat q) div ?g = unat ?s * unat hz + (unat ?n * unat hz + unat q) div ?g"
      unfolding split by simp
    have m1: "unat (?s * ucast hz) = unat ?s * unat hz"
      using bound d by (simp add: unat_word_ariths hz)
    have dd: "unat ((?n * ucast hz + ucast q) div ?G) = (unat ?n * unat hz + unat q) div ?g"
      by (simp only: unat_div fr) simp
    have "unat (?s * ucast hz + (?n * ucast hz + ucast q) div ?G) = unat ?s * unat hz + (unat ?n * unat hz + unat q) div ?g"
      using bound d by (simp only: unat_word_ariths(1) m1 dd) simp
    moreover have "unat (ucast ((?n * ucast hz + ucast q) mod ?G) :: u32) = (unat t * unat hz + unat q) mod ?g"
      unfolding low fr split by simp
    ultimately show ?thesis using False d by (simp add: ia64_itc_ticks_for_ns_def Let_def)
  qed
  then show "unat (fst (ia64_itc_ticks_for_ns t hz q)) = (unat t * unat hz + unat q) div ?g"
    and "unat (snd (ia64_itc_ticks_for_ns t hz q)) = (unat t * unat hz + unat q) mod ?g" by blast+
qed


lemma ticks_fraction_less:
  fixes t :: u64 and hz q :: u32
  assumes "unat hz \<le> 1600000000" and "unat q < 1000000000" and "unat t < 2 ^ 63 + 2 ^ 31"
  shows "unat (snd (ia64_itc_ticks_for_ns t hz q)) < 1000000000"
  by (simp add: unat_ticks(2) [OF assms])

text \<open>
  C28: Converting virtual time to ticks loses nothing between synchronisations: two consecutive
  intervals give together the ticks and the remaining fraction of the whole interval.
\<close>

theorem ticks_for_ns_additive:
  fixes t1 t2 :: u64 and hz q :: u32
  assumes f: "unat hz \<le> 1600000000" and r: "unat q < 1000000000" and t: "unat t1 + unat t2 < 2 ^ 63"
    and one: "ia64_itc_ticks_for_ns t1 hz q = (a, q1)" and two: "ia64_itc_ticks_for_ns t2 hz q1 = (b, q2)"
  shows "unat a + unat b = unat (fst (ia64_itc_ticks_for_ns (t1 + t2) hz q)) \<and>
    q2 = snd (ia64_itc_ticks_for_ns (t1 + t2) hz q)"
proof -
  let ?g = "1000000000 :: nat"
  have s: "unat (t1 + t2) = unat t1 + unat t2" using t by (simp add: unat_word_ariths)
  have u: "unat a = (unat t1 * unat hz + unat q) div ?g" "unat q1 = (unat t1 * unat hz + unat q) mod ?g"
    using unat_ticks [OF f r, of t1] t one by simp_all
  have r1: "unat q1 < ?g" unfolding u(2) by simp
  have v: "unat b = (unat t2 * unat hz + unat q1) div ?g" "unat q2 = (unat t2 * unat hz + unat q1) mod ?g"
    using unat_ticks [OF f r1, of t2] t two by simp_all
  have w: "unat (fst (ia64_itc_ticks_for_ns (t1 + t2) hz q)) = (unat (t1 + t2) * unat hz + unat q) div ?g"
    "unat (snd (ia64_itc_ticks_for_ns (t1 + t2) hz q)) = (unat (t1 + t2) * unat hz + unat q) mod ?g"
    using unat_ticks [OF f r, of "t1 + t2"] t s by simp_all
  define x y where "x = unat t1 * unat hz + unat q" and "y = unat t2 * unat hz"
  have xy: "unat (t1 + t2) * unat hz + unat q = x + y" unfolding s x_def y_def by (simp add: add_mult_distrib)
  have "x + y = x div ?g * ?g + (y + x mod ?g)" by simp
  then have "(x + y) div ?g = x div ?g + (y + x mod ?g) div ?g" "(x + y) mod ?g = (y + x mod ?g) mod ?g"
    by (metis div_mult_self3 add.commute zero_neq_numeral, simp add: mod_simps add.commute)
  then show ?thesis using u v w unfolding xy x_def [symmetric] y_def [symmetric] by (simp add: word_unat_eq_iff)
qed

theorem ticks_for_ns_additive_witness:
  "unat (fst (ia64_itc_ticks_for_ns 3 400000000 0)) +
     unat (fst (ia64_itc_ticks_for_ns 2000000002 400000000 (snd (ia64_itc_ticks_for_ns 3 400000000 0)))) =
   unat (fst (ia64_itc_ticks_for_ns 2000000005 400000000 0))"
  using ticks_for_ns_additive [OF _ _ _ prod.collapse [symmetric] prod.collapse [symmetric], of 400000000 0 3 2000000002]
  by simp

section \<open>Reading the counter\<close>

text \<open>The counter that the oscillator alone would show: the synthetic ticks are taken back.\<close>

definition itc_oscillator :: "env \<Rightarrow> u64" where
  "itc_oscillator e = ar e IA64_AR_ITC - itc_tick_debt (intr e)"

definition itc_ok :: "u32 \<Rightarrow> env \<Rightarrow> bool" where
  "itc_ok hz e \<longleftrightarrow> 0 < unat hz \<and> unat hz \<le> 1600000000 \<and> unat (itc_fraction (intr e)) < 1000000000 \<and>
     unat (itc_tick_debt (intr e)) < 2 ^ 63"

lemma itc_sync:
  assumes ok: "itc_ok hz e" and now: "itc_last_ns (intr e) \<le> now" "now - itc_last_ns (intr e) < 2 ^ 63"
  defines "n \<equiv> nat (now - itc_last_ns (intr e)) * unat hz + unat (itc_fraction (intr e))"
  defines "e' \<equiv> ia64_itc_sync hz now e"
  shows "itc_oscillator e' = itc_oscillator e + of_nat (n div 1000000000)"
    and "unat (itc_fraction (intr e')) = n mod 1000000000" and "itc_last_ns (intr e') = now"
    and "itc_tick_debt (intr e') \<le> itc_tick_debt (intr e)" and "cr e' = cr e"
    and "unat (itc_tick_debt (intr e)) \<le> n div 1000000000 \<Longrightarrow>
      itc_tick_debt (intr e') = 0 \<and> ar e' IA64_AR_ITC = ar e IA64_AR_ITC + of_nat (n div 1000000000) - itc_tick_debt (intr e)"
    and "intr e' = (intr e)\<lparr>itc_fraction := itc_fraction (intr e'), itc_last_ns := itc_last_ns (intr e'),
      itc_tick_debt := itc_tick_debt (intr e')\<rparr>"
proof -
  let ?el = "now - itc_last_ns (intr e)" and ?d = "itc_tick_debt (intr e)"
  note okD = ok [unfolded itc_ok_def]
  have all: "itc_oscillator e' = itc_oscillator e + of_nat (n div 1000000000) \<and>
    unat (itc_fraction (intr e')) = n mod 1000000000 \<and> itc_last_ns (intr e') = now \<and>
    itc_tick_debt (intr e') \<le> ?d \<and> cr e' = cr e \<and>
    (unat ?d \<le> n div 1000000000 \<longrightarrow>
      itc_tick_debt (intr e') = 0 \<and> ar e' IA64_AR_ITC = ar e IA64_AR_ITC + of_nat (n div 1000000000) - ?d) \<and>
    intr e' = (intr e)\<lparr>itc_fraction := itc_fraction (intr e'), itc_last_ns := itc_last_ns (intr e'),
      itc_tick_debt := itc_tick_debt (intr e')\<rparr>"
  proof (cases "?el > 0")
    case False
    then have "?el = 0" using now by simp
    moreover from this have "e' = e" by (simp add: e'_def ia64_itc_sync_def)
    ultimately show ?thesis using okD now by (simp add: n_def itc_ok_def unat_eq_0)
  next
    case True
    have t: "unat (word_of_int ?el :: u64) = nat ?el"
    proof -
      have "uint (word_of_int ?el :: u64) = ?el"
        using now True by (subst uint_word_of_int_eq) (rule take_bit_int_eq_self, simp_all)
      then show ?thesis by (simp only: unat_eq_nat_uint)
    qed
    have tl: "unat (word_of_int ?el :: u64) < 2 ^ 63 + 2 ^ 31" unfolding t using now(2) by simp
    obtain ticks q where tq: "ia64_itc_ticks_for_ns (word_of_int ?el) hz (itc_fraction (intr e)) = (ticks, q)" by fastforce
    have u: "unat ticks = n div 1000000000" "unat q = n mod 1000000000"
      using unat_ticks [OF conjunct1 [OF conjunct2 [OF okD]] conjunct1 [OF conjunct2 [OF conjunct2 [OF okD]]] tl] tq t
      by (simp_all add: n_def)
    have tw: "of_nat (n div 1000000000) = ticks" unfolding u(1) [symmetric] by simp
    show ?thesis
    proof (cases "ticks \<le> ?d")
      case le: True
      then have "e' = e\<lparr>intr := (intr e)\<lparr>itc_fraction := q, itc_last_ns := now, itc_tick_debt := ?d - ticks\<rparr>\<rparr>"
        using True tq by (simp add: e'_def ia64_itc_sync_def Let_def)
      moreover have "?d - ticks \<le> ?d" using le by (simp add: word_le_nat_alt unat_sub)
      moreover have "ticks = ?d" if "unat ?d \<le> n div 1000000000"
        using le that u(1) by (simp add: word_le_nat_alt word_unat_eq_iff)
      ultimately show ?thesis using u(2) tw by (simp add: itc_oscillator_def)
    next
      case False
      then have "e' = e\<lparr>intr := (intr e)\<lparr>itc_fraction := q, itc_last_ns := now, itc_tick_debt := 0\<rparr>,
          ar := (ar e)(IA64_AR_ITC := ar e IA64_AR_ITC + (ticks - ?d))\<rparr>"
        using True tq by (simp add: e'_def ia64_itc_sync_def Let_def)
      then show ?thesis using u(2) tw by (simp add: itc_oscillator_def)
    qed
  qed
  then show "itc_oscillator e' = itc_oscillator e + of_nat (n div 1000000000)"
    and "unat (itc_fraction (intr e')) = n mod 1000000000" and "itc_last_ns (intr e') = now"
    and "itc_tick_debt (intr e') \<le> itc_tick_debt (intr e)" and "cr e' = cr e"
    and "unat (itc_tick_debt (intr e)) \<le> n div 1000000000 \<Longrightarrow>
      itc_tick_debt (intr e') = 0 \<and> ar e' IA64_AR_ITC = ar e IA64_AR_ITC + of_nat (n div 1000000000) - itc_tick_debt (intr e)"
    and "intr e' = (intr e)\<lparr>itc_fraction := itc_fraction (intr e'), itc_last_ns := itc_last_ns (intr e'),
      itc_tick_debt := itc_tick_debt (intr e')\<rparr>" by blast+
qed


lemma sint_uint_63: "sint (x :: u64) = uint x" if "uint x < 2 ^ 63"
  unfolding sint_uint
  by (rule signed_take_bit_int_eq_self, rule order_trans [OF _ uint_ge_0]) (use that in simp_all)

lemma uint_minus_1_minus: "uint (- 1 - d :: u64) = 2 ^ 64 - 1 - uint d"
proof -
  have "uint d < 2 ^ 64" using uint_lt2p [of d] by simp
  moreover have "uint (- 1 :: u64) = 2 ^ 64 - 1" by (simp add: unsigned_minus_1_eq_mask mask_eq_exp_minus_1)
  moreover have "uint (- 1 - d) = uint (- 1 :: u64) - uint d"
    by (rule uint_minus_simple_alt [THEN iffD1]) simp
  ultimately show ?thesis by simp
qed

lemma itc_synthetic_ticks:
  fixes a m d :: u64
  assumes neg: "sint (a - m) < 0" and d: "unat d < 2 ^ 63"
  shows "\<not> m - a > - 1 - d"
proof -
  have "m - a = - (a - m)" by simp
  define x where "x = a - m"
  have sx: "sint x < 0" using neg by (simp add: x_def)
  have ux: "2 ^ 63 \<le> uint x"
  proof (rule ccontr)
    assume "\<not> 2 ^ 63 \<le> uint x"
    then have "sint x = uint x" by (intro sint_uint_63) simp
    with sx show False by simp
  qed
  have x64: "uint x < 2 ^ 64" using uint_lt2p [of x] by simp
  have "uint (m - a) = 2 ^ 64 - uint x"
  proof -
    have "m - a = - x" by (simp add: x_def)
    moreover have "uint (- x) = (2 ^ 64 - uint x) mod 2 ^ 64"
      unfolding uint_word_ariths mod_diff_left_eq [of "2 ^ 64", symmetric] by simp
    moreover have "(2 ^ 64 - uint x) mod 2 ^ 64 = 2 ^ 64 - uint x"
      by (rule mod_pos_pos_trivial) (use ux x64 in simp_all)
    ultimately show ?thesis by simp
  qed
  then have "uint (m - a) \<le> 2 ^ 63" using ux by simp
  moreover have "uint (- 1 - d) = 2 ^ 64 - 1 - uint d" by (rule uint_minus_1_minus)
  moreover have "uint d < 2 ^ 63" using d of_nat_less_iff [of "unat d" "2 ^ 63", where 'a = int] by simp
  ultimately have "uint (m - a) \<le> uint (- 1 - d)" by (elim ssubst) simp
  then show ?thesis unfolding word_less_def by linarith
qed

lemma itm_active_cong:
  "sapic_isr (intr e) = sapic_isr (intr f) \<Longrightarrow> cr e = cr f \<Longrightarrow> ia64_itm_interrupt_active e = ia64_itm_interrupt_active f"
  by (simp add: ia64_itm_interrupt_active_def ia64_itv_vector_def split: option.split)

lemma itc_advance:
  assumes ok: "itc_ok hz e" and now: "itc_last_ns (intr e) \<le> now" "now - itc_last_ns (intr e) < 2 ^ 63"
  defines "e1 \<equiv> ia64_itc_sync hz now e" and "e' \<equiv> ia64_itc_advance_pending_itm hz now e"
  shows "itc_oscillator e' = itc_oscillator e1" and "itc_fraction (intr e') = itc_fraction (intr e1)"
    and "itc_last_ns (intr e') = itc_last_ns (intr e1)" and "cr e' = cr e"
    and "\<not> ia64_itm_interrupt_active e \<Longrightarrow> e' = e1"
proof -
  have act: "ia64_itm_interrupt_active e1 = ia64_itm_interrupt_active e"
  proof (rule itm_active_cong)
    show "sapic_isr (intr e1) = sapic_isr (intr e)"
      unfolding e1_def by (subst itc_sync(7) [OF ok now]) simp
    show "cr e1 = cr e" unfolding e1_def by (rule itc_sync(5) [OF ok now])
  qed
  have "unat (itc_tick_debt (intr e1)) \<le> unat (itc_tick_debt (intr e))"
    using itc_sync(4) [OF ok now] by (simp add: e1_def word_le_nat_alt)
  then have d: "unat (itc_tick_debt (intr e1)) < 2 ^ 63" using ok by (simp add: itc_ok_def)
  have cr1: "cr e1 = cr e" unfolding e1_def by (rule itc_sync(5) [OF ok now])
  have "itc_oscillator e' = itc_oscillator e1 \<and> itc_fraction (intr e') = itc_fraction (intr e1) \<and>
    itc_last_ns (intr e') = itc_last_ns (intr e1) \<and> cr e' = cr e \<and> (\<not> ia64_itm_interrupt_active e \<longrightarrow> e' = e1)"
  proof (cases "\<not> itm_armed (intr e1) \<and> itm_last_match_valid (intr e1) \<and> ia64_itm_interrupt_active e1 \<and>
         sint (ar e1 IA64_AR_ITC - (itm_last_match (intr e1) + 1)) < 0")
    case False
    then have "e' = e1" unfolding e'_def e1_def ia64_itc_advance_pending_itm_def Let_def by (rule if_not_P)
    with cr1 show ?thesis by simp
  next
    case True
    let ?t = "itm_last_match (intr e1) + 1 - ar e1 IA64_AR_ITC"
    have ns: "\<not> ?t > - 1 - itc_tick_debt (intr e1)" using itc_synthetic_ticks True d by blast
    have "e' = e1\<lparr>ar := (ar e1)(IA64_AR_ITC := ar e1 IA64_AR_ITC + ?t),
        intr := (intr e1)\<lparr>itc_tick_debt := itc_tick_debt (intr e1) + ?t\<rparr>\<rparr>"
      using True ns unfolding e'_def e1_def ia64_itc_advance_pending_itm_def Let_def
      by (simp only: if_True if_False simp_thms)
    with True act cr1 show ?thesis by (simp add: itc_oscillator_def)
  qed
  then show "itc_oscillator e' = itc_oscillator e1" and "itc_fraction (intr e') = itc_fraction (intr e1)"
    and "itc_last_ns (intr e') = itc_last_ns (intr e1)" and "cr e' = cr e"
    and "\<not> ia64_itm_interrupt_active e \<Longrightarrow> e' = e1" by blast+
qed

text \<open>
  C27: Reading \<^verbatim>\<open>AR.ITC\<close> never makes the model clock run fast or slow: after every read, the counter
  less the recorded debt has advanced by exactly the ticks of the elapsed virtual time, whether or
  not the read exposed a synthetic tick past a matched deadline.
\<close>

theorem itc_read_oscillator:
  assumes ok: "itc_ok hz e" and now: "itc_last_ns (intr e) \<le> now" "now - itc_last_ns (intr e) < 2 ^ 63"
    and read: "ia64_itc_read hz now e = (v, e')"
  defines "n \<equiv> nat (now - itc_last_ns (intr e)) * unat hz + unat (itc_fraction (intr e))"
  shows "v = ar e' IA64_AR_ITC \<and> itc_oscillator e' = itc_oscillator e + of_nat (n div 1000000000) \<and>
    unat (itc_fraction (intr e')) = n mod 1000000000 \<and> itc_last_ns (intr e') = now"
proof -
  have e': "v = ar e' IA64_AR_ITC" "e' = ia64_itc_advance_pending_itm hz now e"
    using read by (auto simp: ia64_itc_read_def Let_def)
  show ?thesis
    using e'(1) itc_advance(1-3) [OF ok now] itc_sync(1-3) [OF ok now] unfolding e'(2) n_def by simp
qed

theorem itc_read_oscillator_witness:
  "itc_oscillator (snd (ia64_itc_read 400000000 1000 (env_zero False (\<lambda>_. 0)))) = 400"
proof -
  have "itc_ok 400000000 (env_zero False (\<lambda>_. 0))"
    by (simp add: itc_ok_def env_zero_def interrupt_state_zero_def)
  from itc_read_oscillator [OF this _ _ prod.collapse [symmetric], of 1000] show ?thesis
    by (simp add: env_zero_def interrupt_state_zero_def itc_oscillator_def)
qed

section \<open>The timer\<close>

lemma quotient_bound:
  fixes D M h q g :: nat
  assumes "D * h \<le> M * h + q" "q < g" "0 < h"
  shows "D < M + g"
proof (rule ccontr)
  assume "\<not> D < M + g"
  then have "(M + g) * h \<le> D * h" by (intro mult_le_mono1) simp
  moreover have "g \<le> g * h" using assms(3) by simp
  ultimately show False using assms by (simp add: add_mult_distrib)
qed

lemma delay_ticks:
  fixes e :: env
  assumes hz: "0 < unat hz" "unat hz \<le> 1600000000" and q: "unat (itc_fraction (intr e)) < 1000000000"
    and delay: "ia64_itc_delay_ns hz delta e \<noteq> INT64_MAX"
  defines "R \<equiv> unat delta + unat (itc_tick_debt (intr e))"
  shows "R * 1000000000 \<le> unat (ia64_itc_delay_ns hz delta e) * unat hz + unat (itc_fraction (intr e))"
    and "R = unat (delta + itc_tick_debt (intr e))"
proof -
  let ?d = "itc_tick_debt (intr e)" and ?q = "itc_fraction (intr e)" and ?g = "1000000000 :: nat"
  let ?r = "delta + ?d"
  have fits: "\<not> delta > - 1 - ?d" using delay by (auto simp: ia64_itc_delay_ns_def)
  have R: "unat ?r = R"
  proof -
    have "uint (- 1 - ?d) = 2 ^ 64 - 1 - uint ?d" by (rule uint_minus_1_minus)
    then have "uint delta + uint ?d < 2 ^ 64" using fits unfolding word_less_def by linarith
    then have "uint ?r = uint delta + uint ?d" unfolding uint_word_ariths by (intro mod_pos_pos_trivial) simp_all
    then have "int (unat ?r) = int R" by (simp add: R_def)
    then show ?thesis by (simp only: of_nat_eq_iff)
  qed
  then show "R = unat (delta + ?d)" by simp
  have imax: "unat INT64_MAX = 2 ^ 63 - 1" by simp
  have max: "R \<le> ((2 ^ 63 - 1) * unat hz + unat ?q) div ?g"
  proof -
    have "\<not> ?r > fst (ia64_itc_ticks_for_ns INT64_MAX hz ?q)"
      using delay fits by (auto simp: ia64_itc_delay_ns_def Let_def)
    moreover have "unat (fst (ia64_itc_ticks_for_ns INT64_MAX hz ?q)) = (unat INT64_MAX * unat hz + unat ?q) div ?g"
      by (rule unat_ticks [OF hz(2) q]) simp
    ultimately show ?thesis using R imax by (simp add: word_less_nat_alt)
  qed
  define D where "D = R * ?g div unat hz"
  have Dhz: "D * unat hz \<le> R * ?g" "R * ?g < (D + 1) * unat hz"
    using hz(1) dividend_less_div_times [of "unat hz" "R * ?g"] by (simp_all add: D_def add.commute)
  have Dl: "D < 2 ^ 63 + ?g"
  proof -
    have "R * ?g \<le> (2 ^ 63 - 1) * unat hz + unat ?q"
      using max by (rule less_eq_div_iff_mult_less_eq [THEN iffD1, rotated]) simp
    then have "D * unat hz \<le> (2 ^ 63 - 1) * unat hz + unat ?q" by (rule le_trans [OF Dhz(1)])
    from quotient_bound [OF this q hz(1)] show ?thesis by simp
  qed
  have md: "unat (muldiv64 ?r 1000000000 hz) = D"
  proof -
    have "muldiv64 ?r 1000000000 hz = of_nat D" by (simp add: muldiv64_def R D_def)
    moreover have "D < 2 ^ 64" using Dl by simp
    ultimately show ?thesis by (simp add: unsigned_of_nat take_bit_nat_eq_self)
  qed
  have tD: "unat (fst (ia64_itc_ticks_for_ns (muldiv64 ?r 1000000000 hz) hz ?q)) = (D * unat hz + unat ?q) div ?g"
    using Dl unfolding md [symmetric] by (intro unat_ticks [OF hz(2) q]) simp
  have del: "ia64_itc_delay_ns hz delta e =
      (if fst (ia64_itc_ticks_for_ns (muldiv64 ?r 1000000000 hz) hz ?q) < ?r
       then muldiv64 ?r 1000000000 hz + 1 else muldiv64 ?r 1000000000 hz)"
    using delay fits by (auto simp: ia64_itc_delay_ns_def Let_def)
  show "R * ?g \<le> unat (ia64_itc_delay_ns hz delta e) * unat hz + unat ?q"
  proof (cases "fst (ia64_itc_ticks_for_ns (muldiv64 ?r 1000000000 hz) hz ?q) < ?r")
    case True
    have "unat (muldiv64 ?r 1000000000 hz + 1) = D + 1" using md Dl by (simp add: unat_word_ariths)
    with True Dhz(2) show ?thesis unfolding del by simp
  next
    case False
    then have "R \<le> (D * unat hz + unat ?q) div ?g" using tD R by (simp add: word_less_nat_alt)
    then have "R * ?g \<le> D * unat hz + unat ?q"
      by (rule less_eq_div_iff_mult_less_eq [THEN iffD1, rotated]) simp
    with False md show ?thesis unfolding del by simp
  qed
qed


lemma sint_minus_of_nat:
  fixes w :: u64
  assumes "w = - of_nat x" "x < 2 ^ 63"
  shows "sint w \<le> 0"
proof -
  have "sint w = signed_take_bit 63 (- int x)"
  proof -
    have "w = word_of_int (- int x)" using assms(1) by simp
    then show ?thesis by (simp only: sint_sbintrunc') simp
  qed
  also have "\<dots> = - int x"
  proof (rule signed_take_bit_int_eq_self)
    have "int x < int (2 ^ 63)" using assms(2) by (simp only: of_nat_less_iff)
    then show "- (2 ^ 63) \<le> - int x" by simp
    show "- int x < 2 ^ 63" by (rule le_less_trans [of _ 0]) simp_all
  qed
  finally show ?thesis by simp
qed

text \<open>A processor that has armed a match 400 ticks ahead on vector \<open>0xEF\<close>.\<close>

definition itc_example :: env where
  "itc_example = (env_zero False (\<lambda>_. 0))\<lparr>cr := (\<lambda>_. 0)(IA64_CR_ITM := 400, IA64_CR_ITV := 0xEF),
     intr := interrupt_state_zero\<lparr>itm_armed := True\<rparr>\<rparr>"

text \<open>At the deadline enough ticks have passed for the match and the tick debt, and fewer than half the counter.\<close>

lemma deadline_ticks:
  assumes ok: "itc_ok hz e" and delay: "ia64_itc_delay_ns hz delta e \<noteq> INT64_MAX"
    and now: "itc_last_ns (intr e) + uint (ia64_itc_delay_ns hz delta e) \<le> now" "now - itc_last_ns (intr e) < 2 ^ 62"
  defines "T \<equiv> (nat (now - itc_last_ns (intr e)) * unat hz + unat (itc_fraction (intr e))) div 1000000000"
  shows "unat delta + unat (itc_tick_debt (intr e)) \<le> T" "T < 2 ^ 63" "itc_last_ns (intr e) \<le> now"
proof -
  let ?d = "itc_tick_debt (intr e)" and ?t = "nat (now - itc_last_ns (intr e))"
  have okD: "0 < unat hz" "unat hz \<le> 1600000000" "unat (itc_fraction (intr e)) < 1000000000"
    using ok by (simp_all add: itc_ok_def)
  show nl: "itc_last_ns (intr e) \<le> now" using now(1) uint_ge_0 [of "ia64_itc_delay_ns hz delta e"] by linarith
  have "int (unat (ia64_itc_delay_ns hz delta e)) \<le> int ?t" using now(1) nl by simp
  then have "unat (ia64_itc_delay_ns hz delta e) \<le> ?t" by (simp only: of_nat_le_iff)
  then have "unat (ia64_itc_delay_ns hz delta e) * unat hz \<le> ?t * unat hz" by (rule mult_le_mono1)
  then have "(unat delta + unat ?d) * 1000000000 \<le> ?t * unat hz + unat (itc_fraction (intr e))"
    using delay_ticks(1) [OF okD delay] by linarith
  then show "unat delta + unat ?d \<le> T" unfolding T_def by (simp add: less_eq_div_iff_mult_less_eq)
  have "?t < 2 ^ 62" using now(2) nl by (simp add: nat_less_iff)
  then have "?t * unat hz \<le> 2 ^ 62 * 1600000000" using okD(2) by (intro mult_le_mono) simp_all
  then show "T < 2 ^ 63" unfolding T_def using okD(3) by (simp add: div_less_iff_less_mult)
qed

text \<open>
  C26: The host deadline computed for an armed \<^verbatim>\<open>CR.ITM\<close> match is never early: once that delay has
  elapsed, the timer callback finds the match due and makes the vector of \<^verbatim>\<open>CR.ITV\<close> pending in the
  IRR, so a programmed timer interrupt is not lost.
\<close>

theorem itm_timer_fires:
  assumes ok: "itc_ok hz e" and armed: "itm_armed (intr e)"
    and vec: "ia64_itv_vector e = Some v" "\<not> ia64_itv_masked e" "\<not> ia64_itm_interrupt_active e"
    and new: "itm_last_match_valid (intr e) \<Longrightarrow> itm_last_match (intr e) \<noteq> cr e IA64_CR_ITM"
    and delta: "delta = cr e IA64_CR_ITM - ar e IA64_AR_ITC"
    and delay: "ia64_itc_delay_ns hz delta e \<noteq> INT64_MAX"
    and now: "itc_last_ns (intr e) + uint (ia64_itc_delay_ns hz delta e) \<le> now"
      "now - itc_last_ns (intr e) < 2 ^ 62"
  shows "sapic_vector_active (sapic_irr (intr (ia64_itm_timer_work hz now e))) v"
proof -
  let ?e1 = "e\<lparr>intr := (intr e)\<lparr>itm_armed := False\<rparr>\<rparr>" and ?d = "itc_tick_debt (intr e)"
  define e2 where "e2 = ia64_itc_advance_pending_itm hz now ?e1"
  define T where "T = (nat (now - itc_last_ns (intr e)) * unat hz + unat (itc_fraction (intr e))) div 1000000000"
  note R = deadline_ticks [OF ok delay now, folded T_def]
  have ok1: "itc_ok hz ?e1" using ok by (simp add: itc_ok_def)
  have now1: "itc_last_ns (intr ?e1) \<le> now" "now - itc_last_ns (intr ?e1) < 2 ^ 63" using R(3) now(2) by simp_all
  have act1: "\<not> ia64_itm_interrupt_active ?e1"
    using vec(3) itm_active_cong [of ?e1 e] by simp
  have e2: "e2 = ia64_itc_sync hz now ?e1" unfolding e2_def by (rule itc_advance(5) [OF ok1 now1 act1])
  have itc: "ar e2 IA64_AR_ITC = ar e IA64_AR_ITC + of_nat T - ?d"
    using itc_sync(6) [OF ok1 now1] R(1) unfolding e2 T_def by simp
  have cr2: "cr e2 = cr e" unfolding e2 using itc_sync(5) [OF ok1 now1] by simp
  have i2: "itm_last_match_valid (intr e2) = itm_last_match_valid (intr e)" "itm_last_match (intr e2) = itm_last_match (intr e)"
    unfolding e2 by (subst itc_sync(7) [OF ok1 now1], simp)+
  have due: "sint (cr e IA64_CR_ITM - ar e2 IA64_AR_ITC) \<le> 0"
  proof (rule sint_minus_of_nat)
    have "(of_nat (T - (unat delta + unat ?d)) :: u64) = of_nat T - (delta + ?d)"
      using R(1) by (simp add: of_nat_diff)
    then show "cr e IA64_CR_ITM - ar e2 IA64_AR_ITC = - of_nat (T - (unat delta + unat ?d))"
      by (simp add: itc delta)
    show "T - (unat delta + unat ?d) < 2 ^ 63" using R(2) by simp
  qed
  have v2: "ia64_itv_vector e2 = Some v" "\<not> ia64_itv_masked e2"
    using vec(1,2) by (simp_all add: ia64_itv_vector_def ia64_itv_masked_def cr2)
  have "ia64_itm_update_pending (ar e2 IA64_AR_ITC) (cr e IA64_CR_ITM) True e2 = (True, ia64_itm_raise (cr e IA64_CR_ITM) e2)"
    using v2 due by (simp add: ia64_itm_update_pending_def Let_def)
  then have "ia64_itm_timer_work hz now e = ia64_itm_raise (cr e IA64_CR_ITM) e2"
    using armed by (simp add: ia64_itm_timer_work_def Let_def flip: e2_def)
  moreover have "\<not> (itm_last_match_valid (intr e2) \<and> itm_last_match (intr e2) = cr e IA64_CR_ITM)"
    unfolding i2 using new by blast
  ultimately show ?thesis
    using v2(1) by (auto simp: ia64_itm_raise_def ia64_sapic_set_irq_work_def update_interrupt_fields bitmap_set_active)
qed

theorem itm_timer_fires_witness:
  "sapic_vector_active (sapic_irr (intr (ia64_itm_timer_work 400000000 1000 itc_example))) 0xEF"
proof (rule itm_timer_fires [where delta = 400])
  have d: "ia64_itc_delay_ns 400000000 400 itc_example = 1000"
    by (simp add: itc_example_def ia64_itc_delay_ns_def ia64_itc_ticks_for_ns_def muldiv64_def interrupt_state_zero_def)
  show "ia64_itc_delay_ns 400000000 400 itc_example \<noteq> INT64_MAX"
    "itc_last_ns (intr itc_example) + uint (ia64_itc_delay_ns 400000000 400 itc_example) \<le> 1000"
    unfolding d by (simp_all add: itc_example_def interrupt_state_zero_def)
  show "ia64_itv_vector itc_example = Some 0xEF"
    by (simp add: itc_example_def ia64_itv_vector_def ia64_external_interrupt_vector_valid_def)
qed (simp_all add: itc_example_def itc_ok_def interrupt_state_zero_def env_zero_def ia64_itv_masked_def
   ia64_itv_vector_def ia64_external_interrupt_vector_valid_def ia64_itm_interrupt_active_def sapic_vector_active_def)

text \<open>
  The delay need not be the first sufficient nanosecond: the rounding of \<^verbatim>\<open>muldiv64\<close> ignores the
  fraction of a tick already accumulated.
\<close>

lemma itc_delay_not_first:
  "\<exists>e. itc_ok 400000000 e \<and> ia64_itc_delay_ns 400000000 1 e = 2 \<and>
     fst (ia64_itc_ticks_for_ns 1 400000000 (itc_fraction (intr e))) = 1"
proof -
  let ?e = "(env_zero False (\<lambda>_. 0))\<lparr>intr := interrupt_state_zero\<lparr>itc_fraction := 990000000\<rparr>\<rparr>"
  have "itc_ok 400000000 ?e \<and> ia64_itc_delay_ns 400000000 1 ?e = 2 \<and>
     fst (ia64_itc_ticks_for_ns 1 400000000 (itc_fraction (intr ?e))) = 1"
    by (simp add: itc_ok_def ia64_itc_delay_ns_def ia64_itc_ticks_for_ns_def muldiv64_def interrupt_state_zero_def)
  then show ?thesis by blast
qed

end
