(* ===== verification/Faults.thy ===== *)
theory Faults
  imports Itc
begin

text \<open>
  Operations that may leave the translated code: the outcome type, \<^verbatim>\<open>ia64_raise_exception\<close> and the
  raising helpers of \<^verbatim>\<open>target/ia64/arch/exception.c\<close>, and the address checks of \<^verbatim>\<open>cpu.h\<close> they consult.
\<close>

section \<open>Outcomes\<close>

text \<open>
  \<^verbatim>\<open>cpu_loop_exit\<close> unwinds to the execution loop: the operation stops with the state it has reached.
  \<open>Stop_interrupt\<close> is the exit after an external interrupt has been delivered, \<open>Stop_assert\<close> a failed
  \<^verbatim>\<open>g_assert\<close>.
\<close>

datatype stop = Stop_exception ia64_exception | Stop_interrupt | Stop_assert

type_synonym 'a outcome = "(stop \<times> env) + ('a \<times> env)"

definition run_bind :: "'a outcome \<Rightarrow> ('a \<Rightarrow> env \<Rightarrow> 'b outcome) \<Rightarrow> 'b outcome" where
  "run_bind r k = (case r of Inl s \<Rightarrow> Inl s | Inr (x, e) \<Rightarrow> k x e)"

lemma run_bind_simps [simp]:
  "run_bind (Inl s) k = Inl s" "run_bind (Inr (x, e)) k = k x e"
  by (simp_all add: run_bind_def)

lemma run_bind_Inr: "run_bind r k = Inr y \<longleftrightarrow> (\<exists>x e. r = Inr (x, e) \<and> k x e = Inr y)"
  by (auto simp: run_bind_def split: sum.splits)

lemma run_bind_Inl: "run_bind r k = Inl s \<longleftrightarrow> r = Inl s \<or> (\<exists>x e. r = Inr (x, e) \<and> k x e = Inl s)"
  by (auto simp: run_bind_def split: sum.splits)

section \<open>Implemented addresses\<close>

definition ia64_pa_is_implemented :: "cpu_class \<Rightarrow> u64 \<Rightarrow> bool" where
  "ia64_pa_is_implemented c addr \<longleftrightarrow>
     (let implemented_mask = push_bit (phys_addr_bits c) 1 - 1
      in addr AND NOT (0x8000000000000000 OR implemented_mask) = 0)"

definition ia64_pa_canonicalize :: "cpu_class \<Rightarrow> u64 \<Rightarrow> u64" where
  "ia64_pa_canonicalize c addr =
     (let implemented_mask = push_bit (phys_addr_bits c) 1 - 1
      in addr AND (0x8000000000000000 OR implemented_mask))"

definition ia64_va_is_implemented :: "cpu_class \<Rightarrow> u64 \<Rightarrow> bool" where
  "ia64_va_is_implemented c va \<longleftrightarrow>
     (if impl_va_msb c \<ge> 60 then True
      else
        let count = 60 - impl_va_msb c;
            mask = push_bit count 1 - 1;
            unimplemented = drop_bit (impl_va_msb c + 1) va AND mask;
            expected = (if va AND push_bit (impl_va_msb c) 1 \<noteq> 0 then mask else 0)
        in unimplemented = expected)"

definition ia64_va_canonicalize :: "cpu_class \<Rightarrow> u64 \<Rightarrow> u64" where
  "ia64_va_canonicalize c va =
     (let region = va AND push_bit 61 7;
          implemented_mask = push_bit (impl_va_msb c + 1) 1 - 1;
          payload = va AND implemented_mask
      in region OR
         (if impl_va_msb c < 60 \<and> payload AND push_bit (impl_va_msb c) 1 \<noteq> 0
          then payload OR push_bit (impl_va_msb c + 1) (push_bit (60 - impl_va_msb c) 1 - 1)
          else payload))"

section \<open>Raising\<close>

definition ia64_raise_exception :: "ia64_exception \<Rightarrow> u64 \<Rightarrow> u64 \<Rightarrow> nat \<Rightarrow> env \<Rightarrow> 'a outcome" where
  "ia64_raise_exception exc fip imm slot e =
     Inl (Stop_exception exc,
       e\<lparr>ip := fip,
         exception_st := (exception_st e)\<lparr>fault_ip := fip, fault_imm := imm, fault_slot := slot,
           fault_exception := exc, exception := exc\<rparr>,
         exception_index := exc\<rparr>)"

definition ia64_raise_disabled_isa_transition :: "u64 \<Rightarrow> nat \<Rightarrow> env \<Rightarrow> 'a outcome" where
  "ia64_raise_disabled_isa_transition fip slot e =
     ia64_raise_exception IA64_EXCP_DISABLED_ISA_TRANSITION fip 0 slot (e\<lparr>cr_isr := push_bit 4 4\<rparr>)"

definition ia64_raise_nat_consumption :: "u64 \<Rightarrow> u64 \<Rightarrow> env \<Rightarrow> 'a outcome" where
  "ia64_raise_nat_consumption isr_access fault_info e =
     (let e1 = (if psr e AND IA64_PSR_IC \<noteq> 0 then e\<lparr>cr := (cr e)(20 := 0)\<rparr> else e)
      in ia64_raise_exception IA64_EXCP_NAT_CONSUMPTION (fault_info AND NOT 3) 0 (unat (fault_info AND 3))
           (e1\<lparr>cr_isr := 0x10 OR isr_access\<rparr>))"

definition ia64_raise_unimplemented_data_address :: "u64 \<Rightarrow> u64 \<Rightarrow> bool \<Rightarrow> bool \<Rightarrow> bool \<Rightarrow> env \<Rightarrow> 'a outcome" where
  "ia64_raise_unimplemented_data_address va access is_non_access is_speculative itlb_ed e =
     (let isr = 0x30 OR access;
          isr1 = (if is_non_access then isr OR 0x800000000 else isr);
          isr2 = (if is_speculative then isr1 OR 0x1000000000 else isr1);
          isr3 = (if itlb_ed then isr2 OR 0x80000000000 else isr2)
      in ia64_raise_exception IA64_EXCP_UNIMPL_DATA_ADDR (ia64_ip_bundle_addr (ip e)) 0
           (unat (drop_bit 41 (psr e AND IA64_PSR_RI_MASK)))
           (e\<lparr>cr := (cr e)(20 := va), cr_isr := isr3\<rparr>))"

text \<open>The trap conditions of \<^verbatim>\<open>ia64_check_native_traps\<close>: a set bit per constructor of the C flags.\<close>

record native_conditions =
  native_trap_fp :: bool
  native_trap_lower :: bool
  native_trap_taken :: bool

definition native_trap_code :: "cpu_class \<Rightarrow> u64 \<Rightarrow> native_conditions \<Rightarrow> u64 \<Rightarrow> u64 \<Rightarrow> u64" where
  "native_trap_code c target_ip cond base_isr trap_psr =
     (let unimplemented = (if trap_psr AND IA64_PSR_IT \<noteq> 0 then \<not> ia64_va_is_implemented c target_ip
                           else \<not> ia64_pa_is_implemented c target_ip);
          code1 = (if unimplemented then base_isr OR 16 else base_isr);
          code2 = (if native_trap_fp cond then code1 OR 1 else code1);
          code3 = (if native_trap_lower cond \<and> trap_psr AND IA64_PSR_LP \<noteq> 0 then code2 OR 2 else code2);
          code4 = (if native_trap_taken cond \<and> trap_psr AND IA64_PSR_TB \<noteq> 0 then code3 OR 4 else code3)
      in if trap_psr AND IA64_PSR_SS \<noteq> 0 then code4 OR 8 else code4)"

definition ia64_check_native_traps ::
  "cpu_class \<Rightarrow> u64 \<Rightarrow> u64 \<Rightarrow> nat \<Rightarrow> nat \<Rightarrow> native_conditions \<Rightarrow> u64 \<Rightarrow> u64 \<Rightarrow> env \<Rightarrow> unit outcome" where
  "ia64_check_native_traps c target_ip source_ip target_slot source_slot cond base_isr trap_psr e =
     (let unimplemented = (if trap_psr AND IA64_PSR_IT \<noteq> 0 then \<not> ia64_va_is_implemented c target_ip
                           else \<not> ia64_pa_is_implemented c target_ip);
          code = native_trap_code c target_ip cond base_isr trap_psr
      in if code = 0 then Inr ((), e)
         else
           let e1 = (if trap_psr AND IA64_PSR_IC \<noteq> 0
                     then e\<lparr>last_successful_bundle := ia64_ip_bundle_addr source_ip\<rparr> else e);
               trap = (if unimplemented then IA64_EXCP_UNIMPL_INST_ADDR
                       else if native_trap_fp cond then IA64_EXCP_FP_TRAP
                       else if code AND 2 \<noteq> 0 then IA64_EXCP_LOWER_PRIVILEGE
                       else if code AND 4 \<noteq> 0 then IA64_EXCP_TAKEN_BRANCH
                       else IA64_EXCP_SINGLE_STEP);
               e2 = e1\<lparr>psr := (psr e1 AND NOT IA64_PSR_RI_MASK) OR push_bit 41 (of_nat target_slot),
                       ip := target_ip, cr_isr := code,
                       exception_st := (exception_st e1)\<lparr>psr_suppression_before_insn := 0,
                         native_completion_trap := True\<rparr>\<rparr>
           in ia64_raise_exception trap target_ip (ia64_ip_bundle_addr source_ip) source_slot e2)"

end
