(* ===== verification/System_Regs.thy ===== *)
theory System_Regs
  imports Faults
begin

text \<open>
  The system registers of \<^verbatim>\<open>target/ia64/arch/system.c\<close>: PSR writes with the register bank switch, the
  application and control register accesses with their checks, the indexed register files.  The
  soft TLB and the contents of the translation cache are not part of the state, so flushes and
  purges have no counterpart here; the virtual clock reading is an argument where the code samples it.
\<close>

section \<open>Processor status\<close>

definition swap_banked_step :: "nat \<Rightarrow> env \<Rightarrow> env" where
  "swap_banked_step i e =
     (let reg = 16 + i;
          value = gr e reg;
          n = ia64_gr_nat_get e reg;
          e1 = ia64_gr_nat_set reg (drop_bit i (banked_nat e) AND 1 \<noteq> 0) (e\<lparr>gr := (gr e)(reg := banked_gr e i)\<rparr>)
      in e1\<lparr>banked_gr := (banked_gr e1)(i := value),
            banked_nat := (if n then banked_nat e1 OR push_bit i 1 else banked_nat e1 AND NOT (push_bit i 1))\<rparr>)"

definition ia64_swap_banked_gr :: "env \<Rightarrow> env" where
  "ia64_swap_banked_gr e = fold swap_banked_step [0..<16] e"

definition ia64_set_psr :: "u64 \<Rightarrow> env \<Rightarrow> env" where
  "ia64_set_psr value e =
     (let changed = psr e XOR value;
          x1 = (if changed AND IA64_PSR_IC \<noteq> 0 then (exception_st e)\<lparr>psr_ic_inflight := True\<rparr> else exception_st e);
          x2 = (if value AND IA64_PSR_I = 0 \<or> value AND IA64_PSR_IS \<noteq> 0 then x1\<lparr>psr_i_deferred := False\<rparr>
                else if changed AND IA64_PSR_I \<noteq> 0 \<and> psr_ic_inflight x1 then x1\<lparr>psr_i_deferred := True\<rparr>
                else x1);
          e1 = e\<lparr>exception_st := x2\<rparr>;
          e2 = (if changed AND IA64_PSR_BN \<noteq> 0 then ia64_swap_banked_gr e1 else e1);
          e3 = e2\<lparr>psr := value\<rparr>
      in if changed AND (IA64_PSR_I OR IA64_PSR_IC OR IA64_PSR_MC OR IA64_PSR_IS) \<noteq> 0
         then ia64_sapic_update_interrupt e3 else e3)"

definition ia64_set_psr_bn :: "bool \<Rightarrow> env \<Rightarrow> env" where
  "ia64_set_psr_bn bank1 e = ia64_set_psr (if bank1 then psr e OR IA64_PSR_BN else psr e AND NOT IA64_PSR_BN) e"

definition ia64_system_ssm :: "u64 \<Rightarrow> env \<Rightarrow> env" where
  "ia64_system_ssm imm e = ia64_set_psr (psr e OR imm) e"

definition ia64_system_rsm :: "u64 \<Rightarrow> env \<Rightarrow> env" where
  "ia64_system_rsm imm e = ia64_set_psr (psr e AND NOT imm) e"

definition ia64_system_mov_psr_write :: "u64 \<Rightarrow> bool \<Rightarrow> env \<Rightarrow> env" where
  "ia64_system_mov_psr_write value low e =
     (let new_psr = (if low then (psr e AND NOT 0xffffffff) OR (value AND 0xffffffff) else value)
      in if psr e = new_psr then e else ia64_set_psr new_psr e)"

abbreviation (input) IA64_PSR_FAULT_SUPPRESS_MASK :: u64 where
  "IA64_PSR_FAULT_SUPPRESS_MASK \<equiv> IA64_PSR_ID OR IA64_PSR_DA OR IA64_PSR_DD OR IA64_PSR_ED OR IA64_PSR_IA"

definition ia64_system_clear_psr_fault_suppression :: "env \<Rightarrow> env" where
  "ia64_system_clear_psr_fault_suppression e =
     (let old_mask = psr_suppression_before_insn (exception_st e) AND IA64_PSR_FAULT_SUPPRESS_MASK;
          clear_mask = psr e AND old_mask;
          e1 = (if clear_mask \<noteq> 0 then ia64_set_psr (psr e AND NOT clear_mask) e else e)
      in e1\<lparr>exception_st := (exception_st e1)\<lparr>psr_suppression_before_insn := 0\<rparr>\<rparr>)"

section \<open>Application registers\<close>

text \<open>The arrays \<^verbatim>\<open>ar[]\<close> and \<^verbatim>\<open>cr[]\<close>, whose named elements are fields of their own.\<close>

definition ar_get :: "env \<Rightarrow> nat \<Rightarrow> u64" where
  "ar_get e n =
     (if n = 16 then ar_rsc e else if n = 17 then ar_bsp e else if n = 18 then ar_bspstore e
      else if n = 19 then ar_rnat (rnat e) else if n = 64 then ar_pfs e else if n = 65 then ar_lc e
      else if n = 66 then ar_ec e else ar e n)"

definition ar_put :: "nat \<Rightarrow> u64 \<Rightarrow> env \<Rightarrow> env" where
  "ar_put n v e =
     (if n = 16 then e\<lparr>ar_rsc := v\<rparr> else if n = 17 then e\<lparr>ar_bsp := v\<rparr> else if n = 18 then e\<lparr>ar_bspstore := v\<rparr>
      else if n = 19 then e\<lparr>rnat := (rnat e)\<lparr>ar_rnat := v\<rparr>\<rparr> else if n = 64 then e\<lparr>ar_pfs := v\<rparr>
      else if n = 65 then e\<lparr>ar_lc := v\<rparr> else if n = 66 then e\<lparr>ar_ec := v\<rparr> else e\<lparr>ar := (ar e)(n := v)\<rparr>)"

definition cr_get :: "env \<Rightarrow> nat \<Rightarrow> u64" where
  "cr_get e n =
     (if n = 16 then cr_ipsr e else if n = 17 then cr_isr e else if n = 19 then cr_iip e
      else if n = 23 then cr_ifs e else cr e n)"

definition cr_put :: "nat \<Rightarrow> u64 \<Rightarrow> env \<Rightarrow> env" where
  "cr_put n v e =
     (if n = 16 then e\<lparr>cr_ipsr := v\<rparr> else if n = 17 then e\<lparr>cr_isr := v\<rparr> else if n = 19 then e\<lparr>cr_iip := v\<rparr>
      else if n = 23 then e\<lparr>cr_ifs := v\<rparr> else e\<lparr>cr := (cr e)(n := v)\<rparr>)"

definition ia64_rsc_pl :: "u64 \<Rightarrow> nat" where
  "ia64_rsc_pl rsc = unat (drop_bit 2 (rsc AND 0xc))"

definition ia64_system_reset_dahr :: "env \<Rightarrow> env" where
  "ia64_system_reset_dahr e = e\<lparr>dahr := (\<lambda>_. 0)\<rparr>"

definition ia64_system_read_ar :: "cpu_class \<Rightarrow> int \<Rightarrow> nat \<Rightarrow> env \<Rightarrow> u64 \<times> env" where
  "ia64_system_read_ar c now n e =
     (if n \<ge> 128 then (0, e)
      else if n = 17 then (ar_bsp e, e)
      else if n = 19 then (ia64_rse_read_rnat (ar_bspstore e) (rnat e), e)
      else if n = 44 then ia64_itc_read (itc_frequency_hz c) now e
      else (ar_get e n, e))"

definition ia64_reserved_rsc_field :: "u64 \<Rightarrow> bool" where
  "ia64_reserved_rsc_field value \<longleftrightarrow> value AND NOT (0x1f OR push_bit 16 0x3fff) \<noteq> 0"

definition ia64_reserved_fpsr_field :: "u64 \<Rightarrow> bool" where
  "ia64_reserved_fpsr_field value \<longleftrightarrow>
     drop_bit 58 value \<noteq> 0 \<or> drop_bit 12 value AND 1 \<noteq> 0 \<or> drop_bit 47 value AND 3 = 1 \<or>
     drop_bit 34 value AND 3 = 1 \<or> drop_bit 21 value AND 3 = 1 \<or> drop_bit 8 value AND 3 = 1"

definition ia64_reserved_pfs_field :: "u64 \<Rightarrow> bool" where
  "ia64_reserved_pfs_field value \<longleftrightarrow> value AND push_bit 58 0xf \<noteq> 0 \<or> value AND push_bit 38 0x3fff \<noteq> 0"

definition ia64_system_check_virtualization :: "cpu_class \<Rightarrow> u64 \<Rightarrow> u64 \<Rightarrow> nat \<Rightarrow> env \<Rightarrow> unit outcome" where
  "ia64_system_check_virtualization c fip raw slot e =
     (if has_virtualization c \<and> psr e AND IA64_PSR_VM \<noteq> 0
      then ia64_raise_exception IA64_EXCP_VIRTUALIZATION fip raw slot e else Inr ((), e))"

definition ia64_system_validate_ar_access ::
  "cpu_class \<Rightarrow> u64 \<Rightarrow> nat \<Rightarrow> bool \<Rightarrow> u64 \<Rightarrow> u64 \<Rightarrow> nat \<Rightarrow> env \<Rightarrow> unit outcome" where
  "ia64_system_validate_ar_access c value n write fip raw slot e =
     (let itc_like = (n = 44 \<or> n = 45) in
      if (n = 18 \<or> n = 19) \<and> ar_rsc e AND 3 \<noteq> 0
      then ia64_raise_exception IA64_EXCP_ILLEGAL fip raw slot (e\<lparr>cr_isr := 0\<rparr>)
      else if \<not> write then
        (if itc_like \<and> psr e AND IA64_PSR_SI \<noteq> 0 \<and> ia64_psr_cpl (psr e) \<noteq> 0
         then ia64_raise_exception IA64_EXCP_PRIVILEGED_REG fip raw slot (e\<lparr>cr_isr := 0x20\<rparr>)
         else if itc_like \<and> psr e AND IA64_PSR_SI \<noteq> 0
         then ia64_system_check_virtualization c fip raw slot e
         else Inr ((), e))
      else if n = 16 \<and> ia64_reserved_rsc_field value \<or> n = 40 \<and> ia64_reserved_fpsr_field value \<or>
              n = 27 \<and> drop_bit 43 value \<noteq> 0 \<or> n = 64 \<and> ia64_reserved_pfs_field value
      then ia64_raise_exception IA64_EXCP_RESERVED_REG_FIELD fip raw slot (e\<lparr>cr_isr := 0x30\<rparr>)
      else if (n \<le> 7 \<or> n = 27 \<or> itc_like) \<and> ia64_psr_cpl (psr e) \<noteq> 0
      then ia64_raise_exception IA64_EXCP_PRIVILEGED_REG fip raw slot (e\<lparr>cr_isr := 0x20\<rparr>)
      else if itc_like then ia64_system_check_virtualization c fip raw slot e
      else Inr ((), e))"

text \<open>The bookkeeping of a move to \<^verbatim>\<open>AR.BSPSTORE\<close>, after the register itself has been written.\<close>

definition bspstore_rebase :: "u64 \<Rightarrow> env \<Rightarrow> env" where
  "bspstore_rebase value e =
     (let d = max (rse_dirty e) 0;
          dn = uint (ia64_rse_nat_words_grow value (word_of_int d))
      in ia64_system_reset_dahr
           (e\<lparr>rnat := ia64_rse_rnat_undefined (rnat e), rse_dirty_nat := dn,
              ar_bsp := value + word_of_int (rse_dirty e + dn) * 8,
              rse_invalid := rse_invalid e + rse_clean e, rse_clean := 0, rse_clean_nat := 0\<rparr>))"

definition ia64_system_write_ar :: "cpu_class \<Rightarrow> int \<Rightarrow> nat \<Rightarrow> u64 \<Rightarrow> env \<Rightarrow> env" where
  "ia64_system_write_ar c now n value e =
     (if n \<ge> 128 then e
      else if 48 \<le> n \<and> n \<le> 63 \<or> n \<ge> 112 then e
      else if n = 44 then
        let matched = (cr e 1 = value);
            e1 = ia64_itc_write now value e;
            i1 = (intr e1)\<lparr>itm_last_match_valid := False\<rparr>;
            e2 = e1\<lparr>intr := (if matched then i1\<lparr>itm_armed := True, itm_armed_value := value\<rparr> else i1)\<rparr>
        in ia64_itm_update (itc_frequency_hz c) now (cr e2 1) e2
      else if n = 16 then
        let pl = max (ia64_rsc_pl value) (ia64_psr_cpl (psr e))
        in e\<lparr>ar_rsc := (value AND NOT 0xc) OR push_bit 2 (of_nat pl)\<rparr>
      else
        let value1 = (if n = 19 then value AND 0x7fffffffffffffff
                      else if n = 18 then value AND NOT 7
                      else if n = 66 then value AND 0x3f
                      else if n = 24 then
                        let cpl = ia64_psr_cpl (psr e);
                            preserve = (if cpl \<noteq> 0 then push_bit 12 3 OR push_bit 17 1 else 0);
                            preserve1 = (if cpl > unat (drop_bit 12 (ar e 24) AND 3) then preserve OR push_bit 9 1
                                         else preserve)
                        in (value AND NOT preserve1) OR (ar e 24 AND preserve1)
                      else value);
            e1 = ar_put n value1 e;
            e2 = (if n = 19 then e1\<lparr>rnat := ia64_rse_rnat_reloaded (ar_bspstore e1) (rnat e1)\<rparr> else e1)
        in if n = 18 then bspstore_rebase value1 e2 else e2)"

section \<open>Control registers\<close>

definition ia64_system_read_cr :: "nat \<Rightarrow> env \<Rightarrow> u64 \<times> env" where
  "ia64_system_read_cr n e =
     (if n \<ge> 128 then (0, e)
      else if n = 64 then (cr e 64 AND 0xffff0000, e)
      else if n = 65 then (let (v, e1) = ia64_sapic_get_ivr e in (of_nat v AND 0xff, e1))
      else if 68 \<le> n \<and> n \<le> 71 then (sapic_irr (intr e) (n - 68), e)
      else (cr_get e n, e))"

definition ia64_reserved_ipsr_field :: "cpu_class \<Rightarrow> u64 \<Rightarrow> bool" where
  "ia64_reserved_ipsr_field c value \<longleftrightarrow>
     (let high_reserved = (if has_virtualization c then drop_bit 47 value else drop_bit 46 value)
      in high_reserved \<noteq> 0 \<or> drop_bit 41 value AND 3 = 3 \<or> drop_bit 28 value AND 0xf \<noteq> 0 \<or>
         drop_bit 16 value AND 1 \<noteq> 0 \<or> drop_bit 6 value AND 0x7f \<noteq> 0 \<or> value AND 1 \<noteq> 0)"

definition ia64_reserved_ifs_field :: "u64 \<Rightarrow> bool" where
  "ia64_reserved_ifs_field value \<longleftrightarrow>
     (if value AND push_bit 38 0x1ffffff \<noteq> 0 then True
      else drop_bit 63 value \<noteq> 0 \<and> ia64_reserved_pfs_field value)"

definition ia64_reserved_cr_field :: "cpu_class \<Rightarrow> nat \<Rightarrow> u64 \<Rightarrow> bool" where
  "ia64_reserved_cr_field c n value \<longleftrightarrow>
     (if n = 0 then drop_bit 15 value \<noteq> 0 \<or> value AND push_bit 3 0x1f \<noteq> 0
      else if n = 8 then value AND push_bit 9 0x3f \<noteq> 0 \<or> value AND 2 \<noteq> 0 \<or> drop_bit 2 value AND 0x3f < 15
      else if n = 16 then ia64_reserved_ipsr_field c value
      else if n = 17 then drop_bit 44 value \<noteq> 0 \<or> drop_bit 41 value AND 3 = 3 \<or> drop_bit 24 value AND 0xff \<noteq> 0
      else if n = 23 then ia64_reserved_ifs_field value
      else if n = 64 then value AND 0xffff \<noteq> 0
      else if n = 65 then value AND 0xff \<noteq> 0
      else if n = 66 then value AND 0xff00 \<noteq> 0
      else if n = 72 \<or> n = 73 \<or> n = 74 then value AND push_bit 13 7 \<noteq> 0 \<or> value AND push_bit 8 0xf \<noteq> 0
      else if n = 80 \<or> n = 81 then
        let delivery_mode = drop_bit 8 value AND 7
        in value AND push_bit 14 1 \<noteq> 0 \<or> value AND push_bit 11 1 \<noteq> 0 \<or> delivery_mode = 1 \<or> delivery_mode = 3 \<or>
           delivery_mode = 6
      else False)"

text \<open>\<open>itlb_ed\<close> is \<^verbatim>\<open>ia64_current_code_tlb_ed\<close>, the exception deferral bit of the current code page.\<close>

definition ia64_system_validate_cr_access ::
  "cpu_class \<Rightarrow> bool \<Rightarrow> u64 \<Rightarrow> nat \<Rightarrow> bool \<Rightarrow> u64 \<Rightarrow> u64 \<Rightarrow> nat \<Rightarrow> env \<Rightarrow> u64 outcome" where
  "ia64_system_validate_cr_access c itlb_ed value n write fip raw slot e =
     (if psr e AND IA64_PSR_IC \<noteq> 0 \<and> 16 \<le> n \<and> n \<le> 25
      then ia64_raise_exception IA64_EXCP_ILLEGAL fip raw slot (e\<lparr>cr_isr := 0\<rparr>)
      else if write \<and> ia64_reserved_cr_field c n value
      then ia64_raise_exception IA64_EXCP_RESERVED_REG_FIELD fip raw slot (e\<lparr>cr_isr := 0x30\<rparr>)
      else if write \<and> n = 20 \<and> \<not> ia64_va_is_implemented c value
      then ia64_raise_exception IA64_EXCP_UNIMPL_DATA_ADDR fip raw slot
             (e\<lparr>cr := (cr e)(20 := value),
                cr_isr := (if itlb_ed then 0x30 OR 0x800000000 OR 0x80000000000 else 0x30 OR 0x800000000)\<rparr>)
      else
        run_bind (ia64_system_check_virtualization c fip raw slot e) (\<lambda>_ e1.
          Inr (if n = 2 then value AND NOT 0x7fff
               else if n = 25 then value AND NOT 3
               else if n = 66 then value AND 0x100f0
               else if n = 67 then 0
               else if n = 72 \<or> n = 73 \<or> n = 74 \<or> n = 80 \<or> n = 81 then value AND 0x1efff
               else value, e1)))"

definition ia64_ras_update_cmc :: "env \<Rightarrow> env" where
  "ia64_ras_update_cmc e =
     (let cmcv = cr e 74;
          vector = unat (cmcv AND 0xff)
      in if \<not> pal_cmc_pending e \<or> cmcv AND 0x10000 \<noteq> 0 \<or> \<not> ia64_external_interrupt_vector_valid vector then e
         else ia64_sapic_set_irq_work vector (e\<lparr>pal_cmc_pending := False\<rparr>))"

definition ia64_write_cr :: "cpu_class \<Rightarrow> int \<Rightarrow> nat \<Rightarrow> u64 \<Rightarrow> env \<Rightarrow> env" where
  "ia64_write_cr c now n value e =
     (if n \<ge> 128 then e
      else if n = 1 then ia64_itm_update (itc_frequency_hz c) now value (e\<lparr>cr := (cr e)(1 := value)\<rparr>)
      else if n = 2 then e\<lparr>cr := (cr e)(2 := value)\<rparr>
      else if n = 8 then (if cr e 8 = value then e else e\<lparr>cr := (cr e)(8 := value)\<rparr>)
      else if n = 66 then ia64_sapic_update_interrupt (e\<lparr>cr := (cr e)(66 := value AND 0x100f0)\<rparr>)
      else if n = 64 then e\<lparr>cr := (cr e)(64 := value AND 0xffff0000)\<rparr>
      else if n = 67 then ia64_sapic_eoi e
      else if n = 65 \<or> 68 \<le> n \<and> n \<le> 71 then e
      else if n = 72 then
        let e1 = e\<lparr>cr := (cr e)(72 := value)\<rparr> in ia64_itm_update (itc_frequency_hz c) now (cr e1 1) e1
      else if n = 74 then ia64_ras_update_cmc (e\<lparr>cr := (cr e)(74 := value)\<rparr>)
      else cr_put n value e)"

section \<open>Indexed register files\<close>

definition ia64_system_read_cpuid :: "cpu_class \<Rightarrow> u64 \<Rightarrow> u64" where
  "ia64_system_read_cpuid c index =
     (let i = index AND 0xff in
      if i = 0 then 0x49656e69756e6547 else if i = 1 then 0x6c65746e else if i = 2 then 0
      else if i = 3 then cpuid_version c else if i = 4 then cpuid_features c else 0)"

definition ia64_system_read_dahr_indexed :: "u64 \<Rightarrow> env \<Rightarrow> u64" where
  "ia64_system_read_dahr_indexed index e = dahr e (unat (index AND 7)) AND 0x7ff"

definition ia64_system_write_dahr :: "u32 \<Rightarrow> u64 \<Rightarrow> env \<Rightarrow> env" where
  "ia64_system_write_dahr index value e = e\<lparr>dahr := (dahr e)(unat (index AND 7) := value AND 0x7ff)\<rparr>"

definition ia64_system_read_msr :: "u64 \<Rightarrow> env \<Rightarrow> u64" where
  "ia64_system_read_msr index e = (if index < 1024 then msr e (unat index) else 0)"

definition ia64_system_write_msr :: "u64 \<Rightarrow> u64 \<Rightarrow> env \<Rightarrow> env" where
  "ia64_system_write_msr index value e = (if index < 1024 then e\<lparr>msr := (msr e)(unat index := value)\<rparr> else e)"

definition ia64_system_read_dbr :: "u32 \<Rightarrow> env \<Rightarrow> u64" where
  "ia64_system_read_dbr index e = (let i = unat (index AND 0xff) in if i \<ge> 8 then 0 else dbr e i)"

definition ia64_system_write_dbr :: "u32 \<Rightarrow> u64 \<Rightarrow> env \<Rightarrow> env" where
  "ia64_system_write_dbr index value e =
     (let i = unat (index AND 0xff) in
      if i < 8 then e\<lparr>dbr := (dbr e)(i := (if odd i then value AND NOT (push_bit 60 3) else value))\<rparr> else e)"

definition ia64_system_read_ibr :: "u32 \<Rightarrow> env \<Rightarrow> u64" where
  "ia64_system_read_ibr index e = (let i = unat (index AND 0xff) in if i \<ge> 8 then 0 else ibr e i)"

definition ia64_system_write_ibr :: "u32 \<Rightarrow> u64 \<Rightarrow> env \<Rightarrow> env" where
  "ia64_system_write_ibr index value e =
     (let i = unat (index AND 0xff) in
      if i < 8 then e\<lparr>ibr := (ibr e)(i := (if odd i then value AND NOT (push_bit 60 7) else value))\<rparr> else e)"

text \<open>
  The switch over the models and indices that \<^verbatim>\<open>ia64_system_read_pmc\<close> and \<^verbatim>\<open>ia64_system_write_pmc\<close>
  share: the writable bits, or \<open>None\<close> where a read gives zero and a write is dropped.
\<close>

definition pmc_field :: "ia64_cpu_model \<Rightarrow> nat \<Rightarrow> u64 option" where
  "pmc_field m i =
     (case m of
        IA64_CPU_MODEL_MADISON \<Rightarrow> if i = 0 then Some 0xf1 else if i \<le> 3 then None else Some (- 1)
      | IA64_CPU_MODEL_MONTECITO \<Rightarrow> if i = 0 then Some 0xfff1 else if i \<le> 3 then None else Some (- 1)
      | IA64_CPU_MODEL_MERCED \<Rightarrow>
          if i = 0 then Some 0xf1 else if i \<le> 3 then None else if i \<le> 5 then Some 0x037f7f7f
          else if i \<le> 7 then Some 0x033f7f7f else if i \<le> 9 then Some 0xfffffffe3ffffff8
          else if i = 10 then Some 0x030f00cf else if i = 11 then Some 0x130f00cf
          else if i = 12 then Some 0x0000ffcf else if i = 13 then Some 1 else None)"

definition ia64_system_read_pmc :: "cpu_class \<Rightarrow> nat \<Rightarrow> env \<Rightarrow> u64" where
  "ia64_system_read_pmc c i e =
     (if i \<ge> 64 \<or> implemented_pmc_mask c AND push_bit i 1 = 0 then 0
      else case pmc_field (model c) i of None \<Rightarrow> 0 | Some f \<Rightarrow> pmc e i AND f)"

definition ia64_system_write_pmc :: "cpu_class \<Rightarrow> nat \<Rightarrow> u64 \<Rightarrow> env \<Rightarrow> env" where
  "ia64_system_write_pmc c i value e =
     (if i \<ge> 64 \<or> implemented_pmc_mask c AND push_bit i 1 = 0 then e
      else case pmc_field (model c) i of None \<Rightarrow> e | Some f \<Rightarrow> e\<lparr>pmc := (pmc e)(i := value AND f)\<rparr>)"

abbreviation (input) IA64_MERCED_PMD_ADDR_IGNORED_MASK :: u64 where
  "IA64_MERCED_PMD_ADDR_IGNORED_MASK \<equiv> 0x1ff8000000000000"

definition merced_pmd_field :: "nat \<Rightarrow> u64" where
  "merced_pmd_field i =
     (if i = 0 then NOT (IA64_MERCED_PMD_ADDR_IGNORED_MASK OR 0x1c)
      else if i = 1 then 0xfff
      else if i = 2 then NOT IA64_MERCED_PMD_ADDR_IGNORED_MASK
      else if i = 3 then 0xc000000000000fff
      else if i = 16 then 0xf
      else if i = 17 then NOT (IA64_MERCED_PMD_ADDR_IGNORED_MASK OR 2)
      else - 1)"

definition ia64_system_read_pmd :: "cpu_class \<Rightarrow> nat \<Rightarrow> env \<Rightarrow> u64 option" where
  "ia64_system_read_pmd c i e =
     (if i \<ge> 64 \<or> implemented_pmd_mask c AND push_bit i 1 = 0 then Some 0
      else
        let value = (if model c = IA64_CPU_MODEL_MERCED then
                       let v = pmd e i AND merced_pmd_field i
                       in if (i = 0 \<or> i = 2 \<or> i = 17) \<and> v AND push_bit 50 1 \<noteq> 0
                          then v OR IA64_MERCED_PMD_ADDR_IGNORED_MASK else v
                     else pmd e i)
        in if 4 \<le> i \<and> i \<le> 7 then
             let width = perf_counter_width c
             in if \<not> (width > 0 \<and> width \<le> 64) then None
                else if width < 64 then
                  let sign = push_bit (width - 1) 1;
                      mask = push_bit 1 sign - 1
                  in Some (((value AND mask) XOR sign) - sign)
                else Some value
           else Some value)"

definition ia64_system_read_pmd_checked :: "cpu_class \<Rightarrow> u64 \<Rightarrow> env \<Rightarrow> u64 option" where
  "ia64_system_read_pmd_checked c index e =
     (let i = unat (index AND 0xff) in
      if ia64_psr_cpl (psr e) \<noteq> 0 \<and>
         (psr e AND IA64_PSR_SP \<noteq> 0 \<or> i > 3 \<and> i \<le> 7 \<and> ia64_system_read_pmc c i e AND push_bit 6 1 \<noteq> 0)
      then Some 0
      else ia64_system_read_pmd c i e)"

definition ia64_system_write_pmd :: "cpu_class \<Rightarrow> nat \<Rightarrow> u64 \<Rightarrow> env \<Rightarrow> env option" where
  "ia64_system_write_pmd c i value e =
     (if i \<ge> 64 \<or> implemented_pmd_mask c AND push_bit i 1 = 0 then Some e
      else
        let value1 = (if model c = IA64_CPU_MODEL_MERCED then value AND merced_pmd_field i else value)
        in if 4 \<le> i \<and> i \<le> 7 then
             let width = perf_counter_width c
             in if \<not> (width > 0 \<and> width \<le> 64) then None
                else Some (e\<lparr>pmd := (pmd e)(i := (if width < 64 then value1 AND (push_bit width 1 - 1) else value1))\<rparr>)
           else Some (e\<lparr>pmd := (pmd e)(i := value1)\<rparr>))"

definition ia64_system_st_spill_unat :: "nat \<Rightarrow> u64 \<Rightarrow> env \<Rightarrow> env" where
  "ia64_system_st_spill_unat reg addr e =
     (let bit_pos = unat (drop_bit 3 addr AND 0x3f)
      in if ia64_gr_nat_get e reg then e\<lparr>ar := (ar e)(36 := ar e 36 OR push_bit bit_pos 1)\<rparr>
         else e\<lparr>ar := (ar e)(36 := ar e 36 AND NOT (push_bit bit_pos 1))\<rparr>)"

section \<open>Region and protection key registers\<close>

definition ia64_system_mov_rrgr_read :: "u64 \<Rightarrow> env \<Rightarrow> u64" where
  "ia64_system_mov_rrgr_read rr_addr e = rr e (unat (drop_bit 61 rr_addr AND 7))"

definition ia64_page_shift_insertable :: "cpu_class \<Rightarrow> nat \<Rightarrow> bool" where
  "ia64_page_shift_insertable c page_shift \<longleftrightarrow>
     page_shift < 64 \<and> drop_bit page_shift (insertable_page_size_mask c) AND 1 \<noteq> 0"

definition ia64_system_validate_rr_value :: "cpu_class \<Rightarrow> u64 \<Rightarrow> u64 \<Rightarrow> u64 \<Rightarrow> nat \<Rightarrow> env \<Rightarrow> u64 outcome" where
  "ia64_system_validate_rr_value c value fip raw slot e =
     (let ps = unat (drop_bit 2 value AND 0x3f);
          allowed = 1 OR push_bit 2 0x3f OR push_bit 8 (push_bit (rid_bits c) 1 - 1)
      in if value AND NOT allowed \<noteq> 0 \<or> \<not> ia64_page_shift_insertable c ps
         then ia64_raise_exception IA64_EXCP_RESERVED_REG_FIELD fip raw slot (e\<lparr>cr_isr := 0x30\<rparr>)
         else Inr (value, e))"

definition ia64_system_mov_grrr_write :: "u64 \<Rightarrow> u64 \<Rightarrow> env \<Rightarrow> env" where
  "ia64_system_mov_grrr_write rr_addr value e =
     (let n = unat (drop_bit 61 rr_addr AND 7)
      in if rr e n = value then e else e\<lparr>rr := (rr e)(n := value)\<rparr>)"

definition ia64_pkr_key_mask :: "cpu_class \<Rightarrow> u64" where
  "ia64_pkr_key_mask c = push_bit 8 (push_bit (key_bits c) 1 - 1)"

definition ia64_pkr_mask :: "cpu_class \<Rightarrow> u64" where
  "ia64_pkr_mask c = 1 OR 2 OR 4 OR 8 OR ia64_pkr_key_mask c"

definition ia64_system_mov_pkrgr_read :: "nat \<Rightarrow> env \<Rightarrow> u64" where
  "ia64_system_mov_pkrgr_read n e = (if n < 16 then pkr e n else 0)"

definition pkr_evict_step :: "cpu_class \<Rightarrow> nat \<Rightarrow> u64 \<Rightarrow> nat \<Rightarrow> (nat \<Rightarrow> u64) \<Rightarrow> nat \<Rightarrow> u64" where
  "pkr_evict_step c n key i p =
     (if i \<noteq> n \<and> p i AND 1 \<noteq> 0 \<and> p i AND ia64_pkr_key_mask c = key then p(i := p i AND NOT 1) else p)"

definition ia64_pkr_write :: "cpu_class \<Rightarrow> nat \<Rightarrow> u64 \<Rightarrow> env \<Rightarrow> env" where
  "ia64_pkr_write c n value e =
     (let masked = value AND ia64_pkr_mask c;
          key = masked AND ia64_pkr_key_mask c
      in if n \<ge> 16 then e
         else
           let p = (if masked AND 1 \<noteq> 0 then fold (pkr_evict_step c n key) [0..<16] (pkr e) else pkr e)
           in e\<lparr>pkr := p(n := masked)\<rparr>)"

definition ia64_system_mov_grpkr_indexed_write :: "cpu_class \<Rightarrow> u64 \<Rightarrow> u64 \<Rightarrow> env \<Rightarrow> env" where
  "ia64_system_mov_grpkr_indexed_write c n value e = ia64_pkr_write c (unat (n AND 0xff)) value e"


section \<open>The register banks\<close>

lemma swap_banked_prefix:
  fixes e :: env
  defines "e' n \<equiv> fold swap_banked_step [0..<n] e"
  assumes "n \<le> 16"
  shows "(\<forall>r. gr (e' n) r = (if 16 \<le> r \<and> r < 16 + n then banked_gr e (r - 16) else gr e r)) \<and>
    (\<forall>r<128. bits2_get (nat_bits (e' n)) r =
      (if 16 \<le> r \<and> r < 16 + n then bit (banked_nat e) (r - 16) else bits2_get (nat_bits e) r)) \<and>
    (\<forall>i. banked_gr (e' n) i = (if i < n then gr e (16 + i) else banked_gr e i)) \<and>
    (\<forall>i. bit (banked_nat (e' n)) i = (if i < n then bits2_get (nat_bits e) (16 + i) else bit (banked_nat e) i)) \<and>
    e' n = e\<lparr>gr := gr (e' n), nat_bits := nat_bits (e' n), banked_gr := banked_gr (e' n), banked_nat := banked_nat (e' n)\<rparr>"
  using \<open>n \<le> 16\<close>
proof (induction n)
  case 0
  then show ?case by (auto simp: e'_def)
next
  case (Suc n)
  then have IH: "\<forall>r. gr (e' n) r = (if 16 \<le> r \<and> r < 16 + n then banked_gr e (r - 16) else gr e r)"
    "\<forall>r<128. bits2_get (nat_bits (e' n)) r =
      (if 16 \<le> r \<and> r < 16 + n then bit (banked_nat e) (r - 16) else bits2_get (nat_bits e) r)"
    "\<forall>i. banked_gr (e' n) i = (if i < n then gr e (16 + i) else banked_gr e i)"
    "\<forall>i. bit (banked_nat (e' n)) i = (if i < n then bits2_get (nat_bits e) (16 + i) else bit (banked_nat e) i)"
    and frame: "e' n = e\<lparr>gr := gr (e' n), nat_bits := nat_bits (e' n), banked_gr := banked_gr (e' n), banked_nat := banked_nat (e' n)\<rparr>"
    by simp_all
  have n: "n < 16" using Suc.prems by simp
  define s where "s = e' n"
  have step: "e' (Suc n) = swap_banked_step n s" by (simp add: e'_def s_def)
  have bn: "drop_bit n (banked_nat s) AND 1 \<noteq> 0 \<longleftrightarrow> bit (banked_nat s) n"
    by (simp add: and_one_eq odd_iff_mod_2_eq_one bit_iff_odd_drop_bit)
  have set: "e' (Suc n) = s\<lparr>gr := (gr s)(16 + n := banked_gr s n),
      nat_bits := bits2_set (nat_bits s) (16 + n) (bit (banked_nat s) n),
      banked_gr := (banked_gr s)(n := gr s (16 + n)),
      banked_nat := (if bits2_get (nat_bits s) (16 + n) then banked_nat s OR push_bit n 1
                     else banked_nat s AND NOT (push_bit n 1))\<rparr>"
    unfolding step swap_banked_step_def Let_def bn by (simp add: ia64_gr_nat_get_def ia64_gr_nat_set_def)
  have nb: "bit (banked_nat (e' (Suc n))) i = (if i = n then bits2_get (nat_bits s) (16 + n) else bit (banked_nat s) i)" for i
    unfolding set by (cases "bits2_get (nat_bits s) (16 + n)") (use n in \<open>auto simp: bit_simps dest: bit_imp_le_length\<close>)
  note IHs = IH [folded s_def]
  have g: "gr (e' (Suc n)) r = (if 16 \<le> r \<and> r < 16 + Suc n then banked_gr e (r - 16) else gr e r)" for r
    unfolding set using IHs(1,3) by (auto simp: less_Suc_eq)
  have b: "bits2_get (nat_bits (e' (Suc n))) r =
      (if 16 \<le> r \<and> r < 16 + Suc n then bit (banked_nat e) (r - 16) else bits2_get (nat_bits e) r)" if "r < 128" for r
    unfolding set using IHs(2,4) that n bits2_get_set [of "16 + n" r] by (auto simp: less_Suc_eq)
  have bg: "banked_gr (e' (Suc n)) i = (if i < Suc n then gr e (16 + i) else banked_gr e i)" for i
    unfolding set using IHs(1,3) by (auto simp: less_Suc_eq)
  have bnt: "bit (banked_nat (e' (Suc n))) i = (if i < Suc n then bits2_get (nat_bits e) (16 + i) else bit (banked_nat e) i)" for i
    unfolding nb using IHs(2,4) n by (auto simp: less_Suc_eq)
  obtain x1 x2 x3 x4 where f: "s = e\<lparr>gr := x1, nat_bits := x2, banked_gr := x3, banked_nat := x4\<rparr>"
    using frame [folded s_def] by blast
  have "e' (Suc n) = e\<lparr>gr := gr (e' (Suc n)), nat_bits := nat_bits (e' (Suc n)), banked_gr := banked_gr (e' (Suc n)),
      banked_nat := banked_nat (e' (Suc n))\<rparr>"
    unfolding set f by simp
  with g b bg bnt show ?case by blast
qed

lemma bits2_eq_low: "b = c" if "\<And>r. r < 128 \<Longrightarrow> bits2_get b r = bits2_get c r"
  using that by (rule bits2_eqI)

lemma swap_banked_gr:
  "gr (ia64_swap_banked_gr e) r = (if 16 \<le> r \<and> r < 32 then banked_gr e (r - 16) else gr e r)"
  "r < 128 \<Longrightarrow> bits2_get (nat_bits (ia64_swap_banked_gr e)) r =
     (if 16 \<le> r \<and> r < 32 then bit (banked_nat e) (r - 16) else bits2_get (nat_bits e) r)"
  "banked_gr (ia64_swap_banked_gr e) i = (if i < 16 then gr e (16 + i) else banked_gr e i)"
  "bit (banked_nat (ia64_swap_banked_gr e)) i = (if i < 16 then bits2_get (nat_bits e) (16 + i) else bit (banked_nat e) i)"
  "ia64_swap_banked_gr e = e\<lparr>gr := gr (ia64_swap_banked_gr e), nat_bits := nat_bits (ia64_swap_banked_gr e),
     banked_gr := banked_gr (ia64_swap_banked_gr e), banked_nat := banked_nat (ia64_swap_banked_gr e)\<rparr>"
  using swap_banked_prefix [of 16 e] by (auto simp: ia64_swap_banked_gr_def)

lemma swap_banked_gr_twice: "ia64_swap_banked_gr (ia64_swap_banked_gr e) = e"
proof -
  let ?s = "ia64_swap_banked_gr"
  have g: "gr (?s (?s e)) = gr e" by (rule ext) (auto simp: swap_banked_gr(1,3))
  have b: "nat_bits (?s (?s e)) = nat_bits e"
    by (rule bits2_eq_low) (auto simp: swap_banked_gr(2,4))
  have bg: "banked_gr (?s (?s e)) = banked_gr e" by (rule ext) (auto simp: swap_banked_gr(1,3))
  have bn: "banked_nat (?s (?s e)) = banked_nat e"
    by (rule bit_word_eqI) (simp add: swap_banked_gr(2,4))
  obtain x1 x2 x3 x4 where f: "?s e = e\<lparr>gr := x1, nat_bits := x2, banked_gr := x3, banked_nat := x4\<rparr>"
    using swap_banked_gr(5) [of e] by blast
  have "?s (?s e) = (?s e)\<lparr>gr := gr e, nat_bits := nat_bits e, banked_gr := banked_gr e, banked_nat := banked_nat e\<rparr>"
    using swap_banked_gr(5) [of "?s e"] by (simp only: g b bg bn)
  then show ?thesis unfolding f by simp
qed


text \<open>The registers of both banks, which a PSR write leaves alone or exchanges.\<close>

definition bank_regs :: "env \<Rightarrow> (nat \<Rightarrow> u64) \<times> bits2 \<times> (nat \<Rightarrow> u64) \<times> u16" where
  "bank_regs e = (gr e, nat_bits e, banked_gr e, banked_nat e)"

lemma bank_regs_swap_cong:
  assumes "bank_regs e = bank_regs f"
  shows "bank_regs (ia64_swap_banked_gr e) = bank_regs (ia64_swap_banked_gr f)"
proof -
  have eq: "gr e = gr f" "nat_bits e = nat_bits f" "banked_gr e = banked_gr f" "banked_nat e = banked_nat f"
    using assms by (simp_all add: bank_regs_def)
  let ?s = ia64_swap_banked_gr
  have "gr (?s e) = gr (?s f)" "banked_gr (?s e) = banked_gr (?s f)"
    by (rule ext, simp only: swap_banked_gr(1,3) eq)+
  moreover have "nat_bits (?s e) = nat_bits (?s f)"
    by (rule bits2_eq_low) (simp only: swap_banked_gr(2) eq)
  moreover have "banked_nat (?s e) = banked_nat (?s f)"
    by (rule bit_word_eqI) (simp only: swap_banked_gr(4) eq)
  ultimately show ?thesis by (simp add: bank_regs_def)
qed

lemma set_psr_bank_regs:
  "bank_regs (ia64_set_psr v e) =
     bank_regs (if (psr e XOR v) AND IA64_PSR_BN \<noteq> 0 then ia64_swap_banked_gr e else e)"
proof -
  have keep: "bank_regs (e\<lparr>psr := v\<rparr>) = bank_regs e" "bank_regs (e\<lparr>exception_st := x\<rparr>) = bank_regs e"
    "bank_regs (ia64_sapic_update_interrupt e) = bank_regs e" for e x
    by (simp_all add: bank_regs_def ia64_sapic_update_interrupt_def)
  have "bank_regs (ia64_swap_banked_gr (e\<lparr>exception_st := x\<rparr>)) = bank_regs (ia64_swap_banked_gr e)" for x
    by (rule bank_regs_swap_cong) (rule keep)
  then show ?thesis
    unfolding ia64_set_psr_def Let_def by (simp only: keep if_distrib [of bank_regs] if_cancel cong: if_cong)
qed

lemma set_psr_psr: "psr (ia64_set_psr v e) = v"
  by (simp add: ia64_set_psr_def Let_def update_interrupt_fields)

text \<open>
  C30: A PSR write that changes \<^verbatim>\<open>PSR.bn\<close> exchanges r16 to r31 and their NaT bits with the inactive
  bank and touches no other general register; writing the old PSR back restores both banks.
\<close>

theorem set_psr_bank_switch:
  assumes bn: "(psr e XOR v) AND IA64_PSR_BN \<noteq> 0" and r: "r < 128"
  defines "e' \<equiv> ia64_set_psr v e"
  shows "gr e' r = (if 16 \<le> r \<and> r < 32 then banked_gr e (r - 16) else gr e r) \<and>
    bits2_get (nat_bits e') r = (if 16 \<le> r \<and> r < 32 then bit (banked_nat e) (r - 16) else bits2_get (nat_bits e) r) \<and>
    (\<forall>i<16. banked_gr e' i = gr e (16 + i) \<and> bit (banked_nat e') i = bits2_get (nat_bits e) (16 + i)) \<and>
    bank_regs (ia64_set_psr (psr e) e') = bank_regs e"
proof -
  have s: "bank_regs e' = bank_regs (ia64_swap_banked_gr e)" unfolding e'_def set_psr_bank_regs if_P [OF bn] ..
  then have f: "gr e' = gr (ia64_swap_banked_gr e)" "nat_bits e' = nat_bits (ia64_swap_banked_gr e)"
    "banked_gr e' = banked_gr (ia64_swap_banked_gr e)" "banked_nat e' = banked_nat (ia64_swap_banked_gr e)"
    by (simp_all add: bank_regs_def)
  have "(psr e' XOR psr e) AND IA64_PSR_BN \<noteq> 0" using bn unfolding e'_def set_psr_psr by (simp add: xor.commute)
  from if_P [OF this] have "bank_regs (ia64_set_psr (psr e) e') = bank_regs (ia64_swap_banked_gr e')"
    unfolding set_psr_bank_regs by (rule arg_cong)
  also have "\<dots> = bank_regs (ia64_swap_banked_gr (ia64_swap_banked_gr e))" by (rule bank_regs_swap_cong [OF s])
  finally have ret: "bank_regs (ia64_set_psr (psr e) e') = bank_regs e" by (simp only: swap_banked_gr_twice)
  show ?thesis unfolding f swap_banked_gr(1,3,4) swap_banked_gr(2) [OF r] by (simp add: ret)
qed

theorem set_psr_bank_switch_witness:
  "gr (ia64_set_psr IA64_PSR_BN ((env_zero False (\<lambda>_. 0))\<lparr>banked_gr := (\<lambda>i. of_nat i)\<rparr>)) 20 = 4"
  using set_psr_bank_switch [of "(env_zero False (\<lambda>_. 0))\<lparr>banked_gr := (\<lambda>i. of_nat i)\<rparr>" IA64_PSR_BN 20]
  by (simp add: env_zero_def)

section \<open>The protection keys\<close>

text \<open>At most one valid protection key register holds a key.\<close>

definition pkr_unique :: "cpu_class \<Rightarrow> env \<Rightarrow> bool" where
  "pkr_unique c e \<longleftrightarrow> (\<forall>i<16. \<forall>j<16. pkr e i AND 1 \<noteq> 0 \<and> pkr e j AND 1 \<noteq> 0 \<and>
     pkr e i AND ia64_pkr_key_mask c = pkr e j AND ia64_pkr_key_mask c \<longrightarrow> i = j)"

lemma evict_unique:
  fixes K :: "nat \<Rightarrow> 'k" and m :: nat
  assumes u: "\<And>i j. i < m \<Longrightarrow> j < m \<Longrightarrow> V i \<Longrightarrow> V j \<Longrightarrow> K i = K j \<Longrightarrow> i = j"
    and V': "\<And>i. V' i \<longleftrightarrow> (if i = n then vn else V i \<and> \<not> (vn \<and> i < m \<and> K i = kn))"
    and K': "\<And>i. V' i \<Longrightarrow> K' i = (if i = n then kn else K i)"
    and ij: "i < m" "j < m" "V' i" "V' j" "K' i = K' j"
  shows "i = j"
proof (cases "i = n"; cases "j = n")
  assume n: "i = n" "j \<noteq> n"
  then have "vn" "K j = kn" using V' [of i] K' [of i] K' [of j] ij by simp_all
  then show ?thesis using n V' [of j] ij by simp
next
  assume n: "i \<noteq> n" "j = n"
  then have "vn" "K i = kn" using V' [of j] K' [of j] K' [of i] ij by simp_all
  then show ?thesis using n V' [of i] ij by simp
next
  assume n: "i \<noteq> n" "j \<noteq> n"
  then have "V i" "V j" "K i = K j" using V' [of i] V' [of j] K' [of i] K' [of j] ij by simp_all
  then show ?thesis using u ij by blast
qed simp

lemma pkr_evict:
  "fold (pkr_evict_step c n key) xs p =
     (\<lambda>i. if i \<in> set xs \<and> i \<noteq> n \<and> p i AND 1 \<noteq> 0 \<and> p i AND ia64_pkr_key_mask c = key then p i AND NOT 1 else p i)"
proof (induction xs arbitrary: p)
  case (Cons x xs)
  have off: "(p x AND NOT 1) AND 1 = 0" by (rule bit_word_eqI) (auto simp: bit_simps)
  have "fold (pkr_evict_step c n key) (x # xs) p = fold (pkr_evict_step c n key) xs (pkr_evict_step c n key x p)"
    by simp
  then show ?case
    unfolding Cons.IH by (simp only:) (rule ext, use off in \<open>auto simp: pkr_evict_step_def\<close>)
qed simp

text \<open>
  C31: Writing a protection key register keeps the keys of the valid registers distinct: a second
  register with the new key loses its valid bit, and every other register is unchanged.
\<close>

theorem pkr_write_unique:
  fixes v :: u64
  assumes u: "pkr_unique c e" and n: "n < 16"
  defines "e' \<equiv> ia64_pkr_write c n v e"
  shows "pkr_unique c e' \<and> ia64_system_mov_pkrgr_read n e' = v AND ia64_pkr_mask c \<and>
    (\<forall>i<16. i \<noteq> n \<longrightarrow> pkr e' i = pkr e i \<or>
       v AND 1 \<noteq> 0 \<and> pkr e i AND ia64_pkr_key_mask c = v AND ia64_pkr_key_mask c \<and> pkr e' i = pkr e i AND NOT 1)"
proof -
  let ?k = "ia64_pkr_key_mask c" and ?m = "ia64_pkr_mask c"
  let ?key = "(v AND ?m) AND ?k"
  have mk: "?m AND ?k = ?k" "?m AND 1 = 1"
    unfolding ia64_pkr_mask_def ia64_pkr_key_mask_def
    by (rule bit_word_eqI, auto simp: bit_simps)+
  have key: "?key = v AND ?k" by (simp only: and.assoc mk)
  have v1: "(v AND ?m) AND 1 = v AND 1" by (simp only: and.assoc mk)
  have p: "pkr e' = (\<lambda>i. if i = n then v AND ?m
      else if v AND 1 \<noteq> 0 \<and> i < 16 \<and> pkr e i AND 1 \<noteq> 0 \<and> pkr e i AND ?k = v AND ?k then pkr e i AND NOT 1 else pkr e i)"
    using n unfolding e'_def ia64_pkr_write_def Let_def key v1 pkr_evict by (auto simp: fun_eq_iff)
  have off: "(w AND NOT 1) AND 1 = 0" for w :: u64 by (rule bit_word_eqI) (auto simp: bit_simps)
  have valid: "pkr e' i AND 1 \<noteq> 0 \<longleftrightarrow> (if i = n then v AND 1 \<noteq> 0
      else pkr e i AND 1 \<noteq> 0 \<and> \<not> (v AND 1 \<noteq> 0 \<and> i < 16 \<and> pkr e i AND ?k = v AND ?k))" for i
    unfolding p by (simp only: if_distrib [of "\<lambda>w. w AND 1 \<noteq> 0"] v1 off) argo
  have keyof: "pkr e' i AND 1 \<noteq> 0 \<Longrightarrow> pkr e' i AND ?k = (if i = n then v AND ?k else pkr e i AND ?k)" for i
  proof (cases "i = n")
    case True
    then show ?thesis by (simp only: p if_True simp_thms key)
  next
    case False
    assume "pkr e' i AND 1 \<noteq> 0"
    with False have "\<not> (v AND 1 \<noteq> 0 \<and> i < 16 \<and> pkr e i AND 1 \<noteq> 0 \<and> pkr e i AND ?k = v AND ?k)"
      by (simp only: valid if_False) blast
    with False show ?thesis by (simp only: p if_False if_not_P)
  qed
  have "pkr_unique c e'"
    unfolding pkr_unique_def
  proof (intro allI impI, elim conjE)
    fix i j
    assume ij: "i < 16" "j < 16" "pkr e' i AND 1 \<noteq> 0" "pkr e' j AND 1 \<noteq> 0" "pkr e' i AND ?k = pkr e' j AND ?k"
    show "i = j"
      by (rule evict_unique [where m = 16 and V = "\<lambda>i. pkr e i AND 1 \<noteq> 0" and K = "\<lambda>i. pkr e i AND ?k" and
            V' = "\<lambda>i. pkr e' i AND 1 \<noteq> 0" and K' = "\<lambda>i. pkr e' i AND ?k", OF _ valid keyof ij])
        (use u in \<open>unfold pkr_unique_def, blast\<close>)
  qed
  moreover have "ia64_system_mov_pkrgr_read n e' = v AND ?m" using n by (simp add: ia64_system_mov_pkrgr_read_def p)
  ultimately show ?thesis by (simp add: p)
qed

theorem pkr_write_unique_witness:
  "pkr (ia64_pkr_write (\<lparr>model = IA64_CPU_MODEL_MERCED, cpuid_version = 0, cpuid_features = 0, itc_frequency_hz = 1,
     insertable_page_size_mask = 0, phys_addr_bits = 44, impl_va_msb = 50, rid_bits = 18, key_bits = 18,
     perf_counter_width = 32, implemented_pmc_mask = 0, implemented_pmd_mask = 0, rse_has_clean_partition = True,
     has_native_ia32 = True, has_virtualization = False\<rparr>) 3 0x101 (env_zero False (\<lambda>_. 0))) 3 AND 0x101 = 0x101"
  (is "pkr (ia64_pkr_write ?c _ _ _) 3 AND _ = _")
proof -
  have "pkr_unique ?c (env_zero False (\<lambda>_. 0))" by (simp add: pkr_unique_def env_zero_def)
  from pkr_write_unique [OF this, where n = 3 and v = "0x101"] show ?thesis
    by (simp add: ia64_system_mov_pkrgr_read_def ia64_pkr_mask_def ia64_pkr_key_mask_def)
qed


section \<open>The request line\<close>

text \<open>
  \<^verbatim>\<open>CPU_INTERRUPT_HARD\<close> is raised exactly when a machine check, INIT or PMI can be taken or a vector
  is deliverable.  It is a function of the part of the state \<open>line_view\<close>.
\<close>

definition line_exact :: "env \<Rightarrow> bool" where
  "line_exact e \<longleftrightarrow> interrupt_hard e = (sapic_special e \<or> ia64_sapic_has_pending e)"

definition line_view :: "env \<Rightarrow> bool \<times> (nat \<Rightarrow> u64) \<times> (nat \<Rightarrow> u64) \<times> u16 \<times> bool \<times> u64 \<times> u64 \<times> bool \<times> u64" where
  "line_view e = (interrupt_hard e, sapic_irr (intr e), sapic_isr (intr e), sapic_pmi_pending (intr e),
     sapic_init_pending (intr e), cr e 66, psr e AND (IA64_PSR_IC OR IA64_PSR_MC), pal_mca_pending e, pal_pmi_entry e)"

named_theorems line_simps \<open>operations that leave the request line and its inputs alone, or recompute it\<close>

lemma and_part:
  fixes a b m n :: "'a :: len word"
  assumes "a AND m = b AND m" "m AND n = n"
  shows "a AND n = b AND n"
  by (metis assms and.assoc)

lemma line_exact_cong: "line_view e = line_view f \<Longrightarrow> line_exact e = line_exact f"
proof -
  assume v: "line_view e = line_view f"
  then have f: "interrupt_hard e = interrupt_hard f" "sapic_irr (intr e) = sapic_irr (intr f)"
    "sapic_isr (intr e) = sapic_isr (intr f)" "sapic_pmi_pending (intr e) = sapic_pmi_pending (intr f)"
    "sapic_init_pending (intr e) = sapic_init_pending (intr f)" "cr e 66 = cr f 66"
    "psr e AND (IA64_PSR_IC OR IA64_PSR_MC) = psr f AND (IA64_PSR_IC OR IA64_PSR_MC)"
    "pal_mca_pending e = pal_mca_pending f" "pal_pmi_entry e = pal_pmi_entry f"
    by (simp_all add: line_view_def)
  have p: "psr e AND IA64_PSR_IC = psr f AND IA64_PSR_IC" "psr e AND IA64_PSR_MC = psr f AND IA64_PSR_MC"
    by (rule and_part [OF f(7)], simp)+
  have s: "sapic_special e = sapic_special f" unfolding sapic_special_def f p ..
  have i: "sapic_find_isr e = sapic_find_isr f" unfolding sapic_find_isr_def f ..
  have u: "sapic_vector_unmasked e = sapic_vector_unmasked f"
    by (rule ext) (simp only: sapic_vector_unmasked_def i f)
  have "ia64_sapic_has_pending e = ia64_sapic_has_pending f"
    unfolding ia64_sapic_has_pending_def sapic_find_irr_def u f ..
  then show ?thesis unfolding line_exact_def s f by simp
qed

lemma line_exact_update [line_simps]: "line_exact (ia64_sapic_update_interrupt e)"
proof -
  have "sapic_special (ia64_sapic_update_interrupt e) = sapic_special e"
    unfolding sapic_special_def update_interrupt_fields ..
  moreover have "sapic_find_irr (ia64_sapic_update_interrupt e) = sapic_find_irr e"
    by (rule sapic_state_cong) (simp_all add: update_interrupt_fields)
  moreover have "interrupt_hard (ia64_sapic_update_interrupt e) \<longleftrightarrow>
      sapic_special e \<or> sapic_find_irr e \<noteq> IA64_SPURIOUS_VECTOR"
    by (simp add: ia64_sapic_update_interrupt_def)
  ultimately show ?thesis unfolding line_exact_def ia64_sapic_has_pending_def by simp
qed

lemma line_exact_set_irq [line_simps]: "line_exact (ia64_sapic_set_irq_work v e)"
  by (simp add: ia64_sapic_set_irq_work_def line_simps)

lemma line_view_itc [line_simps]:
  "line_view (ia64_itc_sync hz now e) = line_view e"
  "line_view (ia64_itc_advance_pending_itm hz now e) = line_view e"
proof -
  show s: "line_view (ia64_itc_sync hz now e) = line_view e" for e
    by (simp add: ia64_itc_sync_def line_view_def Let_def split: prod.split)
  show "line_view (ia64_itc_advance_pending_itm hz now e) = line_view e"
    unfolding ia64_itc_advance_pending_itm_def Let_def using s [of e] by (simp add: line_view_def)
qed

lemma line_exact_itm_raise: "line_exact e \<Longrightarrow> line_exact (ia64_itm_raise itm e)"
  by (simp add: ia64_itm_raise_def line_simps split: option.split)

lemma line_exact_itm_pending: "line_exact e \<Longrightarrow> line_exact (snd (ia64_itm_update_pending itc itm w e))"
  by (simp add: ia64_itm_update_pending_def Let_def line_exact_itm_raise)


lemma line_exact_keep: "line_exact e \<Longrightarrow> line_view f = line_view e \<Longrightarrow> line_exact f"
  using line_exact_cong by blast

lemma line_exact_itm_update: "line_exact e \<Longrightarrow> line_exact (ia64_itm_update hz now itm e)"
proof -
  assume l: "line_exact e"
  define e1 where "e1 = ia64_itc_advance_pending_itm hz now e"
  have l1: "line_exact e1" using l by (rule line_exact_keep) (simp add: e1_def line_simps)
  obtain p e2 where u: "ia64_itm_update_pending (ar e1 44) itm (itm_armed (intr e) \<and> itm_armed_value (intr e) = itm) e1 = (p, e2)"
    by (rule prod.exhaust)
  have l2: "line_exact e2" using line_exact_itm_pending [OF l1] u by (metis snd_conv)
  show ?thesis
    unfolding ia64_itm_update_def Let_def e1_def [symmetric] u
    by (simp, intro conjI impI; rule line_exact_keep [OF l2]) (simp_all add: line_simps, simp_all add: line_view_def)
qed

lemma line_exact_itm_timer_work: "line_exact e \<Longrightarrow> line_exact (ia64_itm_timer_work hz now e)"
proof -
  assume l: "line_exact e"
  define e1 where "e1 = ia64_itc_advance_pending_itm hz now (e\<lparr>intr := (intr e)\<lparr>itm_armed := False\<rparr>\<rparr>)"
  have "line_view e1 = line_view e" by (simp add: e1_def line_simps) (simp add: line_view_def)
  with l have l1: "line_exact e1" by (rule line_exact_keep)
  obtain p e2 where u: "ia64_itm_update_pending (ar e1 44) (cr e 1) True e1 = (p, e2)" by (rule prod.exhaust)
  have l2: "line_exact e2" using line_exact_itm_pending [OF l1] u by (metis snd_conv)
  show ?thesis
    using l l2 u by (simp add: ia64_itm_timer_work_def Let_def line_exact_itm_update flip: e1_def)
qed

lemma line_exact_itc_check_timer: "line_exact e \<Longrightarrow> line_exact (ia64_itc_check_timer hz now e)"
proof -
  assume l: "line_exact e"
  define e1 where "e1 = ia64_itc_advance_pending_itm hz now e"
  define w where "w = (itm_armed (intr e1) \<and> itm_armed_value (intr e1) = cr e1 1)"
  define e2 where "e2 = (if w \<and> sint (cr e1 1 - ar e1 44) \<le> 0 then e1\<lparr>intr := (intr e1)\<lparr>itm_armed := False\<rparr>\<rparr> else e1)"
  have "line_view e2 = line_view e1" by (simp add: e2_def line_view_def)
  then have "line_view e2 = line_view e" by (simp add: e1_def line_simps)
  with l have l2: "line_exact e2" by (rule line_exact_keep)
  obtain p e3 where u: "ia64_itm_update_pending (ar e2 44) (cr e1 1) w e2 = (p, e3)" by (rule prod.exhaust)
  have l3: "line_exact e3" using line_exact_itm_pending [OF l2] u by (metis snd_conv)
  have "ia64_itc_check_timer hz now e = ia64_itc_advance_pending_itm hz now e3"
    unfolding ia64_itc_check_timer_def Let_def e1_def [symmetric] w_def [symmetric] e2_def [symmetric] u by simp
  then show ?thesis using line_exact_keep [OF l3] by (simp add: line_simps)
qed

lemma line_exact_ops:
  "line_exact e \<Longrightarrow> line_exact (snd (ia64_sapic_accept e))" "line_exact (ia64_sapic_eoi e)"
  "line_exact e \<Longrightarrow> line_exact (snd (ia64_sapic_accept_pmi e))" "line_exact e \<Longrightarrow> line_exact (snd (ia64_sapic_accept_init e))"
  "line_exact (ia64_sapic_set_special_work pmi vector e)" "line_exact e \<Longrightarrow> line_exact (ia64_sapic_set_xtp xtp e)"
proof -
  show "line_exact (ia64_sapic_eoi e)" "line_exact (ia64_sapic_set_special_work pmi vector e)"
    by (simp_all add: ia64_sapic_eoi_def ia64_sapic_set_special_work_def Let_def line_simps)
  assume l: "line_exact e"
  then show "line_exact (snd (ia64_sapic_accept e))" "line_exact (snd (ia64_sapic_accept_pmi e))"
    "line_exact (snd (ia64_sapic_accept_init e))"
    by (simp_all add: ia64_sapic_accept_def ia64_sapic_accept_pmi_def ia64_sapic_accept_init_def Let_def line_simps)
  show "line_exact (ia64_sapic_set_xtp xtp e)"
    using l by (rule line_exact_keep) (simp add: ia64_sapic_set_xtp_def line_view_def)
qed

lemma and_unchanged:
  fixes p v m :: u64
  assumes "(p XOR v) AND m = 0"
  shows "v AND m = p AND m"
proof (rule bit_word_eqI)
  fix n
  have "\<not> bit ((p XOR v) AND m) n" unfolding assms by simp
  then show "bit (v AND m) n = bit (p AND m) n" by (auto simp: bit_and_iff bit_xor_iff)
qed

lemma line_exact_set_psr: "line_exact e \<Longrightarrow> line_exact (ia64_set_psr v e)"
proof -
  assume l: "line_exact e"
  let ?m = "IA64_PSR_I OR IA64_PSR_IC OR IA64_PSR_MC OR IA64_PSR_IS"
  have sw: "line_view (ia64_swap_banked_gr f) = line_view f" for f
    by (subst swap_banked_gr(5)) (simp add: line_view_def)
  have keep: "line_view (f\<lparr>psr := v\<rparr>) = line_view e"
    if "(psr e XOR v) AND ?m = 0" "line_view f = line_view e" for f
  proof -
    have "v AND (IA64_PSR_IC OR IA64_PSR_MC) = psr e AND (IA64_PSR_IC OR IA64_PSR_MC)"
      by (rule and_part [OF and_unchanged [OF that(1)]]) simp
    with that(2) show ?thesis by (simp add: line_view_def)
  qed
  have ex: "line_view (e\<lparr>exception_st := y\<rparr>) = line_view e" for y by (simp add: line_view_def)
  obtain f where f: "line_view f = line_view e"
    and eq: "ia64_set_psr v e = (if (psr e XOR v) AND ?m \<noteq> 0 then ia64_sapic_update_interrupt (f\<lparr>psr := v\<rparr>) else f\<lparr>psr := v\<rparr>)"
    by (rule that [OF _ ia64_set_psr_def [unfolded Let_def]]) (simp only: if_distrib [of line_view] sw ex if_cancel)
  show ?thesis
  proof (cases "(psr e XOR v) AND ?m = 0")
    case True
    with l show ?thesis unfolding eq by (simp only: simp_thms if_False) (rule line_exact_keep [OF l keep [OF True f]])
  next
    case False
    then show ?thesis unfolding eq by (simp only: if_True simp_thms line_exact_update)
  qed
qed

lemma line_exact_write_cr: "line_exact e \<Longrightarrow> line_exact (ia64_write_cr c now n v e)"
proof -
  assume l: "line_exact e"
  have put: "line_exact (e\<lparr>cr := (cr e)(k := w)\<rparr>)" if "k \<noteq> 66" for k w
    using l by (rule line_exact_keep) (use that in \<open>simp add: line_view_def\<close>)
  have cput: "line_exact (cr_put k w e)" if "k \<noteq> 66" for k w
    using l by (rule line_exact_keep) (use that in \<open>simp add: cr_put_def line_view_def\<close>)
  have cmc: "line_exact (ia64_ras_update_cmc f)" if "line_exact f" for f
    using that by (simp add: ia64_ras_update_cmc_def Let_def line_simps)
  have part: "line_exact (if b then x else y)" if "b \<Longrightarrow> line_exact x" "\<not> b \<Longrightarrow> line_exact y" for b x y
    using that by simp
  show ?thesis
    unfolding ia64_write_cr_def Let_def
    by (intro part l line_exact_itm_update put cput cmc line_exact_update line_exact_ops) simp_all
qed


text \<open>
  The steps of a processor that concern its interrupt requests: requests queued by devices and other
  processors, acceptance and end of interrupt, control register and PSR writes, timer events, the raising and
  taking of a machine check and the registration of a PMI entry by firmware.  A write of \<^verbatim>\<open>AR.ITC\<close> and the entry
  of the halt state are sequences of these.  Every other instruction leaves \<open>line_view\<close> alone.
\<close>

inductive request_step :: "cpu_class \<Rightarrow> env \<Rightarrow> env \<Rightarrow> bool" for c :: cpu_class where
  irq: "request_step c e (ia64_sapic_set_irq_work v e)"
| special: "request_step c e (ia64_sapic_set_special_work pmi v e)"
| get_ivr: "request_step c e (snd (ia64_sapic_get_ivr e))"
| accept_pmi: "request_step c e (snd (ia64_sapic_accept_pmi e))"
| accept_init: "request_step c e (snd (ia64_sapic_accept_init e))"
| write_cr: "request_step c e (ia64_write_cr c now n v e)"
| write_psr: "request_step c e (ia64_set_psr v e)"
| read_itc: "request_step c e (snd (ia64_itc_read (itc_frequency_hz c) now e))"
| timer: "request_step c e (ia64_itm_timer_work (itc_frequency_hz c) now e)"
| check_timer: "request_step c e (ia64_itc_check_timer (itc_frequency_hz c) now e)"
| xtp: "request_step c e (ia64_sapic_set_xtp x e)"
| machine_check: "request_step c e (ia64_sapic_update_interrupt (e\<lparr>pal_mca_pending := b, psr := p\<rparr>))"
| pmi_entry: "request_step c e (ia64_sapic_update_interrupt (e\<lparr>pal_pmi_entry := v\<rparr>))"
| other: "line_view f = line_view e \<Longrightarrow> request_step c e f"

lemma line_exact_step: "request_step c e f \<Longrightarrow> line_exact e \<Longrightarrow> line_exact f"
proof (induction rule: request_step.induct)
  case (read_itc e now)
  then show ?case
    by (rule line_exact_keep) (simp add: ia64_itc_read_def Let_def line_simps)
next
  case (other f e)
  from other(2,1) show ?case by (rule line_exact_keep)
next
  case (get_ivr e)
  then show ?case unfolding ia64_sapic_get_ivr_def by (rule line_exact_ops)
qed (rule line_exact_set_irq line_exact_ops line_exact_write_cr line_exact_set_psr line_exact_itm_timer_work
  line_exact_itc_check_timer line_exact_update, assumption?)+

lemma line_exact_zero: "line_exact (env_zero full m)"
proof -
  have "\<not> deliverable (env_zero full m) v" for v
    by (simp add: deliverable_iff active_vectors_def env_zero_def interrupt_state_zero_def sapic_vector_active_def)
  then have "\<not> ia64_sapic_has_pending (env_zero full m)" by (simp add: has_pending_iff)
  then show ?thesis by (simp add: line_exact_def sapic_special_def) (simp add: env_zero_def interrupt_state_zero_def)
qed

text \<open>
  C29: No interrupt is lost: in every state reached from reset by any sequence of requests, accepts,
  end-of-interrupts, PSR and control register writes and timer events, \<^verbatim>\<open>CPU_INTERRUPT_HARD\<close> is
  raised exactly when something can be taken, so a deliverable vector with \<^verbatim>\<open>PSR.i\<close> set always makes
  \<^verbatim>\<open>ia64_cpu_has_work\<close> true, and so does a vector 2 (NMI) whatever \<^verbatim>\<open>PSR.i\<close>.
\<close>

theorem request_line_exact:
  assumes reach: "(request_step c)\<^sup>*\<^sup>* (env_zero full m) e"
  shows "interrupt_hard e = (sapic_special e \<or> (\<exists>v. deliverable e v)) \<and>
    (deliverable e v \<and> (psr e AND IA64_PSR_I \<noteq> 0 \<or> v = 2) \<longrightarrow> ia64_cpu_has_work e)"
proof -
  have l: "line_exact e"
    using reach by (induction rule: rtranclp_induct) (auto intro: line_exact_zero line_exact_step)
  then have h: "interrupt_hard e = (sapic_special e \<or> (\<exists>v. deliverable e v))"
    by (simp add: line_exact_def has_pending_iff)
  have nmi: "sapic_irr (intr e) 0 AND 4 \<noteq> 0" if "deliverable e 2"
    using that by (simp add: deliverable_iff active_vectors_def sapic_vector_active_def)
  show ?thesis
  proof (intro conjI impI, rule h)
    assume d: "deliverable e v \<and> (psr e AND IA64_PSR_I \<noteq> 0 \<or> v = 2)"
    then have "interrupt_hard e" using h by blast
    with d nmi show "ia64_cpu_has_work e" unfolding ia64_cpu_has_work_def Let_def by blast
  qed
qed

theorem request_line_exact_witness:
  "ia64_cpu_has_work (ia64_set_psr IA64_PSR_I (ia64_sapic_set_irq_work 0x40 (env_zero False (\<lambda>_. 0))))"
proof -
  let ?a = "ia64_sapic_set_irq_work 0x40 (env_zero False (\<lambda>_. 0))" and ?c = ia64_cpu_model_madison
  let ?e = "ia64_set_psr IA64_PSR_I ?a"
  have reach: "(request_step ?c)\<^sup>*\<^sup>* (env_zero False (\<lambda>_. 0)) ?e"
    by (rule converse_rtranclp_into_rtranclp, rule irq, rule r_into_rtranclp, rule write_psr)
  have "deliverable ?e 0x40"
    by (simp add: deliverable_iff active_vectors_def vector_valid_def sapic_vector_active_def ia64_set_psr_def Let_def
        ia64_sapic_set_irq_work_def update_interrupt_fields env_zero_def interrupt_state_zero_def bitmap_set_def
        sapic_vector_unmasked_def sapic_find_isr_def sapic_find_highest_normal_def ia64_external_interrupt_vector_valid_def
        sapic_vector_priority_def sapic_vector_priority_class_def)
  moreover have "psr ?e AND IA64_PSR_I \<noteq> 0" unfolding set_psr_psr by simp
  ultimately show ?thesis using request_line_exact [OF reach, where v = "0x40"] by blast
qed

end
