(* ===== verification/Delivery.thy ===== *)
theory Delivery
  imports System_Regs
begin

text \<open>
  Delivery of interruptions (\<^verbatim>\<open>target/ia64/arch/exception.c\<close>): the vector table, collection of the
  interrupted state into the control registers, the decision when an external interrupt is taken.
\<close>

section \<open>What delivery calls outside the modelled code\<close>

text \<open>
  The embedded IA-32 engine, the machine check and power management entries of \<^verbatim>\<open>ras.c\<close>, the
  processor reset, and the handling of a fault by the built-in SAL in place of a guest handler
  (\<^verbatim>\<open>ia64_try_defer_sal_speculative_alt_dtlb\<close>, \<^verbatim>\<open>ia64_try_handle_sal_alt_tlb\<close>,
  \<^verbatim>\<open>ia64_try_emulate_firmware_unaligned\<close>), which returns the state it leaves when it handles the fault.
  \<open>ia32_irq_open\<close> says that the IA-32 interrupt flag and shadow admit an interrupt.
\<close>

record platform =
  pf_class :: cpu_class
  ia32_leave :: "env \<Rightarrow> env"
  ia32_enter :: "env \<Rightarrow> env"
  ia32_virtual_ip :: "env \<Rightarrow> u64"
  ia32_irq_open :: "env \<Rightarrow> bool"
  firmware_handles :: "ia64_exception \<Rightarrow> u64 \<Rightarrow> nat \<Rightarrow> env \<Rightarrow> env option"
  ras_enter_mca :: "env \<Rightarrow> env option"
  ras_enter_init :: "env \<Rightarrow> env option"
  ras_enter_pmi :: "nat \<Rightarrow> env \<Rightarrow> env option"
  reset_cpu :: "env \<Rightarrow> env"

section \<open>The vector table\<close>

fun ia64_ivt_vectors :: "ia64_exception \<Rightarrow> u64" where
  "ia64_ivt_vectors IA64_EXCP_NONE = 0"
| "ia64_ivt_vectors IA64_EXCP_BREAK = 0x2c00"
| "ia64_ivt_vectors IA64_EXCP_ILLEGAL = 0x5400"
| "ia64_ivt_vectors IA64_EXCP_RESERVED_TEMPLATE = 0x5400"
| "ia64_ivt_vectors IA64_EXCP_VHPT_FAULT = 0x0000"
| "ia64_ivt_vectors IA64_EXCP_ITLB_FAULT = 0x0400"
| "ia64_ivt_vectors IA64_EXCP_DTLB_FAULT = 0x0800"
| "ia64_ivt_vectors IA64_EXCP_ALT_ITLB = 0x0c00"
| "ia64_ivt_vectors IA64_EXCP_ALT_DTLB = 0x1000"
| "ia64_ivt_vectors IA64_EXCP_DATA_NESTED_TLB = 0x1400"
| "ia64_ivt_vectors IA64_EXCP_DATA_ACCESS = 0x5300"
| "ia64_ivt_vectors IA64_EXCP_GENERAL = 0x5400"
| "ia64_ivt_vectors IA64_EXCP_NAT_CONSUMPTION = 0x5600"
| "ia64_ivt_vectors IA64_EXCP_EXTINT = 0x3000"
| "ia64_ivt_vectors IA64_EXCP_UNALIGNED = 0x5a00"
| "ia64_ivt_vectors IA64_EXCP_PAGE_NOT_PRESENT = 0x5000"
| "ia64_ivt_vectors IA64_EXCP_INST_ACCESS = 0x5200"
| "ia64_ivt_vectors IA64_EXCP_DATA_DIRTY = 0x2000"
| "ia64_ivt_vectors IA64_EXCP_INST_ACCESS_BIT = 0x2400"
| "ia64_ivt_vectors IA64_EXCP_DATA_ACCESS_BIT = 0x2800"
| "ia64_ivt_vectors IA64_EXCP_INST_KEY_MISS = 0x1800"
| "ia64_ivt_vectors IA64_EXCP_DATA_KEY_MISS = 0x1c00"
| "ia64_ivt_vectors IA64_EXCP_KEY_PERMISSION = 0x5100"
| "ia64_ivt_vectors IA64_EXCP_UNIMPL_DATA_ADDR = 0x5400"
| "ia64_ivt_vectors IA64_EXCP_UNIMPL_INST_ADDR = 0x5e00"
| "ia64_ivt_vectors IA64_EXCP_PRIVILEGED_OP = 0x5400"
| "ia64_ivt_vectors IA64_EXCP_PRIVILEGED_REG = 0x5400"
| "ia64_ivt_vectors IA64_EXCP_RESERVED_REG_FIELD = 0x5400"
| "ia64_ivt_vectors IA64_EXCP_FP_FAULT = 0x5c00"
| "ia64_ivt_vectors IA64_EXCP_FP_TRAP = 0x5d00"
| "ia64_ivt_vectors IA64_EXCP_DISABLED_ISA_TRANSITION = 0x5400"
| "ia64_ivt_vectors IA64_EXCP_DISABLED_FP = 0x5500"
| "ia64_ivt_vectors IA64_EXCP_UNSUPPORTED_DATA_REFERENCE = 0x5b00"
| "ia64_ivt_vectors IA64_EXCP_VIRTUALIZATION = 0x6100"
| "ia64_ivt_vectors IA64_EXCP_IA32_EXCEPTION = 0x6900"
| "ia64_ivt_vectors IA64_EXCP_IA32_INTERCEPT = 0x6a00"
| "ia64_ivt_vectors IA64_EXCP_IA32_INTERRUPT = 0x6b00"
| "ia64_ivt_vectors IA64_EXCP_TAKEN_BRANCH = 0x5f00"
| "ia64_ivt_vectors IA64_EXCP_SINGLE_STEP = 0x6000"
| "ia64_ivt_vectors IA64_EXCP_DEBUG = 0x5900"
| "ia64_ivt_vectors IA64_EXCP_LOWER_PRIVILEGE = 0x5e00"

definition ia64_exception_writes_ifa :: "ia64_exception \<Rightarrow> bool" where
  "ia64_exception_writes_ifa excp \<longleftrightarrow> excp \<in> {IA64_EXCP_VHPT_FAULT, IA64_EXCP_ITLB_FAULT, IA64_EXCP_DTLB_FAULT,
     IA64_EXCP_ALT_ITLB, IA64_EXCP_ALT_DTLB, IA64_EXCP_DATA_ACCESS, IA64_EXCP_INST_ACCESS, IA64_EXCP_INST_KEY_MISS,
     IA64_EXCP_DATA_KEY_MISS, IA64_EXCP_KEY_PERMISSION, IA64_EXCP_DATA_DIRTY, IA64_EXCP_INST_ACCESS_BIT,
     IA64_EXCP_DATA_ACCESS_BIT, IA64_EXCP_NAT_CONSUMPTION, IA64_EXCP_UNALIGNED,
     IA64_EXCP_UNSUPPORTED_DATA_REFERENCE, IA64_EXCP_PAGE_NOT_PRESENT, IA64_EXCP_UNIMPL_DATA_ADDR, IA64_EXCP_DEBUG}"

text \<open>The first switch of \<^verbatim>\<open>ia64_deliver_exception\<close>: the exceptions whose status has been left in \<^verbatim>\<open>CR.ISR\<close>.\<close>

definition exception_keeps_isr :: "ia64_exception \<Rightarrow> bool" where
  "exception_keeps_isr excp \<longleftrightarrow>
     ia64_exception_writes_ifa excp \<or>
     excp \<in> {IA64_EXCP_DATA_NESTED_TLB, IA64_EXCP_UNIMPL_INST_ADDR, IA64_EXCP_PRIVILEGED_OP, IA64_EXCP_PRIVILEGED_REG,
       IA64_EXCP_RESERVED_REG_FIELD, IA64_EXCP_FP_FAULT, IA64_EXCP_FP_TRAP, IA64_EXCP_DISABLED_ISA_TRANSITION,
       IA64_EXCP_DISABLED_FP, IA64_EXCP_IA32_EXCEPTION, IA64_EXCP_IA32_INTERCEPT, IA64_EXCP_IA32_INTERRUPT,
       IA64_EXCP_TAKEN_BRANCH, IA64_EXCP_SINGLE_STEP, IA64_EXCP_LOWER_PRIVILEGE}"

abbreviation (input) IA64_PSR_INTERRUPTION_PRESERVED_MASK :: u64 where
  "IA64_PSR_INTERRUPTION_PRESERVED_MASK \<equiv> IA64_PSR_UP OR IA64_PSR_MFL OR IA64_PSR_MFH OR IA64_PSR_PK OR
     IA64_PSR_DT OR IA64_PSR_RT OR IA64_PSR_MC OR IA64_PSR_IT"

definition ia64_interruption_psr :: "env \<Rightarrow> u64" where
  "ia64_interruption_psr e =
     (let p = psr e AND IA64_PSR_INTERRUPTION_PRESERVED_MASK;
          p1 = (if cr e 0 AND 2 \<noteq> 0 then p OR IA64_PSR_BE else p)
      in if cr e 0 AND 1 \<noteq> 0 then p1 OR IA64_PSR_PP else p1)"

section \<open>Delivery\<close>

text \<open>
  The IA-32 addresses of the interruption: the instruction at fault and the one to return to.
\<close>

definition ia32_addresses :: "platform \<Rightarrow> ia64_exception \<Rightarrow> env \<Rightarrow> u64 \<times> u64" where
  "ia32_addresses pf excp e =
     (let fip = fault_ip (exception_st e) AND 0xffffffff in
      if excp \<in> {IA64_EXCP_IA32_EXCEPTION, IA64_EXCP_IA32_INTERCEPT, IA64_EXCP_IA32_INTERRUPT} then
        (fip, if ia32_trap (exception_st e) then fault_imm (exception_st e) AND 0xffffffff else fip)
      else if excp = IA64_EXCP_EXTINT then (ia32_virtual_ip pf e, ia32_virtual_ip pf e)
      else (fip, fip))"

text \<open>The block of \<^verbatim>\<open>ia64_deliver_exception\<close> under \<open>PSR.ic\<close>.\<close>

definition collect_interruption :: "platform \<Rightarrow> ia64_exception \<Rightarrow> u64 \<Rightarrow> nat \<Rightarrow> bool \<Rightarrow> u64 \<times> u64 \<Rightarrow> env \<Rightarrow> env" where
  "collect_interruption pf excp fault_address slot ia32 ia32_ips e =
     (let x = exception_st e;
          entry_trap = (ia32 \<and> ia32_transition_trap x);
          ipsr = psr e AND NOT IA64_PSR_RI_MASK;
          (ipsr1, iip, iipa) =
            (if entry_trap then (ipsr, fault_ip x, fault_imm x)
             else if ia32 \<or> ia32_transition_trap x then (ipsr, snd ia32_ips, fst ia32_ips)
             else if native_completion_trap x
             then (ipsr OR (psr e AND IA64_PSR_RI_MASK), ia64_ip_bundle_addr (ip e), fault_imm x)
             else (ipsr OR push_bit 41 (of_nat slot AND 3), ia64_ip_bundle_addr (ip e),
                   if excp = IA64_EXCP_FP_TRAP then fault_imm x else last_successful_bundle e));
          e1 = e\<lparr>cr_ipsr := ipsr1, cr_iip := iip, cr := (cr e)(22 := iipa)\<rparr>;
          e2 = (if ia64_exception_writes_ifa excp then e1\<lparr>cr := (cr e1)(20 := fault_address)\<rparr> else e1);
          e3 = e2\<lparr>cr_ifs := 0\<rparr>
      in if excp = IA64_EXCP_BREAK then e3\<lparr>cr := (cr e3)(24 := fault_imm x)\<rparr> else e3)"

definition ia64_deliver_exception :: "platform \<Rightarrow> ia64_exception \<Rightarrow> u64 \<Rightarrow> nat \<Rightarrow> env \<Rightarrow> env" where
  "ia64_deliver_exception pf excp fault_address slot e =
     (if excp = IA64_EXCP_NONE then e
      else
        let ia32 = (psr e AND IA64_PSR_IS \<noteq> 0);
            entry_trap = (ia32 \<and> ia32_transition_trap (exception_st e));
            ia32_ips = ia32_addresses pf excp e;
            e1 = (if ia32 then ia32_leave pf e else e);
            vector = ia64_ivt_vectors excp;
            isr_status = (if exception_keeps_isr excp then cr_isr e1
                          else if excp = IA64_EXCP_EXTINT then (if rse_cfle e1 then 0x4000000000 else 0)
                          else 0);
            inflight = psr_ic_inflight (exception_st e1);
            collected = (psr e1 AND IA64_PSR_IC \<noteq> 0);
            e2 = e1\<lparr>exception_st := (exception_st e1)\<lparr>psr_suppression_before_insn := 0\<rparr>\<rparr>;
            e3 = (if collected then collect_interruption pf excp fault_address slot ia32 ia32_ips e2 else e2);
            isr1 = (if (\<not> ia32 \<or> entry_trap) \<and> slot > 0 then isr_status OR push_bit 41 (of_nat slot AND 3) else isr_status);
            isr2 = (if \<not> collected \<or> inflight then isr1 OR 0x8000000000 else isr1);
            e4 = (if excp \<noteq> IA64_EXCP_DATA_NESTED_TLB then e3\<lparr>cr_isr := isr2\<rparr> else e3);
            e5 = ia64_set_psr (ia64_interruption_psr e4) (e4\<lparr>rse_cfle := False\<rparr>)
        in e5\<lparr>exception_st := (exception_st e5)\<lparr>psr_ic_inflight := False, exception := IA64_EXCP_NONE, ia32_trap := False,
                ia32_transition_trap := False, native_completion_trap := False, psr_before_insn := 0\<rparr>,
              ip := (cr e5 2 AND NOT 0x7fff) OR vector,
              instruction_group_start := True,
              halted := (if excp = IA64_EXCP_EXTINT then False else halted e5),
              intr := (intr e5)\<lparr>pending_extint := 0\<rparr>\<rparr>)"

definition ia64_exception_is_translation_fault :: "ia64_exception \<Rightarrow> bool" where
  "ia64_exception_is_translation_fault excp \<longleftrightarrow> excp \<in> {IA64_EXCP_VHPT_FAULT, IA64_EXCP_ITLB_FAULT,
     IA64_EXCP_DTLB_FAULT, IA64_EXCP_ALT_ITLB, IA64_EXCP_ALT_DTLB, IA64_EXCP_DATA_NESTED_TLB}"

definition ia64_exception_uses_psr_ri_slot :: "ia64_exception \<Rightarrow> u64 \<Rightarrow> bool" where
  "ia64_exception_uses_psr_ri_slot excp isr \<longleftrightarrow>
     excp \<in> {IA64_EXCP_EXTINT, IA64_EXCP_ITLB_FAULT, IA64_EXCP_ALT_ITLB, IA64_EXCP_INST_ACCESS,
       IA64_EXCP_INST_ACCESS_BIT, IA64_EXCP_UNIMPL_INST_ADDR} \<or>
     excp = IA64_EXCP_PAGE_NOT_PRESENT \<and> isr AND 0x100000000 \<noteq> 0"

text \<open>The switch of \<^verbatim>\<open>ia64_cpu_do_interrupt\<close> that chooses the address to report.\<close>

definition interrupt_fault_addr :: "platform \<Rightarrow> ia64_exception \<Rightarrow> bool \<Rightarrow> env \<Rightarrow> u64 \<times> env" where
  "interrupt_fault_addr pf excp entry_trap e =
     (if excp \<in> {IA64_EXCP_BREAK, IA64_EXCP_ILLEGAL, IA64_EXCP_RESERVED_TEMPLATE, IA64_EXCP_PRIVILEGED_OP,
          IA64_EXCP_PRIVILEGED_REG, IA64_EXCP_RESERVED_REG_FIELD, IA64_EXCP_FP_FAULT, IA64_EXCP_FP_TRAP,
          IA64_EXCP_DISABLED_ISA_TRANSITION, IA64_EXCP_DISABLED_FP, IA64_EXCP_IA32_EXCEPTION,
          IA64_EXCP_IA32_INTERCEPT, IA64_EXCP_IA32_INTERRUPT, IA64_EXCP_TAKEN_BRANCH, IA64_EXCP_SINGLE_STEP,
          IA64_EXCP_LOWER_PRIVILEGE}
      then (fault_ip (exception_st e), e)
      else if excp = IA64_EXCP_UNALIGNED then (fault_addr (exception_st e), e)
      else if excp = IA64_EXCP_UNIMPL_INST_ADDR then
        (if entry_trap \<or> native_completion_trap (exception_st e) then (fault_ip (exception_st e), e)
         else
           let a = (if psr e AND IA64_PSR_IT \<noteq> 0 then ia64_va_canonicalize (pf_class pf) (ip e)
                    else ia64_pa_canonicalize (pf_class pf) (ip e))
           in (a, e\<lparr>ip := a\<rparr>))
      else (cr e 20, e))"

definition ia64_cpu_do_interrupt :: "platform \<Rightarrow> env \<Rightarrow> env" where
  "ia64_cpu_do_interrupt pf e0 =
     (let excp = exception_index e0 in
      if excp = IA64_EXCP_NONE then e0
      else
        let e = e0\<lparr>exception_st := (exception_st e0)\<lparr>fault_exception := excp\<rparr>\<rparr>;
            entry_trap = (psr e AND IA64_PSR_IS \<noteq> 0 \<and> ia32_transition_trap (exception_st e))
        in if psr e AND IA64_PSR_IC = 0 \<and> \<not> ia64_exception_is_translation_fault excp \<and> cr e 2 = 0 \<and>
              excp \<in> {IA64_EXCP_BREAK, IA64_EXCP_ILLEGAL, IA64_EXCP_RESERVED_TEMPLATE, IA64_EXCP_PRIVILEGED_OP,
                IA64_EXCP_PRIVILEGED_REG, IA64_EXCP_RESERVED_REG_FIELD, IA64_EXCP_DISABLED_ISA_TRANSITION,
                IA64_EXCP_DISABLED_FP}
           then (if excp = IA64_EXCP_BREAK then e\<lparr>halted := True, exception_index := IA64_EXCP_NONE\<rparr>
                 else e\<lparr>ip := fault_ip (exception_st e)\<rparr>)
           else
             let (fault_address, e1) = interrupt_fault_addr pf excp entry_trap e;
                 slot = (if entry_trap then fault_slot (exception_st e1)
                         else if psr e1 AND IA64_PSR_IS \<noteq> 0 then 0
                         else if \<not> native_completion_trap (exception_st e1) \<and>
                                 ia64_exception_uses_psr_ri_slot excp (cr_isr e1)
                         then unat (drop_bit 41 (psr e1 AND IA64_PSR_RI_MASK))
                         else fault_slot (exception_st e1))
             in case firmware_handles pf excp fault_address slot e1 of
                  Some e2 \<Rightarrow> e2\<lparr>exception_index := IA64_EXCP_NONE\<rparr>
                | None \<Rightarrow>
                    let e2 = (if excp = IA64_EXCP_EXTINT then
                                (if ia64_sapic_has_pending e1 then
                                   let d = ia64_deliver_exception pf excp fault_address slot e1
                                   in d\<lparr>intr := (intr d)\<lparr>pending_extint := 0\<rparr>\<rparr>
                                 else e1)
                              else ia64_deliver_exception pf excp fault_address slot e1)
                    in e2\<lparr>exception_index := IA64_EXCP_NONE\<rparr>)"

section \<open>When an external interrupt is taken\<close>

definition ia64_external_interrupt_enabled :: "platform \<Rightarrow> env \<Rightarrow> bool" where
  "ia64_external_interrupt_enabled pf e \<longleftrightarrow>
     (let nmi_pending = (sapic_irr (intr e) 0 AND 4 \<noteq> 0) in
      if \<not> nmi_pending \<and> psr_i_deferred (exception_st e) then False
      else if psr e AND IA64_PSR_IS \<noteq> 0 \<and> \<not> nmi_pending
      then psr e AND IA64_PSR_I \<noteq> 0 \<and> ia32_irq_open pf e
      else psr e AND IA64_PSR_I \<noteq> 0 \<or> nmi_pending)"

definition ia64_rse_interrupt_window :: "platform \<Rightarrow> env \<Rightarrow> unit outcome" where
  "ia64_rse_interrupt_window pf e =
     (if \<not> interrupt_hard e \<or> \<not> ia64_external_interrupt_enabled pf e \<or> \<not> ia64_sapic_has_pending e then Inr ((), e)
      else Inl (Stop_interrupt, ia64_cpu_do_interrupt pf (e\<lparr>exception_index := IA64_EXCP_EXTINT\<rparr>)))"

definition ia64_cpu_exec_interrupt :: "platform \<Rightarrow> env \<Rightarrow> bool \<times> env" where
  "ia64_cpu_exec_interrupt pf e =
     (let rse_frame_complete = (\<not> rse_cfle e \<and> rse_dirty e \<ge> 0 \<and> rse_dirty_nat e \<ge> 0);
          external = (\<lambda>f. if ia64_external_interrupt_enabled pf f \<and> ia64_sapic_has_pending f
                          then (True, ia64_cpu_do_interrupt pf (f\<lparr>exception_index := IA64_EXCP_EXTINT\<rparr>))
                          else (False, f));
          after_mca =
            (if ia64_sapic_has_init e \<and> psr e AND IA64_PSR_MC = 0 then
               (case ras_enter_init pf e of
                  Some f \<Rightarrow> (True, f)
                | None \<Rightarrow> (True, reset_cpu pf (snd (ia64_sapic_accept_init e))))
             else if ia64_sapic_has_pmi e \<and> psr e AND IA64_PSR_IC \<noteq> 0 \<and> pal_pmi_entry e \<noteq> 0 then
               let (vector, e1) = ia64_sapic_accept_pmi e
               in if vector \<ge> 0 then
                    (case ras_enter_pmi pf (nat vector) e1 of
                       Some f \<Rightarrow> (True, f)
                     | None \<Rightarrow> external (ia64_sapic_update_interrupt
                         (e1\<lparr>intr := (intr e1)\<lparr>sapic_pmi_pending := sapic_pmi_pending (intr e1) OR push_bit (nat vector) 1\<rparr>\<rparr>)))
                  else external e1
             else external e)
      in if \<not> interrupt_hard e \<or> \<not> rse_frame_complete then (False, e)
         else if pal_mca_pending e then
           (case ras_enter_mca pf e of Some f \<Rightarrow> (True, f) | None \<Rightarrow> after_mca)
         else after_mca)"

end
