(* ===== verification/Rse_Engine.thy ===== *)
theory Rse_Engine
  imports Rse_Map Delivery
begin

text \<open>
  The register stack engine of \<^verbatim>\<open>target/ia64/arch/rse.c\<close>: its memory references (with the stores of
  \<^verbatim>\<open>exec-access.c\<close>), one mandatory store, one mandatory load, and the loops that repeat them.  A memory
  reference can fault and every completed one opens an interrupt window, so the operations return an
  outcome; when they stop, the state is the one the handler finds.
\<close>

section \<open>Memory references\<close>

text \<open>
  What a reference consults outside the modelled code: the data breakpoint check and the translation
  for the given direction and address, each with the state after it has raised a fault; whether the
  page is writable RAM; the physical address and the samples that the ALAT store protocol takes.
\<close>

record machine =
  m_platform :: platform
  data_debug :: "bool \<Rightarrow> u64 \<Rightarrow> env \<Rightarrow> (ia64_exception \<times> env) option"
  access_fault :: "bool \<Rightarrow> u64 \<Rightarrow> env \<Rightarrow> (ia64_exception \<times> env) option"
  writable_ram :: "u64 \<Rightarrow> env \<Rightarrow> bool"
  alat_xlat :: "env \<Rightarrow> u64 \<Rightarrow> u64 option"
  alat_window :: "env \<Rightarrow> window_sample"
  alat_gen :: "env \<Rightarrow> gen_sample"

abbreviation m_class :: "machine \<Rightarrow> cpu_class" where
  "m_class m \<equiv> pf_class (m_platform m)"

definition bswap64 :: "u64 \<Rightarrow> u64" where
  "bswap64 x = fold (\<lambda>i r. r OR push_bit (8 * (7 - i)) (drop_bit (8 * i) x AND 0xff)) [0..<8] 0"

definition rse_big_endian :: "env \<Rightarrow> bool" where
  "rse_big_endian e \<longleftrightarrow> ar_rsc e AND 0x10 \<noteq> 0"

text \<open>The memory word in the byte order of \<^verbatim>\<open>RSC.be\<close>.\<close>

definition rse_order :: "bool \<Rightarrow> u64 \<Rightarrow> u64" where
  "rse_order be w = (if be then bswap64 w else w)"

text \<open>\<^verbatim>\<open>ia64_cpu_exec_longjmp_cleanup\<close>, which runs whenever an operation unwinds.\<close>

definition ia64_cpu_exec_longjmp_cleanup :: "machine \<Rightarrow> env \<Rightarrow> env" where
  "ia64_cpu_exec_longjmp_cleanup m e =
     (case ia64_alat_write_abort (alat_xlat m e) (alat_window m e) (alat_gen m e) (alat_st e, alat_write_sequence e) of
        None \<Rightarrow> e
      | Some (s, sq) \<Rightarrow> e\<lparr>alat_st := s, alat_write_sequence := sq\<rparr>)"

definition mem_raise :: "machine \<Rightarrow> ia64_exception \<times> env \<Rightarrow> 'a outcome" where
  "mem_raise m = (\<lambda>(x, e). Inl (Stop_exception x, ia64_cpu_exec_longjmp_cleanup m e))"

definition ia64_rse_check_data_debug :: "machine \<Rightarrow> u64 \<Rightarrow> bool \<Rightarrow> env \<Rightarrow> unit outcome" where
  "ia64_rse_check_data_debug m addr is_write e =
     (case data_debug m is_write addr e of Some x \<Rightarrow> mem_raise m x | None \<Rightarrow> Inr ((), e))"

definition ia64_exec_load_mmuidx :: "machine \<Rightarrow> u64 \<Rightarrow> bool \<Rightarrow> env \<Rightarrow> u64 outcome" where
  "ia64_exec_load_mmuidx m addr be e =
     (case access_fault m False addr e of Some x \<Rightarrow> mem_raise m x | None \<Rightarrow> Inr (rse_order be (mem e addr), e))"

definition alat_begin :: "env \<Rightarrow> unit outcome" where
  "alat_begin e =
     (case ia64_alat_write_begin (alat_st e, alat_write_sequence e) of
        None \<Rightarrow> Inl (Stop_assert, e)
      | Some (s, sq) \<Rightarrow> Inr ((), e\<lparr>alat_st := s, alat_write_sequence := sq\<rparr>))"

definition alat_end :: "machine \<Rightarrow> u64 \<Rightarrow> u32 \<Rightarrow> env \<Rightarrow> unit outcome" where
  "alat_end m addr sz e =
     (case ia64_alat_write_end (alat_xlat m e) (alat_window m e) (alat_gen m e) addr sz (alat_st e, alat_write_sequence e) of
        None \<Rightarrow> Inl (Stop_assert, e)
      | Some (s, sq) \<Rightarrow> Inr ((), e\<lparr>alat_st := s, alat_write_sequence := sq\<rparr>))"

definition ia64_exec_store_mmuidx :: "machine \<Rightarrow> u64 \<Rightarrow> u64 \<Rightarrow> bool \<Rightarrow> env \<Rightarrow> unit outcome" where
  "ia64_exec_store_mmuidx m addr value be e =
     (let full = alat_full (alat_st e) in
      run_bind (if full then alat_begin e else Inr ((), e)) (\<lambda>_ e1.
        case access_fault m True addr e1 of
          Some x \<Rightarrow> mem_raise m x
        | None \<Rightarrow>
            let e2 = e1\<lparr>mem := (mem e1)(addr := rse_order be value)\<rparr>
            in if full then alat_end m addr 8 e2 else Inr ((), e2)))"

definition ia64_exec_rse_store_collection :: "machine \<Rightarrow> u64 \<Rightarrow> u64 \<Rightarrow> u64 \<Rightarrow> bool \<Rightarrow> env \<Rightarrow> u64 outcome" where
  "ia64_exec_rse_store_collection m addr value0 defined0 be e =
     (if addr AND 7 \<noteq> 0 then Inl (Stop_assert, e)
      else
        let defined = defined0 AND rnat_mask;
            value = value0 AND defined
        in if defined = rnat_mask then
             run_bind (ia64_exec_store_mmuidx m addr value be e) (\<lambda>_ e1. Inr (value, e1))
           else
             case access_fault m True addr e of
               Some x \<Rightarrow> mem_raise m x
             | None \<Rightarrow>
                 let old = (if writable_ram m addr e then rse_order be (mem e addr) else 0);
                     stored = ((old AND NOT defined) OR value) AND rnat_mask
                 in run_bind (ia64_exec_store_mmuidx m addr stored be e) (\<lambda>_ e1. Inr (stored, e1)))"

definition ia64_rse_access_begin :: "env \<Rightarrow> env" where
  "ia64_rse_access_begin e = e\<lparr>rse_access := True\<rparr>"

definition ia64_rse_access_end :: "env \<Rightarrow> env" where
  "ia64_rse_access_end e = e\<lparr>rse_access := False\<rparr>"

definition ia64_rse_complete_memory_reference :: "env \<Rightarrow> env" where
  "ia64_rse_complete_memory_reference e = e\<lparr>psr := psr e AND NOT (IA64_PSR_DA OR IA64_PSR_DD)\<rparr>"

definition ia64_rse_write_u64 :: "machine \<Rightarrow> u64 \<Rightarrow> u64 \<Rightarrow> env \<Rightarrow> unit outcome" where
  "ia64_rse_write_u64 m addr value e =
     run_bind (ia64_rse_check_data_debug m addr True e) (\<lambda>_ e1.
     run_bind (ia64_exec_store_mmuidx m addr value (rse_big_endian e1) (ia64_rse_access_begin e1)) (\<lambda>_ e2.
       Inr ((), ia64_rse_complete_memory_reference (ia64_rse_access_end e2))))"

definition ia64_rse_write_collection :: "machine \<Rightarrow> u64 \<Rightarrow> u64 \<Rightarrow> u64 \<Rightarrow> env \<Rightarrow> u64 outcome" where
  "ia64_rse_write_collection m addr value defined e =
     run_bind (ia64_rse_check_data_debug m addr True e) (\<lambda>_ e1.
     run_bind (ia64_exec_rse_store_collection m addr value defined (rse_big_endian e1) (ia64_rse_access_begin e1))
       (\<lambda>stored e2. Inr (stored, ia64_rse_complete_memory_reference (ia64_rse_access_end e2))))"

definition ia64_rse_read_u64 :: "machine \<Rightarrow> u64 \<Rightarrow> env \<Rightarrow> u64 outcome" where
  "ia64_rse_read_u64 m addr e =
     run_bind (ia64_rse_check_data_debug m addr False e) (\<lambda>_ e1.
     run_bind (ia64_exec_load_mmuidx m addr (rse_big_endian e1) (ia64_rse_access_begin e1)) (\<lambda>value e2.
       Inr (value, ia64_rse_complete_memory_reference (ia64_rse_access_end e2))))"

section \<open>One mandatory store\<close>

text \<open>The result says whether a register was stored, rather than a NaT collection.\<close>

definition rse_store_nat :: "machine \<Rightarrow> u64 \<Rightarrow> env \<Rightarrow> bool outcome" where
  "rse_store_nat m bspstore e =
     (let collection_addr = ia64_rse_collect_word bspstore;
          image = rse_writeback_rnat (rnat e);
          spill_defined = rse_rnat_defined (rnat e) AND rnat_mask;
          spill = ar_rnat (rnat e) AND spill_defined;
          hit = (re_valid image \<and> re_addr image = collection_addr);
          saved_defined = re_defined image AND rnat_mask;
          value = (if hit then (re_value image AND saved_defined AND NOT spill_defined) OR spill else spill);
          defined = (if hit then spill_defined OR saved_defined else spill_defined)
      in run_bind (ia64_rse_write_collection m bspstore value defined e) (\<lambda>collection e1.
           let s = rnat e1;
               s1 = (if hit then ia64_rse_rnat_writeback_clear s else s);
               s2 = ia64_rse_rnat_shadow_remove collection_addr s1;
               s3 = ia64_rse_load_rnat_stash collection_addr s2;
               s4 = s3\<lparr>rse_load_rnat := collection, rse_load_rnat_addr := collection_addr,
                       rse_load_rnat_defined := rnat_mask, rse_load_rnat_valid := True,
                       ar_rnat := 0, rse_rnat_addr := - 1, rse_rnat_defined := 0\<rparr>
           in Inr (False, e1\<lparr>rnat := s4, ar_bspstore := bspstore + 8, rse_dirty_nat := rse_dirty_nat e1 - 1,
                rse_clean_nat := (if rse_has_clean_partition (m_class m) then rse_clean_nat e1 + 1 else rse_clean_nat e1)\<rparr>)))"

definition rse_store_register :: "machine \<Rightarrow> u64 \<Rightarrow> env \<Rightarrow> bool outcome" where
  "rse_store_register m bspstore e =
     (let p = ia64_rse_wrap_phys (int (rse_bol e) - rse_dirty e);
          b = push_bit (unat (ia64_rse_collect_bit bspstore)) 1
      in run_bind (ia64_rse_write_u64 m bspstore (rse_pgr e p) e) (\<lambda>_ e1.
           let s = rnat e1;
               s1 = s\<lparr>ar_rnat := (if ia64_rse_pgr_nat_get e1 p then ar_rnat s OR b else ar_rnat s AND NOT b),
                      rse_rnat_defined := rse_rnat_defined s OR b\<rparr>;
               clean = rse_has_clean_partition (m_class m)
           in Inr (True, e1\<lparr>rnat := s1, ar_bspstore := bspstore + 8, rse_dirty := rse_dirty e1 - 1,
                rse_clean := (if clean then rse_clean e1 + 1 else rse_clean e1),
                rse_invalid := (if clean then rse_invalid e1 else rse_invalid e1 + 1)\<rparr>)))"

definition ia64_rse_store_one :: "machine \<Rightarrow> env \<Rightarrow> bool outcome" where
  "ia64_rse_store_one m e0 =
     (let bspstore = ar_bspstore e0;
          e = e0\<lparr>rnat := ia64_rse_rnat_bind (ia64_rse_collect_word bspstore) (rnat e0)\<rparr>
      in if ia64_rse_collect_bit bspstore = 63 then rse_store_nat m bspstore e else rse_store_register m bspstore e)"

section \<open>One mandatory load\<close>

definition ia64_rse_fill_collection :: "machine \<Rightarrow> u64 \<Rightarrow> env \<Rightarrow> u64 outcome" where
  "ia64_rse_fill_collection m addr e =
     (let collection_addr = ia64_rse_collect_word addr;
          latched = (rse_load_rnat_valid (rnat e) \<and> rse_load_rnat_addr (rnat e) = collection_addr)
      in run_bind
           (if latched then
              let defined = rse_load_rnat_defined (rnat e) AND rnat_mask
              in Inr ((rse_load_rnat (rnat e) AND defined, defined), e)
            else if ar_bspstore e > collection_addr then
              run_bind (ia64_rse_read_u64 m collection_addr e) (\<lambda>w e1. Inr ((w AND rnat_mask, rnat_mask), e1))
            else Inr ((0, 0), e))
           (\<lambda>base e1.
             let s = fst (ia64_rse_rnat_shadow_find collection_addr (rnat e1));
                 (value, defined) =
                   rnat_spill_overlay s collection_addr (ia64_rse_rnat_shadow_overlay s collection_addr base);
                 collection = value AND (defined AND rnat_mask);
                 s1 = ia64_rse_load_rnat_stash collection_addr s;
                 s2 = s1\<lparr>rse_load_rnat := collection, rse_load_rnat_addr := collection_addr,
                         rse_load_rnat_defined := defined, rse_load_rnat_valid := True\<rparr>
             in Inr (collection, e1\<lparr>rnat := s2\<rparr>)))"

definition ia64_rse_load_one :: "machine \<Rightarrow> u64 \<Rightarrow> env \<Rightarrow> bool outcome" where
  "ia64_rse_load_one m bspload e =
     (let ncb = ia64_rse_collect_bit bspload in
      if ncb = 63 then
        run_bind (ia64_rse_read_u64 m bspload e) (\<lambda>w e1.
          let s = ia64_rse_load_rnat_stash (ia64_rse_collect_word bspload) (rnat e1);
              s1 = s\<lparr>rse_load_rnat := w AND rnat_mask, rse_load_rnat_addr := ia64_rse_collect_word bspload,
                     rse_load_rnat_defined := rnat_mask, rse_load_rnat_valid := True\<rparr>
          in Inr (False, e1\<lparr>rnat := s1, rse_clean_nat := rse_clean_nat e1 + 1\<rparr>))
      else
        run_bind (ia64_rse_read_u64 m bspload e) (\<lambda>value e1.
          let p = ia64_rse_wrap_phys (int (rse_bol e1) - (rse_clean e1 + rse_dirty e1 + 1))
          in run_bind (ia64_rse_fill_collection m bspload e1) (\<lambda>collection e2.
               let n = (drop_bit (unat ncb) collection AND 1 \<noteq> 0);
                   v = ia64_rse_phys_to_virt e2 p;
                   e3 = ia64_rse_pgr_nat_set p n (e2\<lparr>rse_pgr := (rse_pgr e2)(p := value)\<rparr>);
                   e4 = e3\<lparr>rse_clean := rse_clean e3 + 1, rse_invalid := rse_invalid e3 - 1\<rparr>
               in Inr (True,
                    if v < cfm_sof e4
                    then ia64_gr_nat_set (32 + v) (ia64_rse_pgr_nat_get e4 p) (e4\<lparr>gr := (gr e4)(32 + v := value)\<rparr>)
                    else e4))))"


section \<open>What a completed reference changes\<close>

lemma check_data_debug_Inr: "ia64_rse_check_data_debug m a w e = Inr (x, e') \<Longrightarrow> e' = e"
  by (auto simp: ia64_rse_check_data_debug_def mem_raise_def split: option.splits prod.splits)

lemma exec_store_Inr:
  assumes "ia64_exec_store_mmuidx m a v be e = Inr (x, e')"
  obtains s q where "e' = e\<lparr>mem := (mem e)(a := rse_order be v), alat_st := s, alat_write_sequence := q\<rparr>"
proof (cases "alat_full (alat_st e)")
  case True
  with assms obtain e1 where b: "alat_begin e = Inr ((), e1)"
    and r: "(case access_fault m True a e1 of Some x \<Rightarrow> mem_raise m x
      | None \<Rightarrow> alat_end m a 8 (e1\<lparr>mem := (mem e1)(a := rse_order be v)\<rparr>)) = Inr (x, e')"
    by (auto simp: ia64_exec_store_mmuidx_def Let_def run_bind_Inr cong: option.case_cong)
  from b obtain s q where e1: "e1 = e\<lparr>alat_st := s, alat_write_sequence := q\<rparr>"
    by (auto simp: alat_begin_def split: option.splits)
  from r have "alat_end m a 8 (e1\<lparr>mem := (mem e1)(a := rse_order be v)\<rparr>) = Inr (x, e')"
    by (auto simp: mem_raise_def split: option.splits prod.splits)
  then obtain s' q' where "e' = e1\<lparr>mem := (mem e1)(a := rse_order be v), alat_st := s', alat_write_sequence := q'\<rparr>"
    by (auto simp: alat_end_def split: option.splits)
  with e1 that show ?thesis by simp
next
  case False
  with assms have "e' = e\<lparr>mem := (mem e)(a := rse_order be v)\<rparr>"
    by (auto simp: ia64_exec_store_mmuidx_def Let_def mem_raise_def split: option.splits prod.splits)
  then have "e' = e\<lparr>mem := (mem e)(a := rse_order be v), alat_st := alat_st e, alat_write_sequence := alat_write_sequence e\<rparr>"
    by simp
  with that show ?thesis by blast
qed

text \<open>The state after a reference, up to the ALAT bookkeeping.\<close>

definition referenced :: "(u64 \<Rightarrow> u64) \<Rightarrow> alat_state \<Rightarrow> u64 \<Rightarrow> env \<Rightarrow> env" where
  "referenced mm s q e = e\<lparr>mem := mm, alat_st := s, alat_write_sequence := q, rse_access := False,
     psr := psr e AND NOT (IA64_PSR_DA OR IA64_PSR_DD)\<rparr>"

lemma write_u64_Inr:
  assumes "ia64_rse_write_u64 m a v e = Inr (x, e')"
  obtains s q where "e' = referenced ((mem e)(a := rse_order (rse_big_endian e) v)) s q e"
proof -
  from assms obtain e2 where st: "ia64_exec_store_mmuidx m a v (rse_big_endian e) (ia64_rse_access_begin e) = Inr ((), e2)"
    and e': "e' = ia64_rse_complete_memory_reference (ia64_rse_access_end e2)"
    by (auto simp: ia64_rse_write_u64_def run_bind_Inr dest!: check_data_debug_Inr)
  from st obtain s q where "e2 = (ia64_rse_access_begin e)\<lparr>mem := (mem (ia64_rse_access_begin e))(a := rse_order (rse_big_endian e) v),
      alat_st := s, alat_write_sequence := q\<rparr>" by (rule exec_store_Inr)
  then show ?thesis
    using that [of s q] by (simp add: e' referenced_def ia64_rse_access_begin_def ia64_rse_access_end_def
        ia64_rse_complete_memory_reference_def)
qed

lemma read_u64_Inr:
  assumes "ia64_rse_read_u64 m a e = Inr (w, e')"
  shows "w = rse_order (rse_big_endian e) (mem e a) \<and> e' = referenced (mem e) (alat_st e) (alat_write_sequence e) e"
  using assms by (auto simp: ia64_rse_read_u64_def run_bind_Inr ia64_exec_load_mmuidx_def mem_raise_def referenced_def
      ia64_rse_access_begin_def ia64_rse_access_end_def ia64_rse_complete_memory_reference_def
      split: option.splits prod.splits dest!: check_data_debug_Inr)

text \<open>
  The collection that reaches memory: the defined bits of the value, elsewhere the bits already
  there (zero outside writable RAM), bit 63 clear.
\<close>

definition merged_collection :: "machine \<Rightarrow> u64 \<Rightarrow> u64 \<Rightarrow> u64 \<Rightarrow> env \<Rightarrow> u64 \<Rightarrow> bool" where
  "merged_collection m a v d e c \<longleftrightarrow> c AND rnat_mask = c \<and>
     (\<forall>i<63. bit c i = (if bit d i then bit v i
        else writable_ram m a (ia64_rse_access_begin e) \<and> bit (rse_order (rse_big_endian e) (mem e a)) i))"

lemma write_collection_Inr:
  assumes "ia64_rse_write_collection m a v d e = Inr (c, e')"
  obtains s q where "e' = referenced ((mem e)(a := rse_order (rse_big_endian e) c)) s q e"
    "merged_collection m a v d e c" "a AND 7 = 0"
proof -
  let ?b = "ia64_rse_access_begin e" and ?be = "rse_big_endian e" and ?d = "d AND rnat_mask"
  from assms obtain e2 where st: "ia64_exec_rse_store_collection m a v d ?be ?b = Inr (c, e2)"
    and e': "e' = ia64_rse_complete_memory_reference (ia64_rse_access_end e2)"
    by (auto simp: ia64_rse_write_collection_def run_bind_Inr dest!: check_data_debug_Inr)
  have mb: "mem ?b = mem e" by (simp add: ia64_rse_access_begin_def)
  from st have al: "a AND 7 = 0" by (auto simp: ia64_exec_rse_store_collection_def split: if_splits)
  have "ia64_exec_store_mmuidx m a c ?be ?b = Inr ((), e2) \<and>
    (c = v AND ?d \<and> ?d = rnat_mask \<or>
     c = (((if writable_ram m a ?b then rse_order ?be (mem ?b a) else 0) AND NOT ?d) OR (v AND ?d)) AND rnat_mask)"
    using st al by (auto simp: ia64_exec_rse_store_collection_def Let_def run_bind_Inr mem_raise_def
        split: if_splits option.splits prod.splits)
  then have st2: "ia64_exec_store_mmuidx m a c ?be ?b = Inr ((), e2)"
    and c: "c = v AND ?d \<and> ?d = rnat_mask \<or>
     c = (((if writable_ram m a ?b then rse_order ?be (mem e a) else 0) AND NOT ?d) OR (v AND ?d)) AND rnat_mask"
    using mb by (blast, metis)
  from st2 obtain s q where "e2 = ?b\<lparr>mem := (mem ?b)(a := rse_order ?be c), alat_st := s, alat_write_sequence := q\<rparr>"
    by (rule exec_store_Inr)
  then have ref: "e' = referenced ((mem e)(a := rse_order ?be c)) s q e"
    by (simp add: e' referenced_def ia64_rse_access_begin_def ia64_rse_access_end_def ia64_rse_complete_memory_reference_def)
  have "merged_collection m a v d e c"
    unfolding merged_collection_def
  proof (intro conjI allI impI)
    show "c AND rnat_mask = c" using c by (auto simp: and.assoc)
    fix i :: nat
    assume i: "i < 63"
    then have rm: "bit rnat_mask i" by (simp only: bit_rnat_mask)
    from c show "bit c i = (if bit d i then bit v i else writable_ram m a ?b \<and> bit (rse_order ?be (mem e a)) i)"
    proof
      assume "c = v AND ?d \<and> ?d = rnat_mask"
      then show ?thesis using rm by (metis bit_and_iff)
    next
      assume "c = (((if writable_ram m a ?b then rse_order ?be (mem e a) else 0) AND NOT ?d) OR (v AND ?d)) AND rnat_mask"
      then have "bit c i \<longleftrightarrow> writable_ram m a ?b \<and> bit (rse_order ?be (mem e a)) i \<and> \<not> bit d i \<or> bit v i \<and> bit d i"
        using rm i by (cases "writable_ram m a ?b") (simp_all only: bit_and_iff bit_or_iff bit_not_iff if_True if_False, auto)
      then show ?thesis by auto
    qed
  qed
  with ref al that show ?thesis by blast
qed


text \<open>The two successful outcomes of a mandatory store.\<close>

definition spill_set :: "u64 \<Rightarrow> bool \<Rightarrow> rnat_state \<Rightarrow> rnat_state" where
  "spill_set a n s =
     (let b = push_bit (unat (ia64_rse_collect_bit a)) 1
      in s\<lparr>ar_rnat := (if n then ar_rnat s OR b else ar_rnat s AND NOT b), rse_rnat_defined := rse_rnat_defined s OR b\<rparr>)"

definition spill_retire :: "u64 \<Rightarrow> u64 \<Rightarrow> rnat_state \<Rightarrow> rnat_state" where
  "spill_retire a c s =
     (let image = rse_writeback_rnat s;
          s1 = (if re_valid image \<and> re_addr image = a then ia64_rse_rnat_writeback_clear s else s);
          s2 = ia64_rse_load_rnat_stash a (ia64_rse_rnat_shadow_remove a s1)
      in s2\<lparr>rse_load_rnat := c, rse_load_rnat_addr := a, rse_load_rnat_defined := rnat_mask,
            rse_load_rnat_valid := True, ar_rnat := 0, rse_rnat_addr := - 1, rse_rnat_defined := 0\<rparr>)"

lemma store_one_register:
  assumes st: "ia64_rse_store_one m e = Inr (r, e')" and reg: "ia64_rse_collect_bit (ar_bspstore e) \<noteq> 63"
  defines "p \<equiv> ia64_rse_wrap_phys (int (rse_bol e) - rse_dirty e)" and "cp \<equiv> rse_has_clean_partition (m_class m)"
  obtains s q where "r"
    "e' = (referenced ((mem e)(ar_bspstore e := rse_order (rse_big_endian e) (rse_pgr e p))) s q e)
      \<lparr>rnat := spill_set (ar_bspstore e) (ia64_rse_pgr_nat_get e p)
                (ia64_rse_rnat_bind (ia64_rse_collect_word (ar_bspstore e)) (rnat e)),
       ar_bspstore := ar_bspstore e + 8, rse_dirty := rse_dirty e - 1,
       rse_clean := (if cp then rse_clean e + 1 else rse_clean e),
       rse_invalid := (if cp then rse_invalid e else rse_invalid e + 1)\<rparr>"
proof -
  let ?b = "ia64_rse_rnat_bind (ia64_rse_collect_word (ar_bspstore e)) (rnat e)"
  let ?e = "e\<lparr>rnat := ?b\<rparr>"
  have "rse_store_register m (ar_bspstore e) ?e = Inr (r, e')"
    using st reg by (simp add: ia64_rse_store_one_def Let_def)
  then obtain e1 where w: "ia64_rse_write_u64 m (ar_bspstore e) (rse_pgr e p) ?e = Inr ((), e1)"
    and r: "r" and e': "e' = e1\<lparr>rnat := spill_set (ar_bspstore e) (ia64_rse_pgr_nat_get e1 p) (rnat e1),
      ar_bspstore := ar_bspstore e + 8, rse_dirty := rse_dirty e1 - 1,
      rse_clean := (if cp then rse_clean e1 + 1 else rse_clean e1),
      rse_invalid := (if cp then rse_invalid e1 else rse_invalid e1 + 1)\<rparr>"
    unfolding rse_store_register_def Let_def run_bind_Inr spill_set_def p_def cp_def by auto
  from w obtain s q where "e1 = referenced ((mem ?e)(ar_bspstore e := rse_order (rse_big_endian ?e) (rse_pgr e p))) s q ?e"
    by (rule write_u64_Inr)
  then have "e' = (referenced ((mem e)(ar_bspstore e := rse_order (rse_big_endian e) (rse_pgr e p))) s q e)
      \<lparr>rnat := spill_set (ar_bspstore e) (ia64_rse_pgr_nat_get e p) ?b,
       ar_bspstore := ar_bspstore e + 8, rse_dirty := rse_dirty e - 1,
       rse_clean := (if cp then rse_clean e + 1 else rse_clean e),
       rse_invalid := (if cp then rse_invalid e else rse_invalid e + 1)\<rparr>"
    unfolding e' by (simp add: referenced_def rse_big_endian_def ia64_rse_pgr_nat_get_def)
  with r that show ?thesis by blast
qed

text \<open>The value and the mask of defined bits that a collection store sends.\<close>

definition spill_word :: "u64 \<Rightarrow> rnat_state \<Rightarrow> u64 \<times> u64" where
  "spill_word a s =
     (let image = rse_writeback_rnat s;
          spill_defined = rse_rnat_defined s AND rnat_mask;
          spill = ar_rnat s AND spill_defined;
          saved_defined = re_defined image AND rnat_mask
      in if re_valid image \<and> re_addr image = a
         then ((re_value image AND saved_defined AND NOT spill_defined) OR spill, spill_defined OR saved_defined)
         else (spill, spill_defined))"

definition rse_retire :: "machine \<Rightarrow> u64 \<Rightarrow> bool \<Rightarrow> u64 \<Rightarrow> env \<Rightarrow> bool \<times> env" where
  "rse_retire m bspstore hit collection e1 =
     (let a = ia64_rse_collect_word bspstore;
          s1 = (if hit then ia64_rse_rnat_writeback_clear (rnat e1) else rnat e1);
          s2 = ia64_rse_load_rnat_stash a (ia64_rse_rnat_shadow_remove a s1)
      in (False, e1\<lparr>rnat := s2\<lparr>rse_load_rnat := collection, rse_load_rnat_addr := a,
                       rse_load_rnat_defined := rnat_mask, rse_load_rnat_valid := True,
                       ar_rnat := 0, rse_rnat_addr := - 1, rse_rnat_defined := 0\<rparr>,
                ar_bspstore := bspstore + 8, rse_dirty_nat := rse_dirty_nat e1 - 1,
                rse_clean_nat := (if rse_has_clean_partition (m_class m) then rse_clean_nat e1 + 1 else rse_clean_nat e1)\<rparr>))"

lemma rse_store_nat_alt:
  "rse_store_nat m bspstore e =
     (let a = ia64_rse_collect_word bspstore; image = rse_writeback_rnat (rnat e); vd = spill_word a (rnat e)
      in run_bind (ia64_rse_write_collection m bspstore (fst vd) (snd vd) e) (\<lambda>collection e1.
           Inr (rse_retire m bspstore (re_valid image \<and> re_addr image = a) collection e1)))"
  unfolding rse_store_nat_def rse_retire_def spill_word_def Let_def
  by (cases "re_valid (rse_writeback_rnat (rnat e)) \<and> re_addr (rse_writeback_rnat (rnat e)) = ia64_rse_collect_word bspstore")
    (simp_all only: if_True if_False fst_conv snd_conv simp_thms)

lemma store_one_collection:
  assumes st: "ia64_rse_store_one m e = Inr (r, e')" and col: "ia64_rse_collect_bit (ar_bspstore e) = 63"
  defines "a \<equiv> ia64_rse_collect_word (ar_bspstore e)" and "cp \<equiv> rse_has_clean_partition (m_class m)"
  obtains s q c where "\<not> r"
    "e' = (referenced ((mem e)(ar_bspstore e := rse_order (rse_big_endian e) c)) s q e)
      \<lparr>rnat := spill_retire a c (ia64_rse_rnat_bind a (rnat e)), ar_bspstore := ar_bspstore e + 8,
       rse_dirty_nat := rse_dirty_nat e - 1, rse_clean_nat := (if cp then rse_clean_nat e + 1 else rse_clean_nat e)\<rparr>"
    "merged_collection m (ar_bspstore e) (fst (spill_word a (ia64_rse_rnat_bind a (rnat e))))
       (snd (spill_word a (ia64_rse_rnat_bind a (rnat e)))) (e\<lparr>rnat := ia64_rse_rnat_bind a (rnat e)\<rparr>) c"
proof -
  let ?b = "ia64_rse_rnat_bind a (rnat e)"
  let ?e = "e\<lparr>rnat := ?b\<rparr>"
  have "rse_store_nat m (ar_bspstore e) ?e = Inr (r, e')"
    using st col by (simp add: ia64_rse_store_one_def Let_def a_def)
  then obtain c e1 where w: "ia64_rse_write_collection m (ar_bspstore e) (fst (spill_word a ?b)) (snd (spill_word a ?b)) ?e = Inr (c, e1)"
    and k: "rse_retire m (ar_bspstore e) (re_valid (rse_writeback_rnat ?b) \<and> re_addr (rse_writeback_rnat ?b) = a) c e1 = (r, e')"
    by (auto simp: rse_store_nat_alt run_bind_Inr a_def Let_def)
  from w obtain s q where e1: "e1 = referenced ((mem ?e)(ar_bspstore e := rse_order (rse_big_endian ?e) c)) s q ?e"
    and mc: "merged_collection m (ar_bspstore e) (fst (spill_word a ?b)) (snd (spill_word a ?b)) ?e c"
    by (rule write_collection_Inr)
  have rn: "rnat e1 = ?b" by (simp add: e1 referenced_def)
  have "(r, e') = (False, e1\<lparr>rnat := spill_retire a c ?b, ar_bspstore := ar_bspstore e + 8, rse_dirty_nat := rse_dirty_nat e1 - 1,
                rse_clean_nat := (if cp then rse_clean_nat e1 + 1 else rse_clean_nat e1)\<rparr>)"
    using k unfolding rse_retire_def spill_retire_def Let_def rn cp_def a_def by (rule sym)
  then have e': "\<not> r" "e' = e1\<lparr>rnat := spill_retire a c ?b, ar_bspstore := ar_bspstore e + 8, rse_dirty_nat := rse_dirty_nat e1 - 1,
                rse_clean_nat := (if cp then rse_clean_nat e1 + 1 else rse_clean_nat e1)\<rparr>"
    by simp_all
  have "e' = (referenced ((mem e)(ar_bspstore e := rse_order (rse_big_endian e) c)) s q e)
      \<lparr>rnat := spill_retire a c ?b, ar_bspstore := ar_bspstore e + 8,
       rse_dirty_nat := rse_dirty_nat e - 1, rse_clean_nat := (if cp then rse_clean_nat e + 1 else rse_clean_nat e)\<rparr>"
    unfolding e'(2) e1 by (simp add: referenced_def rse_big_endian_def)
  with e'(1) mc that show ?thesis by blast
qed


lemma store_one_counts:
  assumes "ia64_rse_store_one m e = Inr (r, e')"
  shows "r \<longleftrightarrow> ia64_rse_collect_bit (ar_bspstore e) \<noteq> 63" "ar_bspstore e' = ar_bspstore e + 8"
    "rse_dirty e' = rse_dirty e - (if r then 1 else 0)" "rse_dirty_nat e' = rse_dirty_nat e - (if r then 0 else 1)"
proof -
  have all: "(r \<longleftrightarrow> ia64_rse_collect_bit (ar_bspstore e) \<noteq> 63) \<and> ar_bspstore e' = ar_bspstore e + 8 \<and>
    rse_dirty e' = rse_dirty e - (if r then 1 else 0) \<and> rse_dirty_nat e' = rse_dirty_nat e - (if r then 0 else 1)"
  proof (cases "ia64_rse_collect_bit (ar_bspstore e) = 63")
    case True
    show ?thesis by (rule store_one_collection [OF assms True]) (simp add: True referenced_def)
  next
    case False
    show ?thesis by (rule store_one_register [OF assms False]) (simp add: False referenced_def)
  qed
  then show "r \<longleftrightarrow> ia64_rse_collect_bit (ar_bspstore e) \<noteq> 63" "ar_bspstore e' = ar_bspstore e + 8"
    "rse_dirty e' = rse_dirty e - (if r then 1 else 0)" "rse_dirty_nat e' = rse_dirty_nat e - (if r then 0 else 1)"
    by blast+
qed


lemma referenced_twice:
  "referenced mm s q (referenced mm' s' q' e) = referenced mm s q e"
  "mem (referenced mm s q e) = mm" "alat_st (referenced mm s q e) = s" "alat_write_sequence (referenced mm s q e) = q"
  by (simp_all add: referenced_def and.assoc)

text \<open>
  What a fill can know of a collection: the fill latch, or the word in memory when \<^verbatim>\<open>BSPSTORE\<close> has
  passed it, under the suspended bits and the spill latch.
\<close>

definition fill_base :: "env \<Rightarrow> u64 \<Rightarrow> nat \<rightharpoonup> bool" where
  "fill_base e a =
     (if rse_load_rnat_valid (rnat e) \<and> rse_load_rnat_addr (rnat e) = a then load_view (rnat e) a
      else if ar_bspstore e > a then nat_view (rse_order (rse_big_endian e) (mem e a)) rnat_mask
      else Map.empty)"

definition fill_view :: "env \<Rightarrow> u64 \<Rightarrow> nat \<rightharpoonup> bool" where
  "fill_view e a = fill_base e a ++ shadow_view (rnat e) a ++ spill_view (rnat e) a"

text \<open>The state of the latches after a fill has read a collection.\<close>

definition fill_latched :: "u64 \<Rightarrow> u64 \<Rightarrow> u64 \<Rightarrow> rnat_state \<Rightarrow> rnat_state" where
  "fill_latched a c d s =
     (ia64_rse_load_rnat_stash a s)\<lparr>rse_load_rnat := c, rse_load_rnat_addr := a,
       rse_load_rnat_defined := d, rse_load_rnat_valid := True\<rparr>"

definition same_shadow :: "rnat_state \<Rightarrow> rnat_state \<Rightarrow> bool" where
  "same_shadow s t \<longleftrightarrow> t = s\<lparr>rse_rnat_shadow_last := rse_rnat_shadow_last t\<rparr>"

lemma fill_collection_Inr:
  assumes "ia64_rse_fill_collection m addr e = Inr (c, e')"
  defines "a \<equiv> ia64_rse_collect_word addr"
  obtains b v d e1 s where
    "nat_view (fst b) (snd b) = fill_base e a" "same_shadow (rnat e) s"
    "rnat_spill_overlay s a (ia64_rse_rnat_shadow_overlay s a b) = (v, d)" "c = v AND (d AND rnat_mask)"
    "e1 = e \<or> e1 = referenced (mem e) (alat_st e) (alat_write_sequence e) e"
    "e' = e1\<lparr>rnat := fill_latched a c d s\<rparr>"
proof -
  let ?first = "if rse_load_rnat_valid (rnat e) \<and> rse_load_rnat_addr (rnat e) = a then
              let defined = rse_load_rnat_defined (rnat e) AND rnat_mask
              in Inr ((rse_load_rnat (rnat e) AND defined, defined), e)
            else if ar_bspstore e > a then
              run_bind (ia64_rse_read_u64 m a e) (\<lambda>w e1. Inr ((w AND rnat_mask, rnat_mask), e1))
            else Inr ((0, 0), e)"
  have "\<exists>b e1. ?first = Inr (b, e1) \<and> (let s = fst (ia64_rse_rnat_shadow_find a (rnat e1));
                 (value, defined) = rnat_spill_overlay s a (ia64_rse_rnat_shadow_overlay s a b);
                 collection = value AND (defined AND rnat_mask);
                 s1 = ia64_rse_load_rnat_stash a s;
                 s2 = s1\<lparr>rse_load_rnat := collection, rse_load_rnat_addr := a,
                         rse_load_rnat_defined := defined, rse_load_rnat_valid := True\<rparr>
             in Inr (collection, e1\<lparr>rnat := s2\<rparr>)) = (Inr (c, e') :: u64 outcome)"
    using assms(1) unfolding ia64_rse_fill_collection_def Let_def run_bind_Inr a_def [symmetric] .
  then obtain b e1 where f: "?first = Inr (b, e1)"
    and k: "(let s = fst (ia64_rse_rnat_shadow_find a (rnat e1));
                 (value, defined) = rnat_spill_overlay s a (ia64_rse_rnat_shadow_overlay s a b);
                 collection = value AND (defined AND rnat_mask);
                 s1 = ia64_rse_load_rnat_stash a s;
                 s2 = s1\<lparr>rse_load_rnat := collection, rse_load_rnat_addr := a,
                         rse_load_rnat_defined := defined, rse_load_rnat_valid := True\<rparr>
             in Inr (collection, e1\<lparr>rnat := s2\<rparr>)) = (Inr (c, e') :: u64 outcome)" by blast
  have nm: "nat_view (w AND d) d = nat_view w d" for w d :: u64
    by (rule ext) (simp add: nat_view_def bit_and_iff)
  have e1: "e1 = e \<or> e1 = referenced (mem e) (alat_st e) (alat_write_sequence e) e"
    and b: "nat_view (fst b) (snd b) = fill_base e a"
    using f by (auto simp: Let_def run_bind_Inr fill_base_def load_view_def nat_view_zero nm split: if_splits dest!: read_u64_Inr)
  then have rn: "rnat e1 = rnat e" by (auto simp: referenced_def)
  define s where "s = fst (ia64_rse_rnat_shadow_find a (rnat e))"
  have ss: "same_shadow (rnat e) s" by (simp add: s_def same_shadow_def ia64_rse_rnat_shadow_find_def Let_def)
  obtain v d where vd: "rnat_spill_overlay s a (ia64_rse_rnat_shadow_overlay s a b) = (v, d)" by force
  have "c = v AND (d AND rnat_mask)" "e' = e1\<lparr>rnat := fill_latched a c d s\<rparr>"
    using k unfolding rn s_def [symmetric] Let_def vd prod.case by (auto simp: fill_latched_def)
  with b ss vd e1 that show ?thesis by blast
qed


text \<open>The two successful outcomes of a mandatory load.\<close>

lemma load_one_collection:
  assumes "ia64_rse_load_one m b e = Inr (r, e')" and "ia64_rse_collect_bit b = 63"
  obtains t where "\<not> r"
    "e' = (referenced (mem e) (alat_st e) (alat_write_sequence e) e)\<lparr>rnat := t, rse_clean_nat := rse_clean_nat e + 1\<rparr>"
  using assms unfolding ia64_rse_load_one_def
  by (fastforce simp: run_bind_Inr Let_def referenced_def dest!: read_u64_Inr)

lemma phys_to_virt_cong:
  "rse_bol e = rse_bol f \<Longrightarrow> cfm_sof e = cfm_sof f \<Longrightarrow> cfm_sor e = cfm_sor f \<Longrightarrow> cfm_rrb_gr e = cfm_rrb_gr f \<Longrightarrow>
   ia64_rse_phys_to_virt e p = ia64_rse_phys_to_virt f p"
  by (simp only: ia64_rse_phys_to_virt_def ia64_rse_rotating_gr_count_def)

definition loaded_register :: "nat \<Rightarrow> u64 \<Rightarrow> bool \<Rightarrow> env \<Rightarrow> env" where
  "loaded_register p val n e =
     (let v = ia64_rse_phys_to_virt e p; e1 = ia64_rse_pgr_nat_set p n (e\<lparr>rse_pgr := (rse_pgr e)(p := val)\<rparr>)
      in if v < cfm_sof e then ia64_gr_nat_set (32 + v) n (e1\<lparr>gr := (gr e)(32 + v := val)\<rparr>) else e1)"

lemma load_one_register:
  assumes ld: "ia64_rse_load_one m b e = Inr (r, e')" and reg: "ia64_rse_collect_bit b \<noteq> 63"
  defines "p \<equiv> ia64_rse_wrap_phys (int (rse_bol e) - (rse_clean e + rse_dirty e + 1))"
  obtains t n where "r"
    "e' = loaded_register p (rse_order (rse_big_endian e) (mem e b)) n
       ((referenced (mem e) (alat_st e) (alat_write_sequence e) e)
         \<lparr>rnat := t, rse_clean := rse_clean e + 1, rse_invalid := rse_invalid e - 1\<rparr>)"
proof -
  let ?R = "referenced (mem e) (alat_st e) (alat_write_sequence e) e"
  let ?val = "rse_order (rse_big_endian e) (mem e b)"
  from ld reg obtain w e1 c e2 where rd: "ia64_rse_read_u64 m b e = Inr (w, e1)"
    and fl: "ia64_rse_fill_collection m b e1 = Inr (c, e2)"
    and fin: "(let n = (drop_bit (unat (ia64_rse_collect_bit b)) c AND 1 \<noteq> 0);
                 p = ia64_rse_wrap_phys (int (rse_bol e1) - (rse_clean e1 + rse_dirty e1 + 1));
                   v = ia64_rse_phys_to_virt e2 p;
                   e3 = ia64_rse_pgr_nat_set p n (e2\<lparr>rse_pgr := (rse_pgr e2)(p := w)\<rparr>);
                   e4 = e3\<lparr>rse_clean := rse_clean e3 + 1, rse_invalid := rse_invalid e3 - 1\<rparr>
               in Inr (True,
                    if v < cfm_sof e4
                    then ia64_gr_nat_set (32 + v) (ia64_rse_pgr_nat_get e4 p) (e4\<lparr>gr := (gr e4)(32 + v := w)\<rparr>)
                    else e4)) = (Inr (r, e') :: bool outcome)"
    unfolding ia64_rse_load_one_def Let_def if_not_P [OF reg] run_bind_Inr by blast
  have w: "w = ?val" "e1 = ?R" using read_u64_Inr [OF rd] by simp_all
  from fl obtain t where "e2 = ?R\<lparr>rnat := t\<rparr>"
  proof (rule fill_collection_Inr)
    fix f v d s t
    assume "t = e1 \<or> t = referenced (mem e1) (alat_st e1) (alat_write_sequence e1) e1"
      and "e2 = t\<lparr>rnat := fill_latched (ia64_rse_collect_word b) c d s\<rparr>"
    then show thesis using that w(2) by (auto simp: referenced_twice)
  qed
  note e2 = this
  define n where "n = (drop_bit (unat (ia64_rse_collect_bit b)) c AND 1 \<noteq> 0)"
  have p: "p = ia64_rse_wrap_phys (int (rse_bol e1) - (rse_clean e1 + rse_dirty e1 + 1))"
    by (simp add: p_def w referenced_def)
  have p96: "p < 96" by (simp add: p_def)
  let ?b = "?R\<lparr>rnat := t, rse_clean := rse_clean e + 1, rse_invalid := rse_invalid e - 1\<rparr>"
  have v: "ia64_rse_phys_to_virt e2 p = ia64_rse_phys_to_virt ?b p" "cfm_sof e2 = cfm_sof ?b"
    by (auto simp: e2 intro: phys_to_virt_cong)
  let ?e3 = "ia64_rse_pgr_nat_set p n (e2\<lparr>rse_pgr := (rse_pgr e2)(p := ?val)\<rparr>)"
  define x where "x = ?e3\<lparr>rse_clean := rse_clean ?e3 + 1, rse_invalid := rse_invalid ?e3 - 1\<rparr>"
  have x: "x = ia64_rse_pgr_nat_set p n (?b\<lparr>rse_pgr := (rse_pgr ?b)(p := ?val)\<rparr>)"
    and xf: "gr x = gr ?b" "cfm_sof x = cfm_sof ?b"
    by (simp_all add: x_def e2 ia64_rse_pgr_nat_set_def referenced_def)
  have g: "ia64_rse_pgr_nat_get x p = n"
    using p96 by (simp add: x_def ia64_rse_pgr_nat_get_def ia64_rse_pgr_nat_set_def bits2_get_set)
  have "Inr (True, if ia64_rse_phys_to_virt e2 p < cfm_sof x
      then ia64_gr_nat_set (32 + ia64_rse_phys_to_virt e2 p) (ia64_rse_pgr_nat_get x p)
             (x\<lparr>gr := (gr x)(32 + ia64_rse_phys_to_virt e2 p := ?val)\<rparr>)
      else x) = (Inr (r, e') :: bool outcome)"
    using fin unfolding Let_def p [symmetric] n_def [symmetric] w(1) x_def [symmetric] .
  then have "e' = loaded_register p ?val n ?b" and "r"
    unfolding loaded_register_def Let_def v g xf x [symmetric] by (simp_all only: sum.inject prod.inject simp_thms)
  then show thesis by (rule that [rotated])
qed


section \<open>The loops of the engine\<close>

lemma run_bind_cong [fundef_cong]:
  assumes "x = x'" and "\<And>a e. x' = Inr (a, e) \<Longrightarrow> f a e = g a e"
  shows "run_bind x f = run_bind x' g"
  using assms by (auto simp: run_bind_def split: sum.split)

lemma interrupt_window_Inr: "ia64_rse_interrupt_window pf e = Inr (u, e') \<Longrightarrow> e' = e"
  by (simp add: ia64_rse_interrupt_window_def split: if_splits)

lemma store_one_progress:
  "ia64_rse_store_one m e = Inr (r, e') \<Longrightarrow>
     (r \<longleftrightarrow> ia64_rse_collect_bit (ar_bspstore e) \<noteq> 63) \<and> ar_bspstore e' = ar_bspstore e + 8 \<and>
     rse_dirty e' = rse_dirty e - (if r then 1 else 0) \<and> rse_dirty_nat e' = rse_dirty_nat e - (if r then 0 else 1)"
  using store_one_counts by blast

lemma load_one_progress:
  assumes "ia64_rse_load_one m b e = Inr (r, e')"
  shows "(r \<longleftrightarrow> ia64_rse_collect_bit b \<noteq> 63) \<and> rse_dirty e' = rse_dirty e \<and> rse_dirty_nat e' = rse_dirty_nat e"
proof (cases "ia64_rse_collect_bit b = 63")
  case True
  show ?thesis by (rule load_one_collection [OF assms True]) (simp add: True referenced_def)
next
  case False
  show ?thesis
    by (rule load_one_register [OF assms False])
      (simp add: False referenced_def loaded_register_def Let_def ia64_gr_nat_set_def ia64_rse_pgr_nat_set_def)
qed

lemma collect_bit_next: "(ia64_rse_collect_bit (a + 8) = 63) \<longleftrightarrow> ia64_rse_collect_bit a = 62"
  and collect_bit_prev: "rnat_bit (a - 8) = (rnat_bit a - 1) mod 64"
proof -
  have "ia64_rse_collect_bit a = 62 \<longleftrightarrow> rnat_bit a = 62" "ia64_rse_collect_bit (a + 8) = 63 \<longleftrightarrow> rnat_bit (a + 8) = 63"
    by (simp_all add: uint_collect_bit [symmetric] word_uint_eq_iff)
  moreover have "rnat_bit (a + 8) = (rnat_bit a + 1) mod 64" using rnat_bit_shift [of a 1] by simp
  then have "rnat_bit (a + 8) = (if rnat_bit a = 63 then 0 else rnat_bit a + 1)" using mod_succ_64 [of "rnat_bit a"] by simp
  ultimately show "(ia64_rse_collect_bit (a + 8) = 63) \<longleftrightarrow> ia64_rse_collect_bit a = 62" by auto
  show "rnat_bit (a - 8) = (rnat_bit a - 1) mod 64" using rnat_bit_shift [of a "- 1"] by simp
qed

lemma collect_bit_63: "ia64_rse_collect_bit a = 63 \<longleftrightarrow> rnat_bit a = 63"
  by (simp add: uint_collect_bit [symmetric] word_uint_eq_iff)

text \<open>\<^verbatim>\<open>flushrs\<close>.\<close>

function ia64_rse_flush :: "machine \<Rightarrow> env \<Rightarrow> unit outcome" where
  "ia64_rse_flush m e =
     (if rse_dirty e + rse_dirty_nat e > 0 then
        run_bind (ia64_rse_store_one m e) (\<lambda>_ e1.
          run_bind (ia64_rse_interrupt_window (m_platform m) e1) (\<lambda>_ e2. ia64_rse_flush m e2))
      else Inr ((), e))"
  by pat_completeness auto
termination
  by (relation "measure (\<lambda>(m, e). nat (rse_dirty e + rse_dirty_nat e))")
    (auto dest!: interrupt_window_Inr store_one_progress split: if_splits)

text \<open>The loop of \<^verbatim>\<open>ia64_rse_new_frame\<close>: stores until the registers still wanted have left the file.\<close>

function rse_spill_loop :: "machine \<Rightarrow> int \<Rightarrow> env \<Rightarrow> unit outcome" where
  "rse_spill_loop m growth e =
     (if growth > 0 then
        run_bind (ia64_rse_store_one m e) (\<lambda>register e1.
          run_bind (ia64_rse_interrupt_window (m_platform m) e1) (\<lambda>_ e2.
            rse_spill_loop m (growth - (if register then 1 else 0)) e2))
      else Inr ((), e))"
  by pat_completeness auto

termination
  by (relation "measure (\<lambda>(m, growth, e). 2 * nat growth + (if ia64_rse_collect_bit (ar_bspstore e) = 63 then 1 else 0))")
    (auto simp: collect_bit_next dest!: interrupt_window_Inr store_one_progress split: if_splits)

text \<open>\<^verbatim>\<open>ia64_rse_rnat_move_bspstore\<close> with the register it moves.\<close>

definition rse_move_bspstore :: "u64 \<Rightarrow> env \<Rightarrow> env" where
  "rse_move_bspstore a e = e\<lparr>rnat := ia64_rse_rnat_move_bspstore a (rnat e), ar_bspstore := a\<rparr>"

text \<open>The word that a load has added to the clean partition joins the dirty one.\<close>

definition rse_claim_loaded :: "bool \<Rightarrow> env \<Rightarrow> env" where
  "rse_claim_loaded register e =
     (if register then e\<lparr>rse_clean := rse_clean e - 1, rse_dirty := rse_dirty e + 1\<rparr>
      else e\<lparr>rse_clean_nat := rse_clean_nat e - 1, rse_dirty_nat := rse_dirty_nat e + 1\<rparr>)"

lemma claim_loaded_counts:
  "rse_dirty (rse_move_bspstore a (rse_claim_loaded r e)) = rse_dirty e + (if r then 1 else 0)"
  "rse_dirty_nat (rse_move_bspstore a (rse_claim_loaded r e)) = rse_dirty_nat e + (if r then 0 else 1)"
  by (simp_all add: rse_move_bspstore_def rse_claim_loaded_def)

text \<open>What a mandatory load decreases: registers and collections still missing, then the slots up to the next collection.\<close>

definition fill_measure :: "int \<Rightarrow> int \<Rightarrow> int \<Rightarrow> nat" where
  "fill_measure d dn k =
     nat (128 * max 0 (- dn) + 130 * max 0 (- d) + (if d < 0 then if k = 63 then 1 else 0 else (k + 1) mod 64))"

lemma fill_measure_step:
  assumes "d < 0 \<or> dn < 0" "0 \<le> k" "k < 64"
  shows "fill_measure (d + (if k \<noteq> 63 then 1 else 0)) (dn + (if k \<noteq> 63 then 0 else 1)) ((k - 1) mod 64) < fill_measure d dn k"
proof -
  have k1: "(k - 1) mod 64 = (if k = 0 then 63 else k - 1)" "(k + 1) mod 64 = (if k = 63 then 0 else k + 1)"
    using assms(2,3) by auto
  have k2: "((k - 1) mod 64 + 1) mod 64 = k" using assms(2,3) unfolding k1 by auto
  have k3: "(k - 1) mod 64 = 63 \<longleftrightarrow> k = 0" using assms(2,3) unfolding k1 by auto
  show ?thesis using assms unfolding fill_measure_def k2 k3 k1(2) by (auto simp: max_def)
qed

text \<open>The loop of \<^verbatim>\<open>ia64_rse_complete_frame_loads\<close>.\<close>

function rse_fill_loop :: "machine \<Rightarrow> u64 \<Rightarrow> env \<Rightarrow> unit outcome" where
  "rse_fill_loop m bspload e =
     (if rse_dirty e < 0 \<or> rse_dirty_nat e < 0 then
        run_bind (ia64_rse_load_one m bspload e) (\<lambda>register e1.
          let e2 = rse_claim_loaded register e1;
              e3 = rse_move_bspstore (ar_bspstore e2 - 8) e2
          in run_bind (ia64_rse_interrupt_window (m_platform m) e3) (\<lambda>_ e4. rse_fill_loop m (bspload - 8) e4))
      else Inr ((), e))"
  by pat_completeness auto

termination
proof (relation "measure (\<lambda>(m, b, e). fill_measure (rse_dirty e) (rse_dirty_nat e) (rnat_bit b))")
  fix m :: machine and b e r e1 x xa u e4
  assume c: "rse_dirty e < 0 \<or> rse_dirty_nat e < 0" and ld: "ia64_rse_load_one m b e = Inr (r, e1)"
    and x: "x = rse_claim_loaded r e1" "xa = rse_move_bspstore (ar_bspstore x - 8) x"
    and w: "ia64_rse_interrupt_window (m_platform m) xa = Inr (u, e4)"
  have "e4 = xa" using interrupt_window_Inr [OF w] .
  with x have d: "rse_dirty e4 = rse_dirty e1 + (if r then 1 else 0)" "rse_dirty_nat e4 = rse_dirty_nat e1 + (if r then 0 else 1)"
    by (simp_all only: claim_loaded_counts)
  show "((m, b - 8, e4), m, b, e) \<in> measure (\<lambda>(m, b, e). fill_measure (rse_dirty e) (rse_dirty_nat e) (rnat_bit b))"
    using load_one_progress [OF ld] fill_measure_step [OF c rnat_bit_bounds, of b]
    by (simp add: d collect_bit_prev collect_bit_63)
qed simp

declare ia64_rse_flush.simps [simp del] rse_spill_loop.simps [simp del] rse_fill_loop.simps [simp del]

definition ia64_rse_complete_frame_loads :: "machine \<Rightarrow> env \<Rightarrow> unit outcome" where
  "ia64_rse_complete_frame_loads m e =
     (if rse_dirty e \<ge> 0 \<and> rse_dirty_nat e \<ge> 0 then Inr ((), e)
      else
        let live = rse_clean e + rse_clean_nat e + rse_dirty e + rse_dirty_nat e;
            bspload = ar_bsp e - word_of_int (live + 1) * 8;
            e1 = e\<lparr>rse_cfle := True\<rparr>
        in run_bind (ia64_rse_interrupt_window (m_platform m) e1) (\<lambda>_ e2.
             run_bind (rse_fill_loop m bspload e2) (\<lambda>_ e3. Inr ((), e3\<lparr>rse_cfle := False\<rparr>))))"

end
