(* ===== verification/Rse_Frame.thy ===== *)
theory Rse_Frame
  imports Rse_Engine
begin

text \<open>
  The instructions that move the register stack frame (\<^verbatim>\<open>target/ia64/arch/rse.c\<close>): calls and returns,
  \<^verbatim>\<open>alloc\<close>, \<^verbatim>\<open>cover\<close>, \<^verbatim>\<open>loadrs\<close>, \<^verbatim>\<open>rfi\<close>, \<^verbatim>\<open>br.ia\<close>, the loop branches and the saved contexts.  The
  consistency check \<^verbatim>\<open>ia64_rse_check\<close> only logs and is not called; it is the invariant of the next theory.
\<close>

section \<open>Partition bookkeeping\<close>

definition ia64_rse_preserve_frame :: "nat \<Rightarrow> env \<Rightarrow> env" where
  "ia64_rse_preserve_frame nregs e =
     (if nregs = 0 then e
      else
        let nats = ia64_rse_nat_words_grow (ar_bsp e) (of_nat nregs)
        in e\<lparr>rse_bol := ia64_rse_wrap_phys (int (rse_bol e) + int nregs),
             ar_bsp := ar_bsp e + ucast (of_nat nregs + nats) * 8,
             rse_dirty := rse_dirty e + int nregs, rse_dirty_nat := rse_dirty_nat e + uint nats\<rparr>)"

text \<open>The count of clean collection words after the oldest clean registers have been given up.\<close>

definition rse_clean_nats :: "env \<Rightarrow> int" where
  "rse_clean_nats e =
     sint (ia64_rse_nat_words_shrink (ar_bsp e) (word_of_int (rse_clean e + rse_dirty e + 1)) -
       word_of_int (rse_dirty_nat e))"

definition ia64_rse_new_frame :: "machine \<Rightarrow> int \<Rightarrow> env \<Rightarrow> unit outcome" where
  "ia64_rse_new_frame m growth e =
     (if growth \<le> rse_invalid e then Inr ((), e\<lparr>rse_invalid := rse_invalid e - growth\<rparr>)
      else
        let growth1 = growth - rse_invalid e in
        if growth1 \<le> rse_clean e then
          let e1 = e\<lparr>rse_invalid := 0, rse_clean := rse_clean e - growth1\<rparr>
          in Inr ((), e1\<lparr>rse_clean_nat := rse_clean_nats e1\<rparr>)
        else
          run_bind (rse_spill_loop m (growth1 - rse_clean e) e) (\<lambda>_ e1.
            Inr ((), e1\<lparr>rse_invalid := 0, rse_clean := 0, rse_clean_nat := 0\<rparr>)))"

definition ia64_rse_restore_frame :: "nat \<Rightarrow> int \<Rightarrow> nat \<Rightarrow> env \<Rightarrow> env" where
  "ia64_rse_restore_frame preserved growth old_sof e0 =
     (let nats = ia64_rse_nat_words_shrink (ar_bsp e0) (of_nat preserved);
          preserved_nats = sint nats;
          e = e0\<lparr>ar_bsp := ar_bsp e0 - ucast (of_nat preserved + nats) * 8\<rparr>
      in if growth > rse_invalid e + rse_clean e then
           let e1 = e\<lparr>rse_invalid := rse_invalid e + int (preserved + old_sof),
                      rse_dirty := rse_dirty e - int preserved, rse_dirty_nat := rse_dirty_nat e - preserved_nats,
                      cfm_sof := 0, cfm_sol := 0, cfm_sor := 0, cfm_rrb_gr := 0\<rparr>
           in ia64_set_cfm_rrb_pr 0 (ia64_set_cfm_rrb_fr 0 e1)
         else
           let e1 = (if growth > rse_invalid e then
                       let f = e\<lparr>rse_clean := rse_clean e - (growth - rse_invalid e)\<rparr>
                       in f\<lparr>rse_clean_nat := rse_clean_nats f, rse_invalid := 0\<rparr>
                     else e\<lparr>rse_invalid := rse_invalid e - growth\<rparr>);
               missing = int preserved - rse_dirty e1;
               missing_nats = preserved_nats - rse_dirty_nat e1
           in if missing \<le> 0 then
                e1\<lparr>rse_dirty := rse_dirty e1 - int preserved, rse_dirty_nat := rse_dirty_nat e1 - preserved_nats\<rparr>
              else if missing \<le> rse_clean e1 then
                rse_move_bspstore (ar_bsp e1)
                  (e1\<lparr>rse_clean := rse_clean e1 - missing, rse_clean_nat := rse_clean_nat e1 - missing_nats,
                      rse_dirty := 0, rse_dirty_nat := 0\<rparr>)
              else
                let e2 = e1\<lparr>rse_dirty := - (missing - rse_clean e1),
                            rse_dirty_nat := - (missing_nats - rse_clean_nat e1), rse_clean := 0, rse_clean_nat := 0\<rparr>
                in rse_move_bspstore (ar_bsp e2 - word_of_int (rse_dirty e2 + rse_dirty_nat e2) * 8) e2)"

definition ia64_rse_invalidate_non_current :: "env \<Rightarrow> env" where
  "ia64_rse_invalidate_non_current e =
     rse_move_bspstore (ar_bsp e)
       (e\<lparr>rse_dirty := 0, rse_dirty_nat := 0, rse_clean := 0, rse_clean_nat := 0, rse_invalid := 96 - int (cfm_sof e)\<rparr>)"

definition ia64_rse_invalidate_stacked_alat :: "env \<Rightarrow> env" where
  "ia64_rse_invalidate_stacked_alat e =
     (if alat_active_count (alat_st e) \<noteq> 0 then e\<lparr>alat_st := ia64_invalidate_stacked_alat (alat_st e)\<rparr> else e)"

definition ia64_rse_reset_rotations :: "env \<Rightarrow> env" where
  "ia64_rse_reset_rotations e =
     (let e1 = e\<lparr>cfm_rrb_gr := 0\<rparr>;
          e2 = (if cfm_rrb_fr e1 \<noteq> 0 then ia64_set_cfm_rrb_fr 0 e1 else e1)
      in if cfm_rrb_pr e2 \<noteq> 0 then ia64_set_cfm_rrb_pr 0 e2 else e2)"

section \<open>Returning to a frame\<close>

text \<open>The fields of a frame marker.\<close>

definition cfm_field :: "nat \<Rightarrow> nat \<Rightarrow> u64 \<Rightarrow> nat" where
  "cfm_field pos width cfm = unat (take_bit width (drop_bit pos cfm))"

definition ia64_rse_return_to_frame :: "machine \<Rightarrow> u64 \<Rightarrow> nat \<Rightarrow> env \<Rightarrow> unit outcome" where
  "ia64_rse_return_to_frame m pfm preserved e =
     (let old_sof = cfm_sof e;
          new_sof = cfm_field 0 7 pfm; new_sol = cfm_field 7 7 pfm;
          new_rrb_fr = cfm_field 25 7 pfm; new_rrb_pr = cfm_field 32 6 pfm;
          growth = int new_sof - int preserved - int old_sof;
          e1 = (ia64_rse_sync_frame_out e)
                 \<lparr>cfm_sof := new_sof, cfm_sol := new_sol, cfm_sor := cfm_field 14 4 pfm, cfm_rrb_gr := cfm_field 18 7 pfm\<rparr>;
          e2 = (if new_rrb_fr \<noteq> cfm_rrb_fr e1 \<or> new_rrb_fr \<ge> 96 then ia64_set_cfm_rrb_fr new_rrb_fr e1 else e1);
          e3 = (if new_rrb_pr \<noteq> cfm_rrb_pr e2 \<or> new_rrb_pr \<ge> 48 then ia64_set_cfm_rrb_pr new_rrb_pr e2 else e2);
          e4 = e3\<lparr>rse_bol := ia64_rse_wrap_phys (int (rse_bol e3) - int preserved)\<rparr>;
          e5 = ia64_rse_sync_frame_in (ia64_rse_restore_frame preserved growth old_sof e4)
      in ia64_rse_complete_frame_loads m (ia64_rse_invalidate_stacked_alat e5))"

definition ia64_rse_return_from_min_state :: "machine \<Rightarrow> u64 \<Rightarrow> env \<Rightarrow> unit outcome" where
  "ia64_rse_return_from_min_state m cfm e = ia64_rse_return_to_frame m cfm (cfm_field 0 7 cfm) e"

definition ia64_rse_complete_pending_trap :: "machine \<Rightarrow> env \<Rightarrow> unit outcome" where
  "ia64_rse_complete_pending_trap m e =
     (if \<not> rse_completion_pending e then Inr ((), e)
      else
        let cond = \<lparr>native_trap_fp = False, native_trap_lower = rse_completion_demoted e, native_trap_taken = True\<rparr>;
            source_ip = rse_completion_source_ip e;
            source_slot = rse_completion_source_slot e;
            target_slot = unat (drop_bit 41 (psr e AND IA64_PSR_RI_MASK));
            e1 = e\<lparr>rse_completion_pending := False,
                   exception_st := (exception_st e)\<lparr>psr_suppression_before_insn :=
                     rse_completion_psr e AND IA64_PSR_FAULT_SUPPRESS_MASK\<rparr>\<rparr>;
            e2 = ia64_system_clear_psr_fault_suppression e1
        in ia64_check_native_traps (m_class m) (ip e2) source_ip (target_slot mod 4) (source_slot mod 4) cond 0
             (rse_completion_psr e2) e2)"

definition ia64_rse_resume_incomplete_frame :: "machine \<Rightarrow> env \<Rightarrow> unit outcome" where
  "ia64_rse_resume_incomplete_frame m e =
     run_bind (ia64_rse_complete_frame_loads m e) (\<lambda>_ e1. ia64_rse_complete_pending_trap m e1)"

section \<open>Return from interruption\<close>

text \<open>The IA-32 branch of \<^verbatim>\<open>ia64_rfi\<close>, which leaves an empty register stack.\<close>

definition rfi_to_ia32 :: "machine \<Rightarrow> u64 \<Rightarrow> u64 \<Rightarrow> nat \<Rightarrow> bool \<Rightarrow> env \<Rightarrow> unit outcome" where
  "rfi_to_ia32 m raw_iip fip slot unimplemented e =
     (let e1 = (ia64_rse_sync_frame_out e)\<lparr>cfm_sof := 0, cfm_sol := 0, cfm_sor := 0, cfm_rrb_gr := 0\<rparr>;
          e2 = ia64_rse_invalidate_non_current (ia64_set_cfm_rrb_pr 0 (ia64_set_cfm_rrb_fr 0 e1));
          e3 = e2\<lparr>alat_st := ia64_alat_invala (alat_gen m e2) (alat_st e2)\<rparr>;
          e4 = ia32_enter (m_platform m) e3
      in if unimplemented then
           ia64_raise_exception IA64_EXCP_UNIMPL_INST_ADDR raw_iip fip slot
             (e4\<lparr>cr_isr := 16, exception_st := (exception_st e4)\<lparr>ia32_transition_trap := True\<rparr>\<rparr>)
         else Inr ((), e4))"

definition ia64_rfi :: "machine \<Rightarrow> u64 \<Rightarrow> nat \<Rightarrow> env \<Rightarrow> unit outcome" where
  "ia64_rfi m fip slot e =
     (let ipsr = cr_ipsr e;
          raw_iip = cr_iip e;
          ia32 = (ipsr AND IA64_PSR_IS \<noteq> 0);
          iip = (if ia32 then raw_iip AND 0xffffffff else ia64_ip_bundle_addr raw_iip);
          ifs = cr_ifs e;
          unimplemented = (ia32 \<and> (if ipsr AND IA64_PSR_IT \<noteq> 0 then \<not> ia64_va_is_implemented (m_class m) raw_iip
                                   else \<not> ia64_pa_is_implemented (m_class m) raw_iip))
      in if ia32 \<and> \<not> has_native_ia32 (m_class m) then ia64_raise_disabled_isa_transition fip slot e
         else
           let e1 = e\<lparr>exception_st := (exception_st e)\<lparr>exception := IA64_EXCP_NONE, fault_ip := 0, fault_addr := 0,
                        fault_imm := 0, fault_slot := 0\<rparr>, instruction_group_start := True\<rparr>;
               ipsr1 = (if ia32 then ipsr AND NOT (IA64_PSR_DA OR IA64_PSR_DD OR IA64_PSR_IA OR IA64_PSR_ED) else ipsr);
               e2 = (ia64_set_psr ipsr1 e1)\<lparr>ip := iip\<rparr>
           in if ia32 then rfi_to_ia32 m raw_iip fip slot unimplemented e2
              else if ifs AND 0x8000000000000000 \<noteq> 0 then
                run_bind (ia64_rse_return_to_frame m (ifs AND 0x3fffffffff) (cfm_field 0 7 ifs) e2) (\<lambda>_ e3.
                  ia64_rse_complete_pending_trap m e3)
              else if rse_completion_pending e2 \<or> rse_dirty e2 < 0 \<or> rse_dirty_nat e2 < 0 then
                ia64_rse_resume_incomplete_frame m e2
              else Inr ((), e2))"

section \<open>Calls and returns\<close>

definition ia64_rse_br_call :: "nat \<Rightarrow> u64 \<Rightarrow> u64 \<Rightarrow> env \<Rightarrow> env" where
  "ia64_rse_br_call b_reg next_ip target e =
     (let pfs = ia64_rse_current_pfs e;
          old_sof = cfm_sof e;
          sol = cfm_sol e;
          outputs = (if old_sof > sol then old_sof - sol else 0);
          move_outputs = (cfm_rrb_gr e = 0);
          e1 = ia64_rse_preserve_frame sol (ia64_rse_sync_frame_out e);
          e2 = (if move_outputs \<and> outputs \<noteq> 0 \<and> sol \<noteq> 0 then
                  e1\<lparr>gr := copy_range (gr e1) 32 (gr e1) (32 + sol) outputs,
                     nat_bits := (if drop_bit 32 (fst (nat_bits e1)) OR snd (nat_bits e1) \<noteq> 0
                                  then ia64_copy_bit_range (nat_bits e1) 32 (nat_bits e1) (32 + sol) outputs
                                  else nat_bits e1)\<rparr>
                else e1);
          e3 = ia64_rse_reset_rotations (e2\<lparr>cfm_sof := outputs, cfm_sol := 0, cfm_sor := 0\<rparr>);
          e4 = (if \<not> move_outputs then ia64_rse_sync_frame_in e3 else e3);
          e5 = ia64_system_reset_dahr ((ia64_rse_invalidate_stacked_alat e4)\<lparr>ar_pfs := pfs, br := (br e4)(b_reg := next_ip)\<rparr>)
      in e5\<lparr>ip := ia64_ip_bundle_addr target, psr := psr e5 AND NOT IA64_PSR_RI_MASK\<rparr>)"

definition ia64_rse_br_ia :: "machine \<Rightarrow> nat \<Rightarrow> u64 \<Rightarrow> nat \<Rightarrow> env \<Rightarrow> unit outcome" where
  "ia64_rse_br_ia m b_reg fip slot e =
     (let target = br e b_reg in
      if ar_bspstore e \<noteq> ar_bsp e then ia64_raise_exception IA64_EXCP_ILLEGAL fip 0 slot e
      else if psr e AND IA64_PSR_DI \<noteq> 0 \<or> \<not> has_native_ia32 (m_class m) then ia64_raise_disabled_isa_transition fip slot e
      else
        let e1 = e\<lparr>ip := target AND 0xffffffff,
                   psr := (psr e OR IA64_PSR_IS) AND NOT (IA64_PSR_DA OR IA64_PSR_DD OR IA64_PSR_ID OR IA64_PSR_IA OR
                     IA64_PSR_ED OR IA64_PSR_RI_MASK)\<rparr>;
            e2 = (ia64_rse_sync_frame_out e1)\<lparr>cfm_sof := 0, cfm_sol := 0, cfm_sor := 0\<rparr>;
            e3 = ia64_rse_invalidate_non_current (ia64_rse_reset_rotations e2);
            e4 = e3\<lparr>alat_st := ia64_alat_invala (alat_gen m e3) (alat_st e3)\<rparr>;
            e5 = ia32_enter (m_platform m) e4;
            unimplemented = (if psr e5 AND IA64_PSR_IT \<noteq> 0 then \<not> ia64_va_is_implemented (m_class m) target
                             else \<not> ia64_pa_is_implemented (m_class m) target);
            code1 = (if unimplemented then 16 else 0);
            code2 = (if psr e5 AND IA64_PSR_TB \<noteq> 0 then code1 OR 4 else code1);
            trap_code = (if psr e5 AND IA64_PSR_SS \<noteq> 0 then code2 OR 8 else code2)
        in if trap_code = 0 then Inr ((), e5)
           else
             ia64_raise_exception
               (if trap_code AND 16 \<noteq> 0 then IA64_EXCP_UNIMPL_INST_ADDR
                else if trap_code AND 4 \<noteq> 0 then IA64_EXCP_TAKEN_BRANCH else IA64_EXCP_SINGLE_STEP)
               target fip slot
               (e5\<lparr>cr_isr := trap_code, exception_st := (exception_st e5)\<lparr>ia32_transition_trap := True\<rparr>\<rparr>))"

definition ia64_rse_pop_return_frame :: "machine \<Rightarrow> u64 \<Rightarrow> env \<Rightarrow> unit outcome" where
  "ia64_rse_pop_return_frame m pfs e =
     ia64_rse_return_to_frame m (pfs AND 0x3fffffffff) (cfm_field 7 7 pfs)
       (e\<lparr>ar_ec := drop_bit 52 pfs AND 0x3f\<rparr>)"

definition ia64_rse_br_ret :: "machine \<Rightarrow> nat \<Rightarrow> u64 \<Rightarrow> nat \<Rightarrow> env \<Rightarrow> unit outcome" where
  "ia64_rse_br_ret m b_reg source_ip source_slot e =
     (let old_psr = psr e;
          pfs = ar_pfs e;
          target = br e b_reg;
          ppl = unat (drop_bit 62 pfs);
          demoted = (ia64_psr_cpl (psr e) < ppl);
          e1 = e\<lparr>ip := ia64_ip_bundle_addr target, psr := psr e AND NOT IA64_PSR_RI_MASK\<rparr>;
          e2 = (if demoted then ia64_set_psr ((psr e1 AND NOT IA64_PSR_CPL_MASK) OR push_bit 32 (of_nat ppl)) e1 else e1);
          e3 = e2\<lparr>rse_completion_pending := True, rse_completion_demoted := demoted, rse_completion_psr := old_psr,
                  rse_completion_source_ip := ia64_ip_bundle_addr source_ip,
                  rse_completion_source_slot := source_slot mod 4\<rparr>;
          e4 = (if rse_completion_psr e3 AND IA64_PSR_IC \<noteq> 0
                then e3\<lparr>last_successful_bundle := rse_completion_source_ip e3\<rparr> else e3)
      in run_bind (ia64_rse_pop_return_frame m pfs e4) (\<lambda>_ e5. ia64_rse_complete_pending_trap m e5))"

section \<open>Allocation and spilling\<close>

definition ia64_rse_alloc :: "machine \<Rightarrow> nat \<Rightarrow> u32 \<Rightarrow> u64 \<Rightarrow> nat \<Rightarrow> env \<Rightarrow> unit outcome" where
  "ia64_rse_alloc m r1 pfm fip slot e =
     (let old_sof = cfm_sof e;
          new_sof = unat (pfm AND 0x7f); new_sol = unat (drop_bit 7 pfm AND 0x7f); new_sor = unat (drop_bit 14 pfm AND 0xf);
          growth = int new_sof - int (cfm_sof e)
      in if \<not> ia64_cfm_frame_fields_valid new_sof new_sol new_sor
         then ia64_raise_exception IA64_EXCP_ILLEGAL fip 0 slot (e\<lparr>cr_isr := 0\<rparr>)
         else if new_sor \<noteq> cfm_sor e \<and> (cfm_rrb_gr e \<noteq> 0 \<or> cfm_rrb_fr e \<noteq> 0 \<or> cfm_rrb_pr e \<noteq> 0)
         then ia64_raise_exception IA64_EXCP_RESERVED_REG_FIELD fip 0 slot (e\<lparr>cr_isr := 0x30\<rparr>)
         else
           run_bind (ia64_rse_new_frame m growth (ia64_rse_sync_frame_out e)) (\<lambda>_ e1.
             let e2 = e1\<lparr>cfm_sof := new_sof, cfm_sol := new_sol, cfm_sor := new_sor\<rparr>;
                 e3 = (if new_sof > old_sof then ia64_rse_sync_frame_in_range old_sof (new_sof - old_sof) e2 else e2);
                 e4 = ia64_rse_invalidate_stacked_alat e3
             in Inr ((), if r1 \<noteq> 0 then
                           ia64_rse_mark_gr_dirty r1 (ia64_gr_nat_set r1 False (e4\<lparr>gr := (gr e4)(r1 := ar_pfs e4)\<rparr>))
                         else e4)))"

definition ia64_rse_cover :: "env \<Rightarrow> env" where
  "ia64_rse_cover e =
     (let e1 = (if psr e AND IA64_PSR_IC = 0 then e\<lparr>cr_ifs := 0x8000000000000000 OR ia64_rse_current_cfm e\<rparr> else e);
          e2 = ia64_rse_sync_frame_out e1;
          e3 = (ia64_rse_preserve_frame (cfm_sof e2) e2)\<lparr>cfm_sof := 0, cfm_sol := 0, cfm_sor := 0\<rparr>
      in ia64_rse_invalidate_stacked_alat (ia64_rse_reset_rotations e3))"

text \<open>The pointers that \<^verbatim>\<open>loadrs\<close> recomputes from the partitions.\<close>

definition rse_bspstore_from_dirty :: "env \<Rightarrow> env" where
  "rse_bspstore_from_dirty e = e\<lparr>ar_bspstore := ar_bsp e - word_of_int (rse_dirty e + rse_dirty_nat e) * 8\<rparr>"

primrec loadrs_loop :: "machine \<Rightarrow> u64 \<Rightarrow> u64 \<Rightarrow> nat \<Rightarrow> nat \<Rightarrow> u64 \<Rightarrow> env \<Rightarrow> unit outcome" where
  "loadrs_loop m fip raw slot 0 bspload e = Inr ((), e)"
| "loadrs_loop m fip raw slot (Suc words_to_load) bspload e =
     (if rse_dirty e = 96 \<and> ia64_rse_collect_bit bspload \<noteq> 63
      then ia64_raise_exception IA64_EXCP_ILLEGAL fip raw slot e
      else
        run_bind (ia64_rse_load_one m bspload e) (\<lambda>register e1.
          run_bind (ia64_rse_interrupt_window (m_platform m) (rse_bspstore_from_dirty (rse_claim_loaded register e1)))
            (\<lambda>_ e2. loadrs_loop m fip raw slot words_to_load (bspload - 8) e2)))"

definition loadrs_words :: "env \<Rightarrow> int" where
  "loadrs_words e = uint (drop_bit 3 ((drop_bit 16 (ar_rsc e) AND 0x3fff) AND NOT 7))"

definition ia64_rse_load :: "machine \<Rightarrow> u64 \<Rightarrow> u64 \<Rightarrow> nat \<Rightarrow> env \<Rightarrow> unit outcome" where
  "ia64_rse_load m fip raw slot e =
     (let words = loadrs_words e;
          loadrs_bytes = word_of_int (8 * words) :: u64;
          words_to_load = words - (rse_clean e + rse_clean_nat e + rse_dirty e + rse_dirty_nat e)
      in if ar_rsc e AND 3 \<noteq> 0 \<or> (cfm_sof e \<noteq> 0 \<and> loadrs_bytes \<noteq> 0)
         then ia64_raise_exception IA64_EXCP_ILLEGAL fip raw slot e
         else if ia64_rse_register_words_below (ar_bsp e) (word_of_int words) > 96
         then ia64_raise_exception IA64_EXCP_ILLEGAL fip raw slot e
         else
           run_bind
             (if words_to_load \<ge> 0 then
                let e1 = rse_bspstore_from_dirty
                           (e\<lparr>rse_dirty_nat := rse_dirty_nat e + rse_clean_nat e, rse_dirty := rse_dirty e + rse_clean e,
                              rse_clean := 0, rse_clean_nat := 0\<rparr>);
                    live = rse_clean e1 + rse_clean_nat e1 + rse_dirty e1 + rse_dirty_nat e1
                in loadrs_loop m fip raw slot (nat words_to_load) (ar_bsp e1 - word_of_int (live + 1) * 8) e1
              else
                let tear = ar_bsp e - loadrs_bytes;
                    dn = sint (ucast (drop_bit 9 (ar_bsp e) - drop_bit 9 tear) :: u32);
                    e1 = rse_bspstore_from_dirty (e\<lparr>rse_dirty_nat := dn, rse_dirty := words - dn\<rparr>)
                in Inr ((), e1\<lparr>rse_clean := 0, rse_clean_nat := 0, rse_invalid := 96 - (int (cfm_sof e1) + rse_dirty e1)\<rparr>))
             (\<lambda>_ e2.
                let s1 = ia64_rse_rnat_writeback_capture_loadrs (ar_bspstore e2) (rnat e2);
                    s2 = ia64_rse_load_rnat_stash (- 1) (ia64_rse_rnat_shadow_stash s1);
                    s3 = ia64_rse_rnat_shadow_retain_range (ar_bspstore e2 AND NOT 0x1ff) (ar_bsp e2) s2
                in Inr ((), e2\<lparr>rnat := ia64_rse_rnat_detach False s3\<rparr>)))"

section \<open>Loop branches\<close>

text \<open>The body that \<^verbatim>\<open>br.ctop\<close> and \<^verbatim>\<open>br.cexit\<close> share; the flag says that the pipeline stays active.\<close>

definition ia64_rse_br_ctop :: "env \<Rightarrow> bool \<times> env" where
  "ia64_rse_br_ctop e =
     (let lc = ar_lc e; ec = ar_ec e;
          active = (lc \<noteq> 0 \<or> ec > 1)
      in (active,
          if lc \<noteq> 0 then ia64_rotate_loop_regs (e\<lparr>ar_lc := lc - 1, pr := (pr e)(63 := 1)\<rparr>)
          else if ec \<noteq> 0 then ia64_rotate_loop_regs (e\<lparr>ar_ec := ec - 1, pr := (pr e)(63 := 0)\<rparr>)
          else e\<lparr>pr := (pr e)(63 := 0)\<rparr>))"

definition ia64_rse_br_cexit :: "env \<Rightarrow> bool \<times> env" where
  "ia64_rse_br_cexit e = (let (active, e') = ia64_rse_br_ctop e in (\<not> active, e'))"

definition ia64_update_while_loop :: "nat \<Rightarrow> env \<Rightarrow> bool \<times> env" where
  "ia64_update_while_loop qp e =
     (let kernel_active = (pr e (qp mod 64) \<noteq> 0)
      in (kernel_active \<or> ar_ec e > 1,
          if kernel_active then ia64_rotate_loop_regs (e\<lparr>pr := (pr e)(63 := 0)\<rparr>)
          else if ar_ec e \<noteq> 0 then ia64_rotate_loop_regs (e\<lparr>ar_ec := ar_ec e - 1, pr := (pr e)(63 := 0)\<rparr>)
          else e\<lparr>pr := (pr e)(63 := 0)\<rparr>))"

definition ia64_rse_br_wexit :: "nat \<Rightarrow> env \<Rightarrow> bool \<times> env" where
  "ia64_rse_br_wexit qp e = (let (active, e') = ia64_update_while_loop qp e in (\<not> active, e'))"

definition ia64_rse_br_wtop :: "nat \<Rightarrow> env \<Rightarrow> bool \<times> env" where
  "ia64_rse_br_wtop qp e = ia64_update_while_loop qp e"

definition ia64_rse_clrrrb :: "bool \<Rightarrow> env \<Rightarrow> env" where
  "ia64_rse_clrrrb predicate_only e =
     (let e1 = ia64_rse_sync_frame_out e;
          e2 = (if predicate_only then ia64_set_cfm_rrb_pr 0 e1
                else ia64_set_cfm_rrb_pr 0 (ia64_set_cfm_rrb_fr 0 (e1\<lparr>cfm_rrb_gr := 0\<rparr>)));
          e3 = ia64_rse_sync_frame_in e2
      in e3\<lparr>alat_st := ia64_invalidate_stacked_alat (alat_st e3)\<rparr>)"

section \<open>Saved contexts\<close>

text \<open>
  \<^verbatim>\<open>IA64RSEContextState\<close>: \<open>ctx_rnat\<close> holds the latches, the writeback image and the suspended
  collections; the lookup hint of the suspended table is not part of a context.
\<close>

record rse_context =
  ctx_pgr :: "nat \<Rightarrow> u64"
  ctx_pgr_nat :: bits2
  ctx_gr_dirty :: bits2
  ctx_bsp :: u64
  ctx_bspstore :: u64
  ctx_rnat :: rnat_state
  ctx_bol :: nat
  ctx_dirty :: int
  ctx_dirty_nat :: int
  ctx_clean :: int
  ctx_clean_nat :: int
  ctx_invalid :: int
  ctx_sof :: nat
  ctx_sol :: nat
  ctx_sor :: nat
  ctx_rrb_gr :: nat
  ctx_rrb_fr :: nat
  ctx_rrb_pr :: nat
  ctx_cfle :: bool
  ctx_pending :: bool
  ctx_demoted :: bool
  ctx_psr :: u64
  ctx_source_ip :: u64
  ctx_source_slot :: nat

definition ia64_rse_save_context :: "env \<Rightarrow> rse_context \<times> env" where
  "ia64_rse_save_context e0 =
     (let e = ia64_rse_sync_frame_out e0
      in (\<lparr>ctx_pgr = rse_pgr e, ctx_pgr_nat = rse_pgr_nat e, ctx_gr_dirty = rse_gr_dirty e, ctx_bsp = ar_bsp e,
           ctx_bspstore = ar_bspstore e, ctx_rnat = rnat e, ctx_bol = rse_bol e, ctx_dirty = rse_dirty e,
           ctx_dirty_nat = rse_dirty_nat e, ctx_clean = rse_clean e, ctx_clean_nat = rse_clean_nat e,
           ctx_invalid = rse_invalid e, ctx_sof = cfm_sof e, ctx_sol = cfm_sol e, ctx_sor = cfm_sor e,
           ctx_rrb_gr = cfm_rrb_gr e, ctx_rrb_fr = cfm_rrb_fr e, ctx_rrb_pr = cfm_rrb_pr e, ctx_cfle = rse_cfle e,
           ctx_pending = rse_completion_pending e, ctx_demoted = rse_completion_demoted e,
           ctx_psr = rse_completion_psr e, ctx_source_ip = rse_completion_source_ip e,
           ctx_source_slot = rse_completion_source_slot e\<rparr>, e))"

definition ia64_rse_restore_context :: "rse_context \<Rightarrow> env \<Rightarrow> env" where
  "ia64_rse_restore_context x e =
     (let e1 = e\<lparr>rse_pgr := ctx_pgr x, rse_pgr_nat := ctx_pgr_nat x, rse_gr_dirty := ctx_gr_dirty x, ar_bsp := ctx_bsp x,
                 ar_bspstore := ctx_bspstore x,
                 rnat := (ctx_rnat x)\<lparr>rse_rnat_shadow_last := rse_rnat_shadow_last (rnat e)\<rparr>,
                 rse_bol := ctx_bol x, rse_dirty := ctx_dirty x, rse_dirty_nat := ctx_dirty_nat x, rse_clean := ctx_clean x,
                 rse_clean_nat := ctx_clean_nat x, rse_invalid := ctx_invalid x, cfm_sof := ctx_sof x, cfm_sol := ctx_sol x,
                 cfm_sor := ctx_sor x, cfm_rrb_gr := ctx_rrb_gr x\<rparr>;
          e2 = ia64_set_cfm_rrb_pr (ctx_rrb_pr x) (ia64_set_cfm_rrb_fr (ctx_rrb_fr x) e1)
      in ia64_rse_sync_frame_in
           (e2\<lparr>rse_cfle := ctx_cfle x, rse_access := False, rse_completion_pending := ctx_pending x,
               rse_completion_demoted := ctx_demoted x, rse_completion_psr := ctx_psr x,
               rse_completion_source_ip := ctx_source_ip x, rse_completion_source_slot := ctx_source_slot x\<rparr>))"

end
