(* ===== verification/Rse_Stack.thy ===== *)
theory Rse_Stack
  imports Rse_Frame
begin

text \<open>
  The register stack as one stack.  An index counts registers from the bottom of the current frame,
  negative below it.  The stack shows the register whether it is in the physical file or has been spilled to the
  backing store; the invariant says how the partitions and pointers divide the two.
\<close>

section \<open>Backing-store positions\<close>

text \<open>
  The word of register \<open>i\<close> relative to \<^verbatim>\<open>AR.BSP\<close>, whose collection bit is \<open>c\<close>: one collection word
  intervenes for every 63 registers.
\<close>

definition reg_slot :: "int \<Rightarrow> int \<Rightarrow> int" where
  "reg_slot c i = i + (c + i) div 63"

definition reg_addr :: "env \<Rightarrow> int \<Rightarrow> u64" where
  "reg_addr e i = ar_bsp e + word_of_int (8 * reg_slot (rnat_bit (ar_bsp e)) i)"

lemma reg_slot_mono: "i < j \<Longrightarrow> reg_slot c i < reg_slot c j"
  using zdiv_mono1 [of "c + i" "c + j" 63] by (simp add: reg_slot_def)

lemma reg_slot_rebase: "reg_slot ((c + reg_slot c n) mod 64) i = reg_slot c (n + i) - reg_slot c n"
proof -
  have c: "c + reg_slot c n = (c + n) + (c + n) div 63" by (simp add: reg_slot_def)
  have "((c + n) mod 63 + i) div 63 = (c + (n + i)) div 63 - (c + n) div 63"
  proof -
    have "c + (n + i) = ((c + n) mod 63 + i) + 63 * ((c + n) div 63)" by simp
    then have "(c + (n + i)) div 63 = ((c + n) mod 63 + i) div 63 + (c + n) div 63"
      by (metis add.commute div_mult_self2 zero_neq_numeral)
    then show ?thesis by simp
  qed
  then show ?thesis unfolding c add_div_63 by (simp add: reg_slot_def)
qed

lemma word_offset_inj:
  assumes "a + word_of_int (8 * x) = a + (word_of_int (8 * y) :: u64)" and "\<bar>x - y\<bar> < 2 ^ 61"
  shows "x = y"
proof -
  have "(word_of_int (8 * x) :: u64) = word_of_int (8 * y)" using assms(1) by simp
  then have "uint (word_of_int (8 * x) :: u64) = uint (word_of_int (8 * y) :: u64)" by (rule arg_cong)
  moreover have "uint (word_of_int z :: u64) = z mod 2 ^ 64" for z by (simp add: uint_word_of_int_eq take_bit_eq_mod)
  ultimately have "(8 * x) mod 2 ^ 64 = (8 * y) mod 2 ^ 64" by (simp only:)
  then have "2 ^ 64 dvd 8 * x - 8 * y" by (simp only: mod_eq_dvd_iff)
  then obtain k where "8 * x - 8 * y = 2 ^ 64 * k" by (rule dvdE)
  then have k: "x - y = 2305843009213693952 * k" by simp
  with assms(2) have "2305843009213693952 * k < 2305843009213693952" "- 2305843009213693952 < 2305843009213693952 * k"
    by (simp_all add: abs_less_iff)
  then have "k = 0" by linarith
  with k show ?thesis by simp
qed

lemma rnat_bit_below: "b = a + word_of_int (- (8 * k)) \<Longrightarrow> rnat_bit b = (rnat_bit a - k) mod 64"
  using rnat_bit_shift [of a "- k"] by simp

lemma rnat_bit_reg_addr: "rnat_bit (reg_addr e i) = (rnat_bit (ar_bsp e) + i) mod 63"
  unfolding reg_addr_def rnat_bit_shift reg_slot_def using add_div_63(2) [of "rnat_bit (ar_bsp e) + i"]
  by (simp add: add.assoc)

lemma reg_addr_not_collection: "ia64_rse_collect_bit (reg_addr e i) \<noteq> 63"
  unfolding collect_bit_63 rnat_bit_reg_addr by (smt (verit) pos_mod_bound)

lemma reg_slot_bounds:
  assumes "0 \<le> c" "c < 64" "- (2 ^ 59) < i" "i < 2 ^ 59"
  shows "\<bar>reg_slot c i\<bar> < 2 ^ 60"
proof -
  have "(c + i) div 63 \<le> 2 ^ 59" "- (2 ^ 59) \<le> (c + i) div 63"
    using assms zdiv_mono1 [of "c + i" "63 * 2 ^ 59" 63] zdiv_mono1 [of "63 * - (2 ^ 59)" "c + i" 63] by simp_all
  with assms(3,4) show ?thesis unfolding reg_slot_def by (simp add: abs_less_iff)
qed

text \<open>Indices in this range have distinct addresses.\<close>

definition near :: "int \<Rightarrow> bool" where
  "near i \<longleftrightarrow> - (2 ^ 59) < i \<and> i < 2 ^ 59"

lemma reg_addr_inj:
  assumes "near i" "near j" "reg_addr e i = reg_addr e j"
  shows "i = j"
proof -
  let ?s = "reg_slot (rnat_bit (ar_bsp e))"
  have b: "\<bar>?s i\<bar> < 2 ^ 60" "\<bar>?s j\<bar> < 2 ^ 60"
    using assms(1,2) unfolding near_def by (intro reg_slot_bounds rnat_bit_bounds; blast)+
  have "\<bar>?s i - ?s j\<bar> < 2 ^ 61" using b by (simp add: abs_less_iff)
  with assms(3) have "?s i = ?s j" unfolding reg_addr_def by (intro word_offset_inj)
  then show ?thesis using reg_slot_mono [of i j] reg_slot_mono [of j i] by (metis less_irrefl linorder_neqE)
qed

text \<open>
  A word \<open>k\<close> places below \<^verbatim>\<open>AR.BSP\<close> that is not a collection word belongs to the register found by
  taking away the collections between.
\<close>

lemma word_below_register:
  assumes "(c - k) mod 64 \<noteq> 63"
  shows "reg_slot c (- (k - rnat_slots c k)) = - k"
proof -
  obtain q r where x: "c - k = r + 64 * q" "0 \<le> r" "r < 64" "(c - k) mod 64 = r" "(c - k) div 64 = q"
    by (rule split_64)
  have r: "r < 63" using assms x by linarith
  have "k + 63 - c = (63 - r) + 64 * (- q)" using x(1) by simp
  then have s: "rnat_slots c k = - q" unfolding rnat_slots_def using div_mod_64I [of "k + 63 - c" "63 - r" "- q"] x r by simp
  have "c + (- (k - rnat_slots c k)) = r + q * 63" unfolding s using x(1) by simp
  then have "(c + (- (k - rnat_slots c k))) div 63 = q" using x(2) r by simp
  then show ?thesis unfolding reg_slot_def s by simp
qed

lemma word_below_addr:
  assumes "a = ar_bsp e + word_of_int (- (8 * k))" and "ia64_rse_collect_bit a \<noteq> 63"
    and "n = k - rnat_slots (rnat_bit (ar_bsp e)) k"
  shows "a = reg_addr e (- n)"
proof -
  have "rnat_bit a = (rnat_bit (ar_bsp e) - k) mod 64" by (rule rnat_bit_below [OF assms(1)])
  then have "(rnat_bit (ar_bsp e) - k) mod 64 \<noteq> 63" using assms(2) unfolding collect_bit_63 by simp
  from word_below_register [OF this] show ?thesis unfolding reg_addr_def assms(1,3) by simp
qed

section \<open>Byte order\<close>

lemma bit_ff: "bit (0xff :: u64) k \<longleftrightarrow> k < 8"
proof -
  have "(0xff :: u64) = mask 8" by (simp add: mask_eq_exp_minus_1)
  then show ?thesis by (simp only: bit_mask_iff) auto
qed

lemma bit_bswap_part:
  "n < 64 \<Longrightarrow> bit (push_bit (8 * j) (drop_bit (8 * i) x AND 0xff :: u64)) n \<longleftrightarrow> n div 8 = j \<and> bit x (8 * i + n mod 8)"
proof -
  assume n: "n < 64"
  have d: "8 * j \<le> n \<and> n - 8 * j < 8 \<longleftrightarrow> n div 8 = j" and m: "n div 8 = j \<Longrightarrow> n - 8 * j = n mod 8"
    by (auto simp: minus_mult_div_eq_mod)
  have "bit (push_bit (8 * j) (drop_bit (8 * i) x AND 0xff :: u64)) n \<longleftrightarrow>
      (8 * j \<le> n \<and> n - 8 * j < 8) \<and> bit x (8 * i + (n - 8 * j))"
    using n by (auto simp only: bit_push_bit_iff bit_and_iff bit_drop_bit_eq bit_ff comp_def possible_bit_word len_num1 len_bit0)
  then show ?thesis unfolding d using m by auto
qed

lemma bit_bswap64: "q < 8 \<Longrightarrow> r < 8 \<Longrightarrow> bit (bswap64 x) (8 * q + r) \<longleftrightarrow> bit x (8 * (7 - q) + r)"
proof -
  assume q: "q < 8" and r: "r < (8 :: nat)"
  let ?n = "8 * q + r"
  have n: "?n < 64" "?n div 8 = q" "?n mod 8 = r" using q r by auto
  have f: "bswap64 x = push_bit (8 * 0) (drop_bit (8 * 7) x AND 0xff) OR push_bit (8 * 1) (drop_bit (8 * 6) x AND 0xff) OR
    push_bit (8 * 2) (drop_bit (8 * 5) x AND 0xff) OR push_bit (8 * 3) (drop_bit (8 * 4) x AND 0xff) OR
    push_bit (8 * 4) (drop_bit (8 * 3) x AND 0xff) OR push_bit (8 * 5) (drop_bit (8 * 2) x AND 0xff) OR
    push_bit (8 * 6) (drop_bit (8 * 1) x AND 0xff) OR push_bit (8 * 7) (drop_bit (8 * 0) x AND 0xff)"
    unfolding bswap64_def by (simp add: upt_rec ac_simps)
  from q consider "q = 0" | "q = 1" | "q = 2" | "q = 3" | "q = 4" | "q = 5" | "q = 6" | "q = 7" by linarith
  then show ?thesis
    unfolding f bit_or_iff bit_bswap_part [OF n(1)] n(2,3) by cases simp_all
qed

lemma bswap64_involutory: "bswap64 (bswap64 x) = x"
proof (rule bit_word_eqI)
  fix n assume "n < LENGTH(64)"
  then have n: "n = 8 * (n div 8) + n mod 8" "n div 8 < 8" "n mod 8 < 8" "7 - n div 8 < 8" by auto
  have "bit (bswap64 (bswap64 x)) (8 * (n div 8) + n mod 8) = bit x (8 * (n div 8) + n mod 8)"
    unfolding bit_bswap64 [OF n(2,3)] bit_bswap64 [OF n(4,3)] using n(2) by simp
  then show "bit (bswap64 (bswap64 x)) n = bit x n" by simp
qed

lemma rse_order_involutory [simp]: "rse_order be (rse_order be w) = w"
  by (simp add: rse_order_def bswap64_involutory)

section \<open>The invariant\<close>

text \<open>
  The partitions cover the file once, the pointers and the counts of collection words follow from
  them, and the frame marker is well formed.  A negative dirty partition is a frame that mandatory
  loads have still to complete.
\<close>

definition dirty_words :: "env \<Rightarrow> int" where
  "dirty_words e = rse_dirty e + rse_dirty_nat e"

definition live_words :: "env \<Rightarrow> int" where
  "live_words e = rse_dirty e + rse_dirty_nat e + (rse_clean e + rse_clean_nat e)"

definition rse_inv :: "env \<Rightarrow> bool" where
  "rse_inv e \<longleftrightarrow> frame_ok e \<and> rnat_bit (ar_bsp e) < 63 \<and>
     int (cfm_sof e) + rse_dirty e + rse_clean e + rse_invalid e = 96 \<and> 0 \<le> rse_clean e \<and> 0 \<le> rse_invalid e \<and>
     0 \<le> int (cfm_sof e) + rse_dirty e \<and>
     rse_dirty_nat e = rnat_slots (rnat_bit (ar_bsp e)) (dirty_words e) \<and>
     rse_dirty_nat e + rse_clean_nat e = rnat_slots (rnat_bit (ar_bsp e)) (live_words e) \<and>
     ar_bspstore e = ar_bsp e + word_of_int (- (8 * dirty_words e))"

lemma rse_invD:
  assumes "rse_inv e"
  shows "frame_ok e" "rnat_bit (ar_bsp e) < 63"
    "int (cfm_sof e) + rse_dirty e + rse_clean e + rse_invalid e = 96" "0 \<le> rse_clean e" "0 \<le> rse_invalid e"
    "0 \<le> int (cfm_sof e) + rse_dirty e"
    "rse_dirty_nat e = rnat_slots (rnat_bit (ar_bsp e)) (dirty_words e)"
    "rse_dirty_nat e + rse_clean_nat e = rnat_slots (rnat_bit (ar_bsp e)) (live_words e)"
    "ar_bspstore e = ar_bsp e + word_of_int (- (8 * dirty_words e))"
  using assms unfolding rse_inv_def by blast+

section \<open>The stack\<close>

text \<open>The physical file with the pending writes of the current frame applied.\<close>

definition file_value :: "env \<Rightarrow> nat \<Rightarrow> u64" where
  "file_value e p =
     (let v = ia64_rse_phys_to_virt e p
      in if v < cfm_sof e \<and> bits2_get (rse_gr_dirty e) v then gr e (32 + v) else rse_pgr e p)"

definition reg_phys :: "env \<Rightarrow> int \<Rightarrow> nat" where
  "reg_phys e i = ia64_rse_wrap_phys (int (rse_bol e) + i)"

definition stored_value :: "env \<Rightarrow> int \<Rightarrow> u64" where
  "stored_value e i = rse_order (rse_big_endian e) (mem e (reg_addr e i))"

definition stack :: "env \<Rightarrow> int \<Rightarrow> u64" where
  "stack e i = (if - (rse_dirty e + rse_clean e) \<le> i then file_value e (reg_phys e i) else stored_value e i)"

text \<open>A clean register is in the file and in the backing store.\<close>

definition clean_coherent :: "env \<Rightarrow> bool" where
  "clean_coherent e \<longleftrightarrow> (\<forall>i. - (rse_dirty e + rse_clean e) \<le> i \<and> i < - rse_dirty e \<longrightarrow>
     stored_value e i = rse_pgr e (reg_phys e i))"

definition rse_good :: "env \<Rightarrow> bool" where
  "rse_good e \<longleftrightarrow> rse_inv e \<and> frame_coherent e \<and> clean_coherent e"

text \<open>The fields that the invariant and the stack depend on.\<close>

definition rse_core where
  "rse_core e = ((gr e, nat_bits e, rse_pgr e, rse_pgr_nat e, rse_gr_dirty e, rse_bol e, mem e),
     (ar_rsc e, ar_bsp e, ar_bspstore e), (rse_dirty e, rse_dirty_nat e, rse_clean e, rse_clean_nat e, rse_invalid e),
     (cfm_sof e, cfm_sol e, cfm_sor e, cfm_rrb_gr e))"

lemma reg_phys_eq: "int (reg_phys e i) = (int (rse_bol e) + i) mod 96"
  by (simp add: reg_phys_def int_wrap_phys)

lemma reg_phys_less [simp]: "reg_phys e i < 96"
  by (simp add: reg_phys_def)

lemma reg_phys_inj:
  assumes "reg_phys e i = reg_phys e j" and "\<bar>i - j\<bar> < 96"
  shows "i = j"
proof -
  have "(int (rse_bol e) + i) mod 96 = (int (rse_bol e) + j) mod 96"
    using assms(1) reg_phys_eq [of e i] reg_phys_eq [of e j] by simp
  then have "96 dvd i - j" by (simp add: mod_eq_dvd_iff)
  then obtain k where k: "i - j = 96 * k" by (rule dvdE)
  with assms(2) have "96 * k < 96" "- 96 < 96 * k" by linarith+
  then have "k = 0" by linarith
  with k show ?thesis by simp
qed

lemma rse_coreD:
  assumes "rse_core e' = rse_core e"
  shows "gr e' = gr e" "nat_bits e' = nat_bits e" "rse_pgr e' = rse_pgr e" "rse_pgr_nat e' = rse_pgr_nat e"
    "rse_gr_dirty e' = rse_gr_dirty e" "rse_bol e' = rse_bol e"
    "mem e' = mem e" "ar_rsc e' = ar_rsc e" "ar_bsp e' = ar_bsp e" "ar_bspstore e' = ar_bspstore e"
    "rse_dirty e' = rse_dirty e" "rse_dirty_nat e' = rse_dirty_nat e" "rse_clean e' = rse_clean e"
    "rse_clean_nat e' = rse_clean_nat e" "rse_invalid e' = rse_invalid e" "cfm_sof e' = cfm_sof e"
    "cfm_sol e' = cfm_sol e" "cfm_sor e' = cfm_sor e" "cfm_rrb_gr e' = cfm_rrb_gr e"
  using assms by (simp_all add: rse_core_def)

lemma virt_to_phys_frame_cong:
  "rse_bol e = rse_bol f \<Longrightarrow> cfm_sof e = cfm_sof f \<Longrightarrow> cfm_sor e = cfm_sor f \<Longrightarrow> cfm_rrb_gr e = cfm_rrb_gr f \<Longrightarrow>
   ia64_rse_virt_to_phys e v = ia64_rse_virt_to_phys f v"
  by (simp only: ia64_rse_virt_to_phys_def ia64_rse_rotating_gr_count_def)

lemma core_cong:
  assumes "rse_core e' = rse_core e"
  shows "rse_good e' = rse_good e" "stack e' = stack e" "rse_inv e' = rse_inv e"
    "frame_coherent e' = frame_coherent e" "clean_coherent e' = clean_coherent e" "frame_ok e' = frame_ok e"
proof -
  note f = rse_coreD [OF assms]
  have v: "ia64_rse_virt_to_phys e' = ia64_rse_virt_to_phys e" "ia64_rse_phys_to_virt e' = ia64_rse_phys_to_virt e"
    using f(6,16,18,19) by (auto intro!: ext virt_to_phys_frame_cong phys_to_virt_cong)
  have g: "reg_addr e' = reg_addr e" "reg_phys e' = reg_phys e" "rse_big_endian e' = rse_big_endian e"
    by (auto intro!: ext simp only: reg_addr_def reg_phys_def rse_big_endian_def f)
  have h: "file_value e' = file_value e" "stored_value e' = stored_value e"
    by (auto intro!: ext simp only: file_value_def stored_value_def f v g)
  show i: "rse_inv e' = rse_inv e"
    by (simp only: rse_inv_def frame_ok_def dirty_words_def live_words_def f)
  show "stack e' = stack e" by (rule ext) (simp only: stack_def f g h)
  show c: "frame_coherent e' = frame_coherent e" by (simp only: frame_coherent_def f v)
  show d: "clean_coherent e' = clean_coherent e" by (simp only: clean_coherent_def f g h)
  show "frame_ok e' = frame_ok e" by (simp only: frame_ok_def f)
  show "rse_good e' = rse_good e" unfolding rse_good_def i c d ..
qed

lemma phys_frame_index:
  assumes ok: "frame_ok e" and i: "0 \<le> i" "i < 96"
  shows "ia64_rse_phys_to_virt e (reg_phys e i) < cfm_sof e \<longleftrightarrow> i < int (cfm_sof e)"
proof -
  note fr = frame_okD [OF ok]
  let ?n = "8 * cfm_sor e" and ?r = "cfm_rrb_gr e" and ?v = "ia64_rse_phys_to_virt e (reg_phys e i)"
  have nr: "0 < ?n \<or> ?r = 0" using fr(6) by auto
  have v: "ia64_rse_virt_to_phys e ?v = reg_phys e i" "?v < 96" using phys_virt_inverse [OF ok reg_phys_less] by blast+
  have x: "rot_index ?n ?r ?v < 96" using rot_index_bounds(2) [OF nr, of 96 ?v] fr(1,3) v(2) by simp
  have "int ((rse_bol e + rot_index ?n ?r ?v) mod 96) = (int (rse_bol e) + i) mod 96"
    using v(1) virt_to_phys_alt [OF ok v(2)] reg_phys_eq [of e i] by simp
  then have "reg_phys e (int (rot_index ?n ?r ?v)) = reg_phys e i"
    using reg_phys_eq [of e "int (rot_index ?n ?r ?v)"] reg_phys_eq [of e i] by (simp add: zmod_int)
  then have "int (rot_index ?n ?r ?v) = i" by (rule reg_phys_inj) (use x i in linarith)
  moreover have "rot_index ?n ?r ?v < cfm_sof e \<longleftrightarrow> ?v < cfm_sof e"
  proof (cases "?v < ?n")
    case True
    then have "rot_index ?n ?r ?v < ?n" using rot_index_bounds(1) [OF nr] by blast
    with True fr(3) show ?thesis by linarith
  next
    case False
    then show ?thesis by (simp add: rot_index_def)
  qed
  ultimately show ?thesis by linarith
qed

lemma reg_phys_shift: "reg_phys e (i + 96) = reg_phys e i"
  unfolding reg_phys_def by (rule wrap_phys_cong) (simp add: add.assoc [symmetric])

lemma phys_outside_frame:
  assumes "frame_ok e" "int (cfm_sof e) - 96 \<le> i" "i < 0"
  shows "\<not> ia64_rse_phys_to_virt e (reg_phys e i) < cfm_sof e"
  using phys_frame_index [OF assms(1), of "i + 96"] assms(2,3) by (simp add: reg_phys_shift)

lemma file_value_below:
  assumes "frame_ok e" "int (cfm_sof e) - 96 \<le> i" "i < 0"
  shows "file_value e (reg_phys e i) = rse_pgr e (reg_phys e i)"
  using phys_outside_frame [OF assms] by (simp add: file_value_def Let_def)

lemma file_value_frame:
  assumes "frame_ok e" "frame_coherent e" "0 \<le> i" "i < int (cfm_sof e)"
  shows "file_value e (reg_phys e i) = gr e (32 + ia64_rse_phys_to_virt e (reg_phys e i))"
proof -
  have "i < 96" using assms(4) frame_okD(1) [OF assms(1)] by linarith
  then have "ia64_rse_phys_to_virt e (reg_phys e i) < cfm_sof e" using phys_frame_index assms by blast
  with assms(2) phys_virt_inverse [OF assms(1) reg_phys_less, of e i] show ?thesis
    by (auto simp: file_value_def Let_def frame_coherent_def)
qed

section \<open>Mandatory stores\<close>

lemma bspstore_bit:
  assumes "rse_inv e"
  shows "rnat_bit (ar_bspstore e) = (rnat_bit (ar_bsp e) - dirty_words e) mod 64"
  by (rule rnat_bit_below [OF rse_invD(9) [OF assms]])

lemma reg_slot_zero: "rnat_bit a < 63 \<Longrightarrow> reg_slot (rnat_bit a) 0 = 0"
  by (simp add: reg_slot_def)

lemma bspstore_register:
  assumes inv: "rse_inv e" and bit: "ia64_rse_collect_bit (ar_bspstore e) \<noteq> 63"
  shows "ar_bspstore e = reg_addr e (- rse_dirty e)" and "0 < dirty_words e \<Longrightarrow> 0 < rse_dirty e"
proof -
  note i = rse_invD [OF inv]
  have d: "rse_dirty e = dirty_words e - rnat_slots (rnat_bit (ar_bsp e)) (dirty_words e)"
    using i(7) by (simp add: dirty_words_def)
  show "ar_bspstore e = reg_addr e (- rse_dirty e)" by (rule word_below_addr [OF i(9) bit d])
  have "(rnat_bit (ar_bsp e) - dirty_words e) mod 64 \<noteq> 63" using bit bspstore_bit [OF inv] by (simp add: collect_bit_63)
  from word_below_register [OF this] have s: "reg_slot (rnat_bit (ar_bsp e)) (- rse_dirty e) = - dirty_words e"
    unfolding d .
  show "0 < rse_dirty e" if "0 < dirty_words e"
  proof (rule ccontr)
    assume "\<not> 0 < rse_dirty e"
    then have "reg_slot (rnat_bit (ar_bsp e)) 0 \<le> reg_slot (rnat_bit (ar_bsp e)) (- rse_dirty e)"
      using reg_slot_mono [of 0 "- rse_dirty e"] by (cases "rse_dirty e = 0") (auto intro: less_imp_le)
    with s that reg_slot_zero [OF i(2)] show False by linarith
  qed
qed

text \<open>The clean partition is empty where the processor model has none.\<close>

definition clean_allowed :: "machine \<Rightarrow> env \<Rightarrow> bool" where
  "clean_allowed m e \<longleftrightarrow> rse_has_clean_partition (m_class m) \<or> (rse_clean e = 0 \<and> rse_clean_nat e = 0)"

lemma slots_pred:
  "rnat_slots c (k - 1) = rnat_slots c k - (if (c - k) mod 64 = 63 then 1 else 0)"
  using rnat_slots_succ [of c "k - 1"] by simp

lemma store_pointer:
  assumes inv: "rse_inv e"
  shows "ar_bspstore e + 8 = ar_bsp e + word_of_int (- (8 * (dirty_words e - 1)))"
    and "rnat_slots (rnat_bit (ar_bsp e)) (dirty_words e - 1) =
      rse_dirty_nat e - (if ia64_rse_collect_bit (ar_bspstore e) = 63 then 1 else 0)"
proof -
  note i = rse_invD [OF inv]
  show "ar_bspstore e + 8 = ar_bsp e + word_of_int (- (8 * (dirty_words e - 1)))" unfolding i(9) by (simp add: algebra_simps)
  have b: "(rnat_bit (ar_bsp e) - dirty_words e) mod 64 = 63 \<longleftrightarrow> ia64_rse_collect_bit (ar_bspstore e) = 63"
    by (simp add: collect_bit_63 bspstore_bit [OF inv])
  show "rnat_slots (rnat_bit (ar_bsp e)) (dirty_words e - 1) =
      rse_dirty_nat e - (if ia64_rse_collect_bit (ar_bspstore e) = 63 then 1 else 0)"
    unfolding slots_pred b i(7) [symmetric] ..
qed

text \<open>The bookkeeping of one spilled word, whichever of the two kinds.\<close>

lemma spilled_inv:
  assumes inv: "rse_inv e" and ca: "clean_allowed m e"
    and n: "n = (if ia64_rse_collect_bit (ar_bspstore e) = 63 then 1 else 0)" and w: "w = 1 - n" and d: "w \<le> rse_dirty e \<or> w = 0"
    and f: "frame_ok e' = frame_ok e" "ar_bsp e' = ar_bsp e" "cfm_sof e' = cfm_sof e" "ar_bspstore e' = ar_bspstore e + 8"
      "rse_dirty e' = rse_dirty e - w" "rse_dirty_nat e' = rse_dirty_nat e - n"
    and g: "if rse_has_clean_partition (m_class m)
      then rse_clean e' = rse_clean e + w \<and> rse_clean_nat e' = rse_clean_nat e + n \<and> rse_invalid e' = rse_invalid e
      else rse_clean e' = rse_clean e \<and> rse_clean_nat e' = rse_clean_nat e \<and> rse_invalid e' = rse_invalid e + w"
  shows "rse_inv e' \<and> clean_allowed m e' \<and> dirty_words e' = dirty_words e - 1"
proof -
  note i = rse_invD [OF inv]
  have nw: "0 \<le> w" "w + n = 1" using n w by (simp_all split: if_splits)
  have dw: "dirty_words e' = dirty_words e - 1" using nw f(5,6) by (simp add: dirty_words_def)
  have dn: "rse_dirty_nat e' = rnat_slots (rnat_bit (ar_bsp e)) (dirty_words e')"
    unfolding dw store_pointer(2) [OF inv] f(6) n ..
  have bs: "ar_bspstore e' = ar_bsp e + word_of_int (- (8 * dirty_words e'))" unfolding dw f(4) by (rule store_pointer(1) [OF inv])
  have sof: "0 \<le> int (cfm_sof e) + rse_dirty e'" using d i(6) nw f(5) by auto
  show ?thesis
  proof (cases "rse_has_clean_partition (m_class m)")
    case True
    with g have g: "rse_clean e' = rse_clean e + w" "rse_clean_nat e' = rse_clean_nat e + n" "rse_invalid e' = rse_invalid e" by simp_all
    have "live_words e' = live_words e" by (simp add: live_words_def f(5,6) g)
    moreover have "rse_dirty_nat e' + rse_clean_nat e' = rse_dirty_nat e + rse_clean_nat e" by (simp add: f(6) g)
    ultimately have "rse_dirty_nat e' + rse_clean_nat e' = rnat_slots (rnat_bit (ar_bsp e)) (live_words e')" using i(8) by simp
    with i nw dn bs sof dw True show ?thesis unfolding rse_inv_def clean_allowed_def f(1-3) by (simp add: f(5) g)
  next
    case False
    with g ca have g: "rse_clean e' = 0" "rse_clean_nat e' = 0" "rse_invalid e' = rse_invalid e + w" "rse_clean e = 0"
      by (simp_all add: clean_allowed_def)
    have "live_words e' = dirty_words e'" by (simp add: live_words_def dirty_words_def g)
    then have "rse_dirty_nat e' + rse_clean_nat e' = rnat_slots (rnat_bit (ar_bsp e)) (live_words e')" using dn g(2) by simp
    with i nw dn bs sof dw False show ?thesis unfolding rse_inv_def clean_allowed_def f(1-3) by (simp add: f(5) g)
  qed
qed

lemma store_inv:
  assumes inv: "rse_inv e" and ca: "clean_allowed m e" and pos: "0 < dirty_words e" and st: "ia64_rse_store_one m e = Inr (r, e')"
  shows "rse_inv e' \<and> clean_allowed m e' \<and> dirty_words e' = dirty_words e - 1"
proof (cases "ia64_rse_collect_bit (ar_bspstore e) = 63")
  case True
  show ?thesis
  proof (rule store_one_collection [OF st True], goal_cases)
    case (1 s q c)
    show ?thesis
      by (rule spilled_inv [OF inv ca, of 1 0]) (use True in \<open>simp_all add: 1 referenced_def frame_ok_def\<close>)
  qed
next
  case False
  have d: "1 \<le> rse_dirty e" using bspstore_register(2) [OF inv False pos] by simp
  show ?thesis
  proof (rule store_one_register [OF st False], goal_cases)
    case (1 s q)
    show ?thesis
      by (rule spilled_inv [OF inv ca, of 0 1]) (use False d in \<open>simp_all add: 1 referenced_def frame_ok_def\<close>)
  qed
qed

text \<open>What a spill leaves alone: the registers, the file, the frame marker and \<^verbatim>\<open>BSP\<close>.\<close>

definition rse_file where
  "rse_file e = ((gr e, nat_bits e, rse_pgr e, rse_pgr_nat e, rse_gr_dirty e, rse_bol e), (ar_rsc e, ar_bsp e, ar_pfs e),
     (cfm_sof e, cfm_sol e, cfm_sor e, cfm_rrb_gr e))"

lemma rse_fileD:
  assumes "rse_file e' = rse_file e"
  shows "gr e' = gr e" "nat_bits e' = nat_bits e" "rse_pgr e' = rse_pgr e" "rse_pgr_nat e' = rse_pgr_nat e"
    "rse_gr_dirty e' = rse_gr_dirty e" "rse_bol e' = rse_bol e" "ar_rsc e' = ar_rsc e" "ar_bsp e' = ar_bsp e"
    "cfm_sof e' = cfm_sof e" "cfm_sol e' = cfm_sol e" "cfm_sor e' = cfm_sor e" "cfm_rrb_gr e' = cfm_rrb_gr e"
    "ar_pfs e' = ar_pfs e"
  using assms by (simp_all add: rse_file_def)

lemma file_cong:
  assumes "rse_file e' = rse_file e"
  shows "file_value e' = file_value e" "reg_phys e' = reg_phys e" "reg_addr e' = reg_addr e"
    "rse_big_endian e' = rse_big_endian e" "frame_coherent e' = frame_coherent e"
proof -
  note f = rse_fileD [OF assms]
  have v: "ia64_rse_virt_to_phys e' = ia64_rse_virt_to_phys e" "ia64_rse_phys_to_virt e' = ia64_rse_phys_to_virt e"
    using f(6,9,11,12) by (auto intro!: ext virt_to_phys_frame_cong phys_to_virt_cong)
  show "file_value e' = file_value e" "reg_phys e' = reg_phys e" "reg_addr e' = reg_addr e"
    "rse_big_endian e' = rse_big_endian e" "frame_coherent e' = frame_coherent e"
    by (auto intro!: ext simp only: file_value_def reg_phys_def reg_addr_def rse_big_endian_def frame_coherent_def f v)
qed

lemma store_one_file:
  assumes st: "ia64_rse_store_one m e = Inr (r, e')"
  shows "rse_file e' = rse_file e"
proof (cases "ia64_rse_collect_bit (ar_bspstore e) = 63")
  case True
  show ?thesis by (rule store_one_collection [OF st True]) (simp add: rse_file_def referenced_def)
next
  case False
  show ?thesis by (rule store_one_register [OF st False]) (simp add: rse_file_def referenced_def)
qed

lemma live_bounds:
  assumes "rse_inv e"
  shows "int (cfm_sof e) - 96 \<le> - (rse_dirty e + rse_clean e)" "int (cfm_sof e) \<le> 96" "- (rse_dirty e + rse_clean e) \<le> int (cfm_sof e)"
  using rse_invD [OF assms] frame_okD(1) [OF rse_invD(1) [OF assms]] by linarith+

lemma near_small: "- 96 \<le> i \<Longrightarrow> i \<le> 96 \<Longrightarrow> near i"
  by (simp add: near_def)

text \<open>Spilling one word moves a register from the file to the backing store without changing the stack.\<close>

lemma store_stack:
  assumes good: "rse_good e" and ca: "clean_allowed m e" and pos: "0 < dirty_words e" and st: "ia64_rse_store_one m e = Inr (r, e')"
  shows "rse_good e' \<and> (\<forall>i. near i \<longrightarrow> stack e' i = stack e i)"
proof -
  have inv: "rse_inv e" and fc: "frame_coherent e" and cc: "clean_coherent e" using good by (simp_all add: rse_good_def)
  note i = rse_invD [OF inv] and lb = live_bounds [OF inv] and fl = file_cong [OF store_one_file [OF st]]
  have inv': "rse_inv e'" using store_inv [OF inv ca pos st] by blast
  have fc': "frame_coherent e'" using fc fl(5) by simp
  show ?thesis
  proof (cases "ia64_rse_collect_bit (ar_bspstore e) = 63")
    case True
    have ne: "reg_addr e j \<noteq> ar_bspstore e" for j using reg_addr_not_collection [of e j] True by auto
    show ?thesis
    proof (rule store_one_collection [OF st True], goal_cases)
      case (1 s q c)
      have sv: "stored_value e' j = stored_value e j" for j
        unfolding stored_value_def fl by (simp add: 1 referenced_def ne)
      have f: "rse_dirty e' = rse_dirty e" "rse_clean e' = rse_clean e" "rse_pgr e' = rse_pgr e" by (simp_all add: 1 referenced_def)
      have "clean_coherent e'" using cc unfolding clean_coherent_def sv f fl .
      moreover have "stack e' j = stack e j" for j unfolding stack_def sv f fl ..
      ultimately show ?thesis using inv' fc' by (simp add: rse_good_def)
    qed
  next
    case False
    let ?d = "- rse_dirty e"
    have d: "0 < rse_dirty e" and a: "ar_bspstore e = reg_addr e ?d"
      using bspstore_register [OF inv False] pos by simp_all
    have nd: "near ?d" using d lb i(4) by (intro near_small) linarith+
    show ?thesis
    proof (rule store_one_register [OF st False], goal_cases)
      case (1 s q)
      have p: "ia64_rse_wrap_phys (int (rse_bol e) - rse_dirty e) = reg_phys e ?d" by (simp add: reg_phys_def)
      have sv: "stored_value e' j = (if j = ?d then rse_pgr e (reg_phys e ?d) else stored_value e j)" if "near j" for j
      proof -
        have "reg_addr e j = ar_bspstore e \<longleftrightarrow> j = ?d" using reg_addr_inj [OF that nd] a by auto
        then show ?thesis unfolding stored_value_def fl by (simp add: 1(2) referenced_def p)
      qed
      have f: "rse_dirty e' = rse_dirty e - 1" "rse_pgr e' = rse_pgr e"
        "rse_clean e' = (if rse_has_clean_partition (m_class m) then rse_clean e + 1 else rse_clean e)"
        by (simp_all add: 1 referenced_def)
      have fv: "file_value e (reg_phys e ?d) = rse_pgr e (reg_phys e ?d)"
        using file_value_below [OF i(1), of ?d] d lb i(4) by linarith
      have cl: "rse_has_clean_partition (m_class m) \<or> rse_clean e = 0" using ca by (auto simp: clean_allowed_def)
      have "clean_coherent e'"
        unfolding clean_coherent_def fl f
      proof (intro allI impI)
        fix j assume j: "- (rse_dirty e - 1 + (if rse_has_clean_partition (m_class m) then rse_clean e + 1 else rse_clean e)) \<le> j \<and>
          j < - (rse_dirty e - 1)"
        then have r: "- (rse_dirty e + rse_clean e) \<le> j" "j \<le> ?d" using cl by (auto split: if_splits)
        have "near j" using r lb d by (intro near_small) linarith+
        then show "stored_value e' j = rse_pgr e (reg_phys e j)"
          using sv [of j] cc r unfolding clean_coherent_def by (cases "j = ?d") auto
      qed
      moreover have "stack e' j = stack e j" if "near j" for j
        using cl fv i(4) unfolding stack_def sv [OF that] f fl by auto
      ultimately show ?thesis using inv' fc' by (simp add: rse_good_def)
    qed
  qed
qed

section \<open>Flushing\<close>

text \<open>A sequence of spills, as the loops of \<^verbatim>\<open>flushrs\<close> and \<^verbatim>\<open>alloc\<close> make it.\<close>

definition spills :: "machine \<Rightarrow> env \<Rightarrow> env \<Rightarrow> bool" where
  "spills m e e' \<longleftrightarrow> rse_good e' \<and> clean_allowed m e' \<and> rse_file e' = rse_file e \<and>
     (\<forall>i. near i \<longrightarrow> stack e' i = stack e i)"

lemma spills_refl: "rse_good e \<Longrightarrow> clean_allowed m e \<Longrightarrow> spills m e e"
  by (simp add: spills_def)

lemma spills_step:
  assumes "spills m e e1" "0 < dirty_words e1" "ia64_rse_store_one m e1 = Inr (r, e2)"
  shows "spills m e e2"
proof -
  note e1 = assms(1) [unfolded spills_def]
  have g: "rse_good e1" "clean_allowed m e1" using e1 by blast+
  have "rse_inv e1" using g by (simp add: rse_good_def)
  from store_inv [OF this g(2) assms(2,3)] store_stack [OF g assms(2,3)] store_one_file [OF assms(3)] e1
  show ?thesis by (simp add: spills_def)
qed

lemma flush_spills:
  assumes "spills m e0 e" and "ia64_rse_flush m e = Inr (u, e')"
  shows "spills m e0 e' \<and> dirty_words e' \<le> 0"
  using assms
proof (induction m e rule: ia64_rse_flush.induct)
  case (1 m e)
  show ?case
  proof (cases "0 < rse_dirty e + rse_dirty_nat e")
    case False
    with 1(3) have "e' = e" by (subst (asm) ia64_rse_flush.simps) simp
    with 1(2) False show ?thesis by (simp add: dirty_words_def)
  next
    case True
    with 1(3) obtain r e1 where st: "ia64_rse_store_one m e = Inr (r, e1)"
      and w: "run_bind (ia64_rse_interrupt_window (m_platform m) e1) (\<lambda>_ e2. ia64_rse_flush m e2) = Inr (u, e')"
      by (subst (asm) ia64_rse_flush.simps) (auto simp: run_bind_Inr)
    from w have f: "ia64_rse_interrupt_window (m_platform m) e1 = Inr ((), e1)" "ia64_rse_flush m e1 = Inr (u, e')"
      by (auto simp: run_bind_Inr dest: interrupt_window_Inr)
    have "spills m e0 e1" using spills_step [OF 1(2) _ st] True by (simp add: dirty_words_def)
    with 1(1) [OF True st f(1)] f(2) show ?thesis by blast
  qed
qed

lemma rnat_slots_sign:
  assumes "0 \<le> c" "c < 63"
  shows "k \<le> 0 \<Longrightarrow> k \<le> rnat_slots c k" "k < 0 \<Longrightarrow> k < rnat_slots c k" "k < 0 \<Longrightarrow> rnat_slots c k \<le> 0"
    "0 \<le> k \<Longrightarrow> 0 \<le> rnat_slots c k \<and> rnat_slots c k \<le> k"
proof -
  show "k \<le> rnat_slots c k" if "k \<le> 0"
    using that assms zdiv_mono1 [of "64 * k" "k + 63 - c" 64] by (simp add: rnat_slots_def)
  show "k < rnat_slots c k" if "k < 0"
    using that assms zdiv_mono1 [of "64 * (k + 1)" "k + 63 - c" 64] by (simp add: rnat_slots_def)
  show "rnat_slots c k \<le> 0" if "k < 0"
    using that assms zdiv_mono1 [of "k + 63 - c" 63 64] by (simp add: rnat_slots_def)
  show "0 \<le> rnat_slots c k \<and> rnat_slots c k \<le> k" if "0 \<le> k"
    using that assms zdiv_mono1 [of 0 "k + 63 - c" 64] zdiv_mono1 [of "k + 63 - c" "64 * k + 63" 64] by (simp add: rnat_slots_def)
qed

lemma dirty_words_sign:
  assumes inv: "rse_inv e"
  shows "0 < rse_dirty e \<Longrightarrow> 0 < dirty_words e" and "dirty_words e < 0 \<longleftrightarrow> rse_dirty e < 0 \<or> rse_dirty_nat e < 0"
    and "0 \<le> dirty_words e \<Longrightarrow> 0 \<le> rse_dirty e \<and> 0 \<le> rse_dirty_nat e" and "dirty_words e < 0 \<Longrightarrow> rse_dirty e < 0"
proof -
  note i = rse_invD [OF inv]
  have w: "dirty_words e = rse_dirty e + rse_dirty_nat e" by (simp add: dirty_words_def)
  note s = rnat_slots_sign [OF rnat_bit_bounds(1) i(2), of "dirty_words e", folded i(7)]
  show "0 < dirty_words e" if "0 < rse_dirty e" using that s(1) w by linarith
  show "dirty_words e < 0 \<longleftrightarrow> rse_dirty e < 0 \<or> rse_dirty_nat e < 0" using s w by linarith
  show "0 \<le> rse_dirty e \<and> 0 \<le> rse_dirty_nat e" if "0 \<le> dirty_words e" using that s(4) w by linarith
  show "rse_dirty e < 0" if "dirty_words e < 0" using that s(2) w by linarith
qed

lemma spill_loop_spills:
  assumes "spills m e0 e" and "g \<le> rse_dirty e" and "rse_spill_loop m g e = Inr (u, e')"
  shows "spills m e0 e' \<and> rse_dirty e' = rse_dirty e - max g 0"
  using assms
proof (induction m g e rule: rse_spill_loop.induct)
  case (1 m g e)
  show ?case
  proof (cases "0 < g")
    case False
    with 1(4) have "e' = e" by (subst (asm) rse_spill_loop.simps) simp
    with 1(2) False show ?thesis by simp
  next
    case True
    with 1(4) obtain r e1 where st: "ia64_rse_store_one m e = Inr (r, e1)"
      and w: "run_bind (ia64_rse_interrupt_window (m_platform m) e1)
        (\<lambda>_ e2. rse_spill_loop m (g - (if r then 1 else 0)) e2) = Inr (u, e')"
      by (subst (asm) rse_spill_loop.simps) (auto simp: run_bind_Inr)
    from w have f: "ia64_rse_interrupt_window (m_platform m) e1 = Inr ((), e1)"
      "rse_spill_loop m (g - (if r then 1 else 0)) e1 = Inr (u, e')"
      by (auto simp: run_bind_Inr dest: interrupt_window_Inr)
    have inv: "rse_inv e" using 1(2) by (simp add: spills_def rse_good_def)
    have pos: "0 < dirty_words e" using dirty_words_sign(1) [OF inv] True 1(3) by linarith
    have "spills m e0 e1" using spills_step [OF 1(2) pos st] .
    moreover have "g - (if r then 1 else 0) \<le> rse_dirty e1" using store_one_progress [OF st] 1(3) by simp
    ultimately have "spills m e0 e' \<and> rse_dirty e' = rse_dirty e1 - max (g - (if r then 1 else 0)) 0"
      using 1(1) [OF True st f(1)] f(2) by blast
    then show ?thesis using store_one_progress [OF st] True by (auto split: if_splits)
  qed
qed

section \<open>Mandatory loads\<close>

lemma loaded_register_fields:
  "ar_bsp (loaded_register p w n e) = ar_bsp e" "ar_bspstore (loaded_register p w n e) = ar_bspstore e"
  "ar_rsc (loaded_register p w n e) = ar_rsc e" "rse_bol (loaded_register p w n e) = rse_bol e"
  "mem (loaded_register p w n e) = mem e" "rse_gr_dirty (loaded_register p w n e) = rse_gr_dirty e"
  "rse_dirty (loaded_register p w n e) = rse_dirty e" "rse_dirty_nat (loaded_register p w n e) = rse_dirty_nat e"
  "rse_clean (loaded_register p w n e) = rse_clean e" "rse_clean_nat (loaded_register p w n e) = rse_clean_nat e"
  "rse_invalid (loaded_register p w n e) = rse_invalid e" "cfm_sof (loaded_register p w n e) = cfm_sof e"
  "cfm_sol (loaded_register p w n e) = cfm_sol e" "cfm_sor (loaded_register p w n e) = cfm_sor e"
  "cfm_rrb_gr (loaded_register p w n e) = cfm_rrb_gr e" "rse_pgr (loaded_register p w n e) = (rse_pgr e)(p := w)"
  "rse_pgr_nat (loaded_register p w n e) = bits2_set (rse_pgr_nat e) p n"
  "gr (loaded_register p w n e) =
     (let v = ia64_rse_phys_to_virt e p in if v < cfm_sof e then (gr e)(32 + v := w) else gr e)"
  "nat_bits (loaded_register p w n e) =
     (let v = ia64_rse_phys_to_virt e p in if v < cfm_sof e then bits2_set (nat_bits e) (32 + v) n else nat_bits e)"
  by (simp_all add: loaded_register_def Let_def ia64_gr_nat_set_def ia64_rse_pgr_nat_set_def)

lemma loaded_register_rename:
  "ia64_rse_phys_to_virt (loaded_register p w n e) = ia64_rse_phys_to_virt e"
  "ia64_rse_virt_to_phys (loaded_register p w n e) = ia64_rse_virt_to_phys e"
  by (rule ext, rule phys_to_virt_cong virt_to_phys_frame_cong; simp add: loaded_register_fields)+

lemma file_value_loaded:
  assumes ok: "frame_ok e" and p: "p < 96" and q: "q < 96"
  shows "file_value (loaded_register p w n e) q = (if q = p then w else file_value e q)"
proof (cases "q = p")
  case True
  then show ?thesis by (simp add: file_value_def loaded_register_rename loaded_register_fields Let_def)
next
  case False
  then have "ia64_rse_phys_to_virt e q \<noteq> ia64_rse_phys_to_virt e p"
    using phys_virt_inverse [OF ok p] phys_virt_inverse [OF ok q] by metis
  with False show ?thesis by (simp add: file_value_def loaded_register_rename loaded_register_fields Let_def)
qed

lemma frame_coherent_loaded:
  assumes ok: "frame_ok e" and p: "p < 96" and fc: "frame_coherent e"
  shows "frame_coherent (loaded_register p w n e)"
  unfolding frame_coherent_def loaded_register_rename loaded_register_fields
proof (intro allI impI)
  fix u assume u: "u < cfm_sof e" and nd: "\<not> bits2_get (rse_gr_dirty e) u"
  let ?v = "ia64_rse_phys_to_virt e p" and ?q = "ia64_rse_virt_to_phys e u"
  have sof: "cfm_sof e \<le> 96" using frame_okD(1) [OF ok] .
  have q: "?q < 96" "ia64_rse_phys_to_virt e ?q = u" using virt_phys_inverse [OF ok, of u] u sof by auto
  have v: "ia64_rse_virt_to_phys e ?v = p" "?v < 96" using phys_virt_inverse [OF ok p] by blast+
  have iff: "?q = p \<longleftrightarrow> u = ?v" using q v by auto
  have old: "gr e (32 + u) = rse_pgr e ?q" "bits2_get (nat_bits e) (32 + u) = bits2_get (rse_pgr_nat e) ?q"
    using fc u nd by (simp_all add: frame_coherent_def)
  have b: "bits2_get (bits2_set (rse_pgr_nat e) p n) ?q = (if ?q = p then n else bits2_get (rse_pgr_nat e) ?q)"
    "bits2_get (bits2_set (nat_bits e) (32 + ?v) n) (32 + u) = (if u = ?v then n else bits2_get (nat_bits e) (32 + u))"
    using p q(1) u sof v(2) by (simp_all add: bits2_get_set)
  show "(let v = ?v in if v < cfm_sof e then (gr e)(32 + v := w) else gr e) (32 + u) = ((rse_pgr e)(p := w)) ?q \<and>
    bits2_get (let v = ?v in if v < cfm_sof e then bits2_set (nat_bits e) (32 + v) n else nat_bits e) (32 + u) =
      bits2_get (bits2_set (rse_pgr_nat e) p n) ?q"
  proof (cases "u = ?v")
    case True
    then have "?v < cfm_sof e" "?q = p" using u iff by simp_all
    then show ?thesis unfolding Let_def b(1) using b(2) True by simp
  next
    case False
    then have "?q \<noteq> p" using iff by simp
    then show ?thesis unfolding Let_def b(1) using b(2) False old by simp
  qed
qed

text \<open>
  The word below the live partitions joins the clean partition: the register it holds moves into the
  file, the stack stays as it was.
\<close>

lemma loaded_inv:
  assumes inv: "rse_inv e" and b: "b = ar_bsp e + word_of_int (- (8 * (live_words e + 1)))"
    and n: "n = (if ia64_rse_collect_bit b = 63 then 1 else 0)" and w: "w = 1 - n" and room: "w \<le> rse_invalid e"
    and f: "frame_ok e' = frame_ok e" "ar_bsp e' = ar_bsp e" "cfm_sof e' = cfm_sof e" "ar_bspstore e' = ar_bspstore e"
      "rse_dirty e' = rse_dirty e" "rse_dirty_nat e' = rse_dirty_nat e"
      "rse_clean e' = rse_clean e + w" "rse_clean_nat e' = rse_clean_nat e + n" "rse_invalid e' = rse_invalid e - w"
  shows "rse_inv e' \<and> live_words e' = live_words e + 1"
proof -
  note i = rse_invD [OF inv]
  have nw: "0 \<le> w" "w + n = 1" using n w by (simp_all split: if_splits)
  have lw: "live_words e' = live_words e + 1" using nw by (simp add: live_words_def f)
  have dw: "dirty_words e' = dirty_words e" by (simp add: dirty_words_def f)
  have "rnat_bit b = (rnat_bit (ar_bsp e) - (live_words e + 1)) mod 64" by (rule rnat_bit_below [OF b])
  then have "(rnat_bit (ar_bsp e) - (live_words e + 1)) mod 64 = 63 \<longleftrightarrow> ia64_rse_collect_bit b = 63"
    by (simp add: collect_bit_63)
  then have "rnat_slots (rnat_bit (ar_bsp e)) (live_words e') = rse_dirty_nat e' + rse_clean_nat e'"
    unfolding lw rnat_slots_succ i(8) [symmetric] f n by simp
  with i nw room lw show ?thesis unfolding rse_inv_def dw f(1-6) by (simp add: f(7-9))
qed

lemma load_register_addr:
  assumes inv: "rse_inv e" and b: "b = ar_bsp e + word_of_int (- (8 * (live_words e + 1)))"
    and reg: "ia64_rse_collect_bit b \<noteq> 63"
  shows "b = reg_addr e (- (rse_dirty e + rse_clean e + 1))"
proof (rule word_below_addr [OF b reg])
  note i = rse_invD [OF inv]
  have "rnat_bit b = (rnat_bit (ar_bsp e) - (live_words e + 1)) mod 64" by (rule rnat_bit_below [OF b])
  then have "rnat_slots (rnat_bit (ar_bsp e)) (live_words e + 1) = rse_dirty_nat e + rse_clean_nat e"
    unfolding rnat_slots_succ using reg i(8) by (simp add: collect_bit_63)
  then show "rse_dirty e + rse_clean e + 1 = live_words e + 1 - rnat_slots (rnat_bit (ar_bsp e)) (live_words e + 1)"
    by (simp add: live_words_def)
qed

lemma load_collection_stack:
  assumes good: "rse_good e" and b: "b = ar_bsp e + word_of_int (- (8 * (live_words e + 1)))"
    and col: "ia64_rse_collect_bit b = 63" and ld: "ia64_rse_load_one m b e = Inr (r, e')"
  shows "rse_good e' \<and> live_words e' = live_words e + 1 \<and> stack e' = stack e \<and> rse_file e' = rse_file e \<and> \<not> r \<and>
    ar_bspstore e' = ar_bspstore e \<and> rse_dirty e' = rse_dirty e \<and> rse_dirty_nat e' = rse_dirty_nat e \<and>
    rse_clean e' = rse_clean e \<and> rse_clean_nat e' = rse_clean_nat e + 1 \<and> rse_invalid e' = rse_invalid e"
proof (rule load_one_collection [OF ld col], goal_cases)
  case (1 t)
  have f: "rse_file e' = rse_file e" by (simp add: rse_file_def 1 referenced_def)
  note c = file_cong [OF f] and fd = rse_fileD [OF f]
  have g: "rse_dirty e' = rse_dirty e" "rse_clean e' = rse_clean e" "mem e' = mem e" "rse_dirty_nat e' = rse_dirty_nat e"
    "ar_bspstore e' = ar_bspstore e" "rse_clean_nat e' = rse_clean_nat e + 1" "rse_invalid e' = rse_invalid e"
    by (simp_all add: 1 referenced_def)
  have sv: "stored_value e' = stored_value e" by (rule ext) (simp add: stored_value_def c g)
  have "rse_inv e' \<and> live_words e' = live_words e + 1"
    using good rse_invD(5) by (intro loaded_inv [OF _ b, of 1 0]) (simp_all add: rse_good_def col g fd frame_ok_def)
  moreover have "stack e' = stack e" by (rule ext) (simp add: stack_def g sv c)
  moreover have "frame_coherent e'" "clean_coherent e'"
    using good by (simp_all add: rse_good_def c clean_coherent_def g sv fd)
  ultimately show ?case using f g 1(1) by (simp add: rse_good_def)
qed

lemma load_register_stack:
  assumes good: "rse_good e" and b: "b = ar_bsp e + word_of_int (- (8 * (live_words e + 1)))"
    and reg: "ia64_rse_collect_bit b \<noteq> 63" and room: "0 < rse_invalid e" and ld: "ia64_rse_load_one m b e = Inr (r, e')"
  shows "rse_good e' \<and> live_words e' = live_words e + 1 \<and> (\<forall>i<int (cfm_sof e). stack e' i = stack e i) \<and> r \<and>
    ar_bspstore e' = ar_bspstore e \<and> rse_dirty e' = rse_dirty e \<and> rse_dirty_nat e' = rse_dirty_nat e \<and>
    rse_clean e' = rse_clean e + 1 \<and> rse_clean_nat e' = rse_clean_nat e \<and> rse_invalid e' = rse_invalid e - 1 \<and>
    ar_bsp e' = ar_bsp e \<and> cfm_sof e' = cfm_sof e"
proof (rule load_one_register [OF ld reg], goal_cases)
  case (1 t n)
  have inv: "rse_inv e" and fc: "frame_coherent e" and cc: "clean_coherent e" using good by (simp_all add: rse_good_def)
  note i = rse_invD [OF inv] and lb = live_bounds [OF inv]
  let ?i = "- (rse_dirty e + rse_clean e + 1)"
  let ?B = "(referenced (mem e) (alat_st e) (alat_write_sequence e) e)
    \<lparr>rnat := t, rse_clean := rse_clean e + 1, rse_invalid := rse_invalid e - 1\<rparr>"
  have fB: "rse_file ?B = rse_file e" by (simp add: rse_file_def referenced_def)
  note c = file_cong [OF fB] and fd = rse_fileD [OF fB]
  have okB: "frame_ok ?B" using i(1) unfolding frame_ok_def fd .
  have p: "ia64_rse_wrap_phys (int (rse_bol e) - (rse_clean e + rse_dirty e + 1)) = reg_phys e ?i"
    by (simp add: reg_phys_def algebra_simps)
  let ?w = "rse_order (rse_big_endian e) (mem e b)"
  have e': "e' = loaded_register (reg_phys e ?i) ?w n ?B" using 1(2) unfolding p .
  have w: "?w = stored_value e ?i" unfolding stored_value_def load_register_addr [OF inv b reg, symmetric] ..
  have g: "rse_dirty e' = rse_dirty e" "rse_clean e' = rse_clean e + 1" "mem e' = mem e" "rse_dirty_nat e' = rse_dirty_nat e"
    "ar_bspstore e' = ar_bspstore e" "rse_clean_nat e' = rse_clean_nat e" "rse_invalid e' = rse_invalid e - 1"
    "ar_bsp e' = ar_bsp e" "ar_rsc e' = ar_rsc e" "rse_bol e' = rse_bol e" "cfm_sof e' = cfm_sof e" "cfm_sol e' = cfm_sol e"
    "cfm_sor e' = cfm_sor e" "cfm_rrb_gr e' = cfm_rrb_gr e" "rse_pgr e' = (rse_pgr e)(reg_phys e ?i := ?w)"
    unfolding e' loaded_register_fields by (simp_all add: referenced_def)
  have ga: "reg_addr e' = reg_addr e" "reg_phys e' = reg_phys e" "stored_value e' = stored_value e"
    by (auto intro!: ext simp only: reg_addr_def reg_phys_def stored_value_def rse_big_endian_def g)
  have fv: "file_value e' (reg_phys e j) = (if reg_phys e j = reg_phys e ?i then ?w else file_value e (reg_phys e j))" for j
    unfolding e' file_value_loaded [OF okB reg_phys_less reg_phys_less] c ..
  have inj: "reg_phys e j = reg_phys e ?i \<longleftrightarrow> j = ?i" if "?i \<le> j" "j < int (cfm_sof e)" for j
    using reg_phys_inj [of e j ?i] that lb room i(3) by auto
  have "rse_inv e' \<and> live_words e' = live_words e + 1"
    using room i(1) by (intro loaded_inv [OF inv b, of 0 1]) (simp_all add: reg g frame_ok_def)
  moreover have "frame_coherent e'" unfolding e' using fc c(5) by (intro frame_coherent_loaded [OF okB reg_phys_less]) simp
  moreover have "clean_coherent e'"
    unfolding clean_coherent_def g ga
  proof (intro allI impI)
    fix j assume j: "- (rse_dirty e + (rse_clean e + 1)) \<le> j \<and> j < - rse_dirty e"
    then have "?i \<le> j" "j < int (cfm_sof e)" using i(6) by linarith+
    with j w cc show "stored_value e j = ((rse_pgr e)(reg_phys e ?i := ?w)) (reg_phys e j)"
      using inj [of j] by (cases "j = ?i") (auto simp: clean_coherent_def)
  qed
  moreover have "stack e' j = stack e j" if "j < int (cfm_sof e)" for j
    unfolding stack_def g ga fv using inj [OF _ that] w by (cases "?i \<le> j") auto
  ultimately show ?case using g 1(1) by (simp add: rse_good_def)
qed

definition rse_marker where
  "rse_marker e = ((rse_bol e, ar_rsc e, ar_bsp e, ar_pfs e), (cfm_sof e, cfm_sol e, cfm_sor e, cfm_rrb_gr e), mem e)"

lemma rse_markerD:
  assumes "rse_marker e' = rse_marker e"
  shows "rse_bol e' = rse_bol e" "ar_rsc e' = ar_rsc e" "ar_bsp e' = ar_bsp e" "ar_pfs e' = ar_pfs e"
    "cfm_sof e' = cfm_sof e" "cfm_sol e' = cfm_sol e" "cfm_sor e' = cfm_sor e" "cfm_rrb_gr e' = cfm_rrb_gr e" "mem e' = mem e"
  using assms by (simp_all add: rse_marker_def)

lemma load_one_marker:
  assumes ld: "ia64_rse_load_one m b e = Inr (r, e')"
  shows "rse_marker e' = rse_marker e"
proof (cases "ia64_rse_collect_bit b = 63")
  case True
  show ?thesis by (rule load_one_collection [OF ld True]) (simp add: rse_marker_def referenced_def)
next
  case False
  show ?thesis
    by (rule load_one_register [OF ld False])
      (simp add: rse_marker_def referenced_def loaded_register_def Let_def ia64_gr_nat_set_def ia64_rse_pgr_nat_set_def)
qed

text \<open>A word just loaded into an empty clean partition extends the dirty partition downwards.\<close>

lemma claim_loaded_good:
  assumes good: "rse_good e" and n: "rse_clean e = (if r then 1 else 0)" "rse_clean_nat e = (if r then 0 else 1)"
    and e': "e' = rse_move_bspstore (ar_bspstore e - 8) (rse_claim_loaded r e)"
  shows "rse_good e' \<and> stack e' = stack e \<and> rse_marker e' = rse_marker e \<and> rse_clean e' = 0 \<and> rse_clean_nat e' = 0 \<and>
    dirty_words e' = live_words e \<and> live_words e' = live_words e"
proof -
  have inv: "rse_inv e" and fc: "frame_coherent e" using good by (simp_all add: rse_good_def)
  note i = rse_invD [OF inv]
  have f: "rse_file e' = rse_file e" by (simp add: rse_file_def e' rse_move_bspstore_def rse_claim_loaded_def)
  note c = file_cong [OF f] and fd = rse_fileD [OF f]
  have g: "rse_dirty e' = rse_dirty e + rse_clean e" "rse_dirty_nat e' = rse_dirty_nat e + rse_clean_nat e"
    "rse_clean e' = 0" "rse_clean_nat e' = 0" "mem e' = mem e" "rse_invalid e' = rse_invalid e" "ar_bspstore e' = ar_bspstore e - 8"
    using n by (simp_all add: e' rse_move_bspstore_def rse_claim_loaded_def)
  have w: "dirty_words e' = live_words e" "live_words e' = live_words e" "dirty_words e + 1 = live_words e"
    using n by (simp_all add: dirty_words_def live_words_def g split: if_splits)
  have "ar_bspstore e' = ar_bsp e + word_of_int (- (8 * dirty_words e'))"
    unfolding w(1) w(3) [symmetric] g(7) i(9) by (simp add: algebra_simps)
  then have "rse_inv e'"
    using i unfolding rse_inv_def w fd frame_ok_def by (simp add: g)
  moreover have "clean_coherent e'" by (auto simp: clean_coherent_def g)
  moreover have "stack e' = stack e"
  proof
    have "stored_value e' = stored_value e" by (rule ext) (simp add: stored_value_def c g)
    then show "stack e' j = stack e j" for j by (simp add: stack_def c g)
  qed
  moreover have "rse_marker e' = rse_marker e" by (simp add: rse_marker_def fd g)
  ultimately show ?thesis using fc c(5) g w by (simp add: rse_good_def)
qed

lemma fill_loop_stack:
  assumes "rse_good e" "rse_clean e = 0" "rse_clean_nat e = 0" "dirty_words e \<le> 0"
    and "b = ar_bsp e + word_of_int (- (8 * (live_words e + 1)))" and "rse_fill_loop m b e = Inr (u, e')"
  shows "rse_good e' \<and> rse_clean e' = 0 \<and> rse_clean_nat e' = 0 \<and> dirty_words e' = 0 \<and> rse_marker e' = rse_marker e \<and>
    (\<forall>i<int (cfm_sof e). stack e' i = stack e i)"
  using assms
proof (induction m b e rule: rse_fill_loop.induct)
  case (1 m b e)
  note good = 1(2) and cl = 1(3,4) and neg = 1(5) and b = 1(6)
  have inv: "rse_inv e" using good by (simp add: rse_good_def)
  note i = rse_invD [OF inv]
  show ?case
  proof (cases "rse_dirty e < 0 \<or> rse_dirty_nat e < 0")
    case False
    with 1(7) have "e' = e" by (subst (asm) rse_fill_loop.simps) simp
    moreover have "\<not> dirty_words e < 0" using dirty_words_sign(2) [OF inv] False by blast
    ultimately show ?thesis using good cl neg by simp
  next
    case True
    have D: "dirty_words e < 0" using dirty_words_sign(2) [OF inv] True by blast
    have d: "rse_dirty e < 0" by (rule dirty_words_sign(4) [OF inv D])
    have room: "0 < rse_invalid e" using i(3) cl d frame_okD(1) [OF i(1)] by linarith
    from True 1(7) obtain r e1 where ld: "ia64_rse_load_one m b e = Inr (r, e1)"
      and w: "(let e2 = rse_claim_loaded r e1; e3 = rse_move_bspstore (ar_bspstore e2 - 8) e2
          in run_bind (ia64_rse_interrupt_window (m_platform m) e3) (\<lambda>_ e4. rse_fill_loop m (b - 8) e4)) = Inr (u, e')"
      by (subst (asm) rse_fill_loop.simps) (auto simp: run_bind_Inr)
    define e3 where "e3 = rse_move_bspstore (ar_bspstore e1 - 8) (rse_claim_loaded r e1)"
    have e3: "e3 = rse_move_bspstore (ar_bspstore (rse_claim_loaded r e1) - 8) (rse_claim_loaded r e1)"
      by (simp add: e3_def rse_claim_loaded_def)
    from w have f: "ia64_rse_interrupt_window (m_platform m) e3 = Inr ((), e3)" "rse_fill_loop m (b - 8) e3 = Inr (u, e')"
      unfolding Let_def e3 [symmetric] by (auto simp: run_bind_Inr dest: interrupt_window_Inr)
    have l: "rse_good e1 \<and> live_words e1 = live_words e + 1 \<and> (\<forall>i<int (cfm_sof e). stack e1 i = stack e i) \<and>
        rse_clean e1 = (if r then 1 else 0) \<and> rse_clean_nat e1 = (if r then 0 else 1)"
      using load_collection_stack [OF good b _ ld] load_register_stack [OF good b _ room ld] cl
      by (cases "ia64_rse_collect_bit b = 63") auto
    note mk = rse_markerD [OF load_one_marker [OF ld]]
    have c: "rse_good e3 \<and> stack e3 = stack e1 \<and> rse_marker e3 = rse_marker e1 \<and> rse_clean e3 = 0 \<and> rse_clean_nat e3 = 0 \<and>
        dirty_words e3 = live_words e1 \<and> live_words e3 = live_words e1"
      using l by (intro claim_loaded_good [OF _ _ _ e3_def]) blast+
    note mk3 = rse_markerD [of e3 e1]
    have lw: "live_words e = dirty_words e" using cl by (simp add: live_words_def dirty_words_def)
    have "b - 8 = ar_bsp e3 + word_of_int (- (8 * (live_words e3 + 1)))"
      using c l mk(3) mk3(3) unfolding b by (simp add: algebra_simps)
    moreover have "dirty_words e3 \<le> 0" using c l lw D by simp
    ultimately have "rse_good e' \<and> rse_clean e' = 0 \<and> rse_clean_nat e' = 0 \<and> dirty_words e' = 0 \<and> rse_marker e' = rse_marker e3 \<and>
        (\<forall>i<int (cfm_sof e3). stack e' i = stack e3 i)"
      using 1(1) [OF True ld refl e3 f(1)] c f(2) by blast
    moreover have "cfm_sof e3 = cfm_sof e" using c mk3(5) mk(5) by simp
    ultimately show ?thesis using c l load_one_marker [OF ld] by simp
  qed
qed

lemma complete_loads_stack:
  assumes good: "rse_good e" and cl: "dirty_words e < 0 \<Longrightarrow> rse_clean e = 0 \<and> rse_clean_nat e = 0"
    and run: "ia64_rse_complete_frame_loads m e = Inr (u, e')"
  shows "rse_good e' \<and> dirty_words e' = max 0 (dirty_words e) \<and> rse_marker e' = rse_marker e \<and>
    (clean_allowed m e \<longrightarrow> clean_allowed m e') \<and> (\<forall>i<int (cfm_sof e). stack e' i = stack e i) \<and>
    rse_dirty e' + rse_clean e' \<le> max 0 (rse_dirty e + rse_clean e)"
proof -
  have inv: "rse_inv e" using good by (simp add: rse_good_def)
  show ?thesis
  proof (cases "dirty_words e < 0")
    case False
    then have "e' = e" using run dirty_words_sign(2) [OF inv] by (simp add: ia64_rse_complete_frame_loads_def)
    with good False show ?thesis by simp
  next
    case True
    then have n: "\<not> (rse_dirty e \<ge> 0 \<and> rse_dirty_nat e \<ge> 0)" using dirty_words_sign(2) [OF inv] by linarith
    define e1 where "e1 = e\<lparr>rse_cfle := True\<rparr>"
    have core: "rse_core e1 = rse_core e" by (simp add: rse_core_def e1_def)
    have w: "live_words e1 = live_words e" "dirty_words e1 = dirty_words e" "ar_bsp e1 = ar_bsp e" "rse_clean e1 = rse_clean e"
      "rse_clean_nat e1 = rse_clean_nat e" "cfm_sof e1 = cfm_sof e" "rse_marker e1 = rse_marker e"
      by (simp_all add: e1_def live_words_def dirty_words_def rse_marker_def)
    have b: "ar_bsp e - word_of_int (rse_clean e + rse_clean_nat e + rse_dirty e + rse_dirty_nat e + 1) * 8 =
        ar_bsp e1 + word_of_int (- (8 * (live_words e1 + 1)))"
      unfolding w by (simp add: live_words_def algebra_simps)
    from run n obtain e3 where l: "rse_fill_loop m (ar_bsp e1 + word_of_int (- (8 * (live_words e1 + 1)))) e1 = Inr ((), e3)"
      and e': "e' = e3\<lparr>rse_cfle := False\<rparr>"
      unfolding ia64_rse_complete_frame_loads_def Let_def if_not_P [OF n] e1_def [symmetric] b
      by (auto simp: run_bind_Inr dest: interrupt_window_Inr)
    have g1: "rse_good e1" "rse_clean e1 = 0" "rse_clean_nat e1 = 0" "dirty_words e1 \<le> 0"
      using good cl [OF True] True core_cong(1) [OF core] by (simp_all add: w)
    note r = fill_loop_stack [OF g1 refl l]
    have core': "rse_core e' = rse_core e3" by (simp add: rse_core_def e')
    have "rse_inv e3" using r by (simp add: rse_good_def)
    then have "rse_dirty e3 \<le> 0" using dirty_words_sign(1) [of e3] r by force
    moreover have "dirty_words e' = dirty_words e3" "rse_clean e' = rse_clean e3" "rse_clean_nat e' = rse_clean_nat e3"
      "rse_marker e' = rse_marker e3" "rse_dirty e' = rse_dirty e3" by (simp_all add: e' dirty_words_def rse_marker_def)
    ultimately show ?thesis using r True
      unfolding core_cong(1) [OF core'] core_cong(2) [OF core'] w(6,7) core_cong(2) [OF core] by (simp add: clean_allowed_def)
  qed
qed

section \<open>Frame copies\<close>

lemma sync_out_stack:
  assumes good: "rse_good e" and cd: "0 \<le> rse_dirty e \<or> rse_clean e = 0"
  shows "rse_good (ia64_rse_sync_frame_out e)" "stack (ia64_rse_sync_frame_out e) = stack e"
    "p < 96 \<Longrightarrow> rse_pgr (ia64_rse_sync_frame_out e) p = file_value e p"
    "ia64_rse_sync_frame_out e = e\<lparr>rse_gr_dirty := (0, 0), rse_pgr := rse_pgr (ia64_rse_sync_frame_out e),
       rse_pgr_nat := rse_pgr_nat (ia64_rse_sync_frame_out e)\<rparr>"
proof -
  let ?e = "ia64_rse_sync_frame_out e"
  have inv: "rse_inv e" and fc: "frame_coherent e" and cc: "clean_coherent e" using good by (simp_all add: rse_good_def)
  note i = rse_invD [OF inv] and lb = live_bounds [OF inv]
  note wb = sync_frame_out [OF i(1), unfolded written_back_def]
  have wb1: "rse_pgr ?e (ia64_rse_virt_to_phys e u) = gr e (32 + u)"
    "bits2_get (rse_pgr_nat ?e) (ia64_rse_virt_to_phys e u) = bits2_get (nat_bits e) (32 + u)"
    if "u < cfm_sof e" "bits2_get (rse_gr_dirty e) u" for u using wb that by blast+
  have wb2: "rse_pgr ?e p = rse_pgr e p" "p < 128 \<Longrightarrow> bits2_get (rse_pgr_nat ?e) p = bits2_get (rse_pgr_nat e) p"
    if "\<And>u. u < cfm_sof e \<Longrightarrow> bits2_get (rse_gr_dirty e) u \<Longrightarrow> ia64_rse_virt_to_phys e u \<noteq> p" for p using wb that by blast+
  show eq: "?e = e\<lparr>rse_gr_dirty := (0, 0), rse_pgr := rse_pgr ?e, rse_pgr_nat := rse_pgr_nat ?e\<rparr>" using wb by blast
  obtain x y where xy: "?e = e\<lparr>rse_gr_dirty := (0, 0), rse_pgr := x, rse_pgr_nat := y\<rparr>" using eq by blast
  have f: "rse_gr_dirty ?e = (0, 0)" "rse_pgr ?e = x" "rse_pgr_nat ?e = y" "gr ?e = gr e" "nat_bits ?e = nat_bits e" "mem ?e = mem e"
    "rse_bol ?e = rse_bol e" "ar_bsp ?e = ar_bsp e" "ar_bspstore ?e = ar_bspstore e" "ar_rsc ?e = ar_rsc e" "rse_dirty ?e = rse_dirty e"
    "rse_dirty_nat ?e = rse_dirty_nat e" "rse_clean ?e = rse_clean e" "rse_clean_nat ?e = rse_clean_nat e"
    "rse_invalid ?e = rse_invalid e" "cfm_sof ?e = cfm_sof e" "cfm_sol ?e = cfm_sol e" "cfm_sor ?e = cfm_sor e"
    "cfm_rrb_gr ?e = cfm_rrb_gr e" unfolding xy by simp_all
  have nd: "\<not> bits2_get (0, 0) v" for v by (simp add: bits2_get_def)
  have v: "ia64_rse_phys_to_virt ?e = ia64_rse_phys_to_virt e" "ia64_rse_virt_to_phys ?e = ia64_rse_virt_to_phys e"
    by (rule ext, rule phys_to_virt_cong virt_to_phys_frame_cong; simp add: f)+
  have a: "reg_addr ?e = reg_addr e" "reg_phys ?e = reg_phys e" "stored_value ?e = stored_value e"
    by (auto intro!: ext simp only: reg_addr_def reg_phys_def stored_value_def rse_big_endian_def f)
  show pv: "rse_pgr ?e p = file_value e p" if p: "p < 96" for p
  proof -
    let ?v = "ia64_rse_phys_to_virt e p"
    have vp: "ia64_rse_virt_to_phys e ?v = p" "?v < 96" using phys_virt_inverse [OF i(1) p] by blast+
    show ?thesis
    proof (cases "?v < cfm_sof e \<and> bits2_get (rse_gr_dirty e) ?v")
      case True
      then show ?thesis using wb1(1) [of ?v] vp by (simp add: file_value_def Let_def)
    next
      case False
      have "ia64_rse_virt_to_phys e u \<noteq> p" if "u < cfm_sof e" "bits2_get (rse_gr_dirty e) u" for u
        using that False virt_phys_inverse [OF i(1), of u] frame_okD(1) [OF i(1)] by auto
      then have "rse_pgr ?e p = rse_pgr e p" by (rule wb2(1))
      with False show ?thesis by (auto simp: file_value_def Let_def)
    qed
  qed
  have fv: "file_value ?e p = file_value e p" if "p < 96" for p
    using pv [OF that] by (simp add: file_value_def v f nd Let_def)
  show "stack ?e = stack e"
    by (rule ext) (simp add: stack_def a f fv)
  have "rse_inv ?e" using inv unfolding rse_inv_def frame_ok_def dirty_words_def live_words_def f .
  moreover have "clean_coherent ?e"
    unfolding clean_coherent_def a
  proof (intro allI impI)
    fix j assume j: "- (rse_dirty ?e + rse_clean ?e) \<le> j \<and> j < - rse_dirty ?e"
    then have "stored_value e j = rse_pgr e (reg_phys e j)" using cc by (simp add: clean_coherent_def f)
    moreover have "rse_pgr ?e (reg_phys e j) = file_value e (reg_phys e j)" by (rule pv) simp
    moreover have "file_value e (reg_phys e j) = rse_pgr e (reg_phys e j)"
      by (rule file_value_below [OF i(1)]) (use j lb cd in \<open>auto simp: f\<close>)
    ultimately show "stored_value e j = rse_pgr ?e (reg_phys e j)" by simp
  qed
  moreover have "frame_coherent ?e"
    unfolding frame_coherent_def v f(4,5,16)
  proof (intro allI impI)
    fix u assume u: "u < cfm_sof e"
    have u96: "u < 96" using u frame_okD(1) [OF i(1)] by simp
    show "gr e (32 + u) = rse_pgr ?e (ia64_rse_virt_to_phys e u) \<and>
        bits2_get (nat_bits e) (32 + u) = bits2_get (rse_pgr_nat ?e) (ia64_rse_virt_to_phys e u)"
    proof (cases "bits2_get (rse_gr_dirty e) u")
      case True
      then show ?thesis using wb1 [OF u] by simp
    next
      case False
      have "ia64_rse_virt_to_phys e t \<noteq> ia64_rse_virt_to_phys e u" if "t < cfm_sof e" "bits2_get (rse_gr_dirty e) t" for t
        using that False virt_to_phys_inj [OF i(1), of t u] u96 frame_okD(1) [OF i(1)] by auto
      from wb2 [OF this] fc u False virt_to_phys_less [OF i(1) u96] show ?thesis by (simp add: frame_coherent_def)
    qed
  qed
  ultimately show "rse_good ?e" by (simp add: rse_good_def)
qed

section \<open>Moving the bottom of the frame\<close>

text \<open>
  A frame whose bottom is \<open>k\<close> registers further up, over the same file and backing store.
\<close>

lemma rebased_addr:
  assumes "ar_bsp e' = reg_addr e k"
  shows "reg_addr e' j = reg_addr e (j + k)" "rnat_bit (ar_bsp e') = (rnat_bit (ar_bsp e) + reg_slot (rnat_bit (ar_bsp e)) k) mod 64"
    "rnat_bit (ar_bsp e') < 63"
proof -
  let ?c = "rnat_bit (ar_bsp e)"
  show c: "rnat_bit (ar_bsp e') = (?c + reg_slot ?c k) mod 64" unfolding assms reg_addr_def rnat_bit_shift ..
  have "reg_addr e' j = ar_bsp e' + word_of_int (8 * (reg_slot ?c (k + j) - reg_slot ?c k))"
    unfolding reg_addr_def [of e'] c reg_slot_rebase ..
  then show "reg_addr e' j = reg_addr e (j + k)" unfolding assms reg_addr_def by (simp add: algebra_simps)
  have "rnat_bit (ar_bsp e') = (?c + k) mod 63" unfolding assms by (rule rnat_bit_reg_addr)
  then show "rnat_bit (ar_bsp e') < 63" by simp
qed

lemma rebased_slots:
  fixes e' :: env
  assumes "ar_bsp e' = reg_addr e k"
  shows "rnat_slots (rnat_bit (ar_bsp e')) (w + reg_slot (rnat_bit (ar_bsp e)) k) =
    rnat_slots (rnat_bit (ar_bsp e)) w + (rnat_bit (ar_bsp e) + k) div 63"
proof (rule rnat_slots_add)
  let ?c = "rnat_bit (ar_bsp e)"
  have "?c + reg_slot ?c k = (?c + k) + (?c + k) div 63" by (simp add: reg_slot_def)
  then have "(?c + reg_slot ?c k) div 64 = (?c + k) div 63" using add_div_63(1) by simp
  then show "rnat_bit (ar_bsp e') = ?c + reg_slot ?c k - 64 * ((?c + k) div 63)"
    unfolding rebased_addr(2) [OF assms] using minus_mult_div_eq_mod [of "?c + reg_slot ?c k" 64] by simp
qed

lemma rebased_inv:
  assumes inv: "rse_inv e" and bsp: "ar_bsp e' = reg_addr e k" and ok: "frame_ok e'"
    and p: "rse_dirty e' = rse_dirty e + k" "rse_dirty_nat e' = rse_dirty_nat e + (rnat_bit (ar_bsp e) + k) div 63"
      "rse_clean e' = rse_clean e" "rse_clean_nat e' = rse_clean_nat e" "ar_bspstore e' = ar_bspstore e"
    and s: "int (cfm_sof e') + rse_dirty e' + rse_clean e' + rse_invalid e' = 96" "0 \<le> rse_invalid e'" "0 \<le> int (cfm_sof e') + rse_dirty e'"
  shows "rse_inv e' \<and> dirty_words e' = dirty_words e + reg_slot (rnat_bit (ar_bsp e)) k"
proof -
  note i = rse_invD [OF inv]
  let ?k = "reg_slot (rnat_bit (ar_bsp e)) k"
  have w: "dirty_words e' = dirty_words e + ?k" "live_words e' = live_words e + ?k"
    by (simp_all add: dirty_words_def live_words_def p reg_slot_def)
  have "rse_dirty_nat e' = rnat_slots (rnat_bit (ar_bsp e')) (dirty_words e')"
    unfolding w rebased_slots [OF bsp] p i(7) [symmetric] ..
  moreover have "rse_dirty_nat e' + rse_clean_nat e' = rnat_slots (rnat_bit (ar_bsp e')) (live_words e')"
    unfolding w rebased_slots [OF bsp] i(8) [symmetric] by (simp add: p)
  moreover have "ar_bspstore e' = ar_bsp e' + word_of_int (- (8 * dirty_words e'))"
    unfolding p(5) i(9) bsp reg_addr_def w by (simp add: algebra_simps)
  ultimately show ?thesis using ok s i(4) rebased_addr(3) [OF bsp] w(1) unfolding rse_inv_def by (simp add: p(3))
qed

lemma rebased_stack:
  assumes bsp: "ar_bsp e' = reg_addr e k" and bol: "rse_bol e' = ia64_rse_wrap_phys (int (rse_bol e) + k)"
    and f: "rse_gr_dirty e = (0, 0)" "rse_gr_dirty e' = (0, 0)" "rse_pgr e' = rse_pgr e" "mem e' = mem e" "ar_rsc e' = ar_rsc e"
  shows "reg_phys e' j = reg_phys e (j + k)" "stored_value e' j = stored_value e (j + k)" "file_value e' p = rse_pgr e p"
    "file_value e p = rse_pgr e p"
proof -
  have nd: "\<not> bits2_get (0, 0) v" for v by (simp add: bits2_get_def)
  show "file_value e' p = rse_pgr e p" "file_value e p = rse_pgr e p" by (simp_all add: file_value_def f nd Let_def)
  show "stored_value e' j = stored_value e (j + k)"
    by (simp add: stored_value_def rse_big_endian_def f rebased_addr(1) [OF bsp])
  show "reg_phys e' j = reg_phys e (j + k)"
    unfolding reg_phys_def by (rule wrap_phys_cong) (simp add: bol int_wrap_phys mod_add_left_eq algebra_simps mod_add_right_eq)
qed

end
