(* ===== verification/Rse_Call.thy ===== *)
theory Rse_Call
  imports Rse_Stack
begin

text \<open>
  Calls, returns and allocation over the register stack: each instruction moves the bottom of the
  frame along one unchanging stack, so a procedure finds its local registers after any call as it
  left them, whatever was spilled and filled in between.
\<close>

section \<open>Steps that do not touch the stack\<close>

lemma set_cfm_rrb_core [simp]:
  "rse_core (ia64_set_cfm_rrb_fr n e) = rse_core e" "rse_core (ia64_set_cfm_rrb_pr n e) = rse_core e"
  by (simp_all add: rse_core_def ia64_set_cfm_rrb_fr_def ia64_set_cfm_rrb_pr_def ia64_set_cfm_rrb_pr_slow_def Let_def)

lemma invalidate_stacked_alat_core [simp]: "rse_core (ia64_rse_invalidate_stacked_alat e) = rse_core e"
  by (simp add: rse_core_def ia64_rse_invalidate_stacked_alat_def)

lemma reset_rotations_core: "rse_core (ia64_rse_reset_rotations e) = rse_core (e\<lparr>cfm_rrb_gr := 0\<rparr>)"
  unfolding ia64_rse_reset_rotations_def Let_def by simp

lemma set_psr_core:
  assumes "(psr e XOR v) AND IA64_PSR_BN = 0"
  shows "rse_core (ia64_set_psr v e) = rse_core e"
  using assms by (simp add: rse_core_def ia64_set_psr_def Let_def ia64_sapic_update_interrupt_def)

section \<open>Calls\<close>

lemma preserve_frame_moves:
  assumes c: "rnat_bit (ar_bsp e) < 63" and n: "n \<le> 96" and bol: "rse_bol e < 96"
  defines "e' \<equiv> ia64_rse_preserve_frame n e"
  shows "ar_bsp e' = reg_addr e (int n)" "rse_bol e' = ia64_rse_wrap_phys (int (rse_bol e) + int n)"
    "rse_dirty e' = rse_dirty e + int n" "rse_dirty_nat e' = rse_dirty_nat e + (rnat_bit (ar_bsp e) + int n) div 63"
    "e' = e\<lparr>rse_bol := rse_bol e', ar_bsp := ar_bsp e', rse_dirty := rse_dirty e', rse_dirty_nat := rse_dirty_nat e'\<rparr>"
proof -
  let ?n = "of_nat n :: u32"
  let ?g = "ia64_rse_nat_words_grow (ar_bsp e) ?n"
  have un: "uint ?n = int n" using n by (simp add: unsigned_of_nat take_bit_nat_eq_self_iff)
  have ug: "uint ?g = (rnat_bit (ar_bsp e) + int n) div 63" using uint_nat_words_grow [of ?n "ar_bsp e"] n un by simp
  have g2: "0 \<le> (rnat_bit (ar_bsp e) + int n) div 63" "(rnat_bit (ar_bsp e) + int n) div 63 \<le> 2"
    using c n zdiv_mono1 [of 0 "rnat_bit (ar_bsp e) + int n" 63] zdiv_mono1 [of "rnat_bit (ar_bsp e) + int n" 188 63]
      rnat_bit_bounds(1) [of "ar_bsp e"] by simp_all
  have "uint (?n + ?g) = int n + (rnat_bit (ar_bsp e) + int n) div 63"
    using g2 n by (subst uint_add_fits) (simp_all add: un ug)
  moreover have "(ucast (?n + ?g) :: u64) = word_of_int (uint (?n + ?g))" by simp
  ultimately have w: "(ucast (?n + ?g) :: u64) = word_of_int (int n + (rnat_bit (ar_bsp e) + int n) div 63)" by (simp only:)
  show "ar_bsp e' = reg_addr e (int n)"
  proof (cases "n = 0")
    case True
    then show ?thesis using c by (simp add: e'_def ia64_rse_preserve_frame_def reg_addr_def reg_slot_def)
  next
    case False
    then have "ar_bsp e' = ar_bsp e + ucast (?n + ?g) * 8" by (simp add: e'_def ia64_rse_preserve_frame_def Let_def)
    then show ?thesis unfolding w reg_addr_def reg_slot_def by simp
  qed
  show "rse_bol e' = ia64_rse_wrap_phys (int (rse_bol e) + int n)"
    using bol by (simp add: e'_def ia64_rse_preserve_frame_def Let_def ia64_rse_wrap_phys_def)
  show "rse_dirty e' = rse_dirty e + int n" by (simp add: e'_def ia64_rse_preserve_frame_def Let_def)
  show "rse_dirty_nat e' = rse_dirty_nat e + (rnat_bit (ar_bsp e) + int n) div 63"
    using c by (simp add: e'_def ia64_rse_preserve_frame_def Let_def ug)
  show "e' = e\<lparr>rse_bol := rse_bol e', ar_bsp := ar_bsp e', rse_dirty := rse_dirty e', rse_dirty_nat := rse_dirty_nat e'\<rparr>"
    by (simp add: e'_def ia64_rse_preserve_frame_def Let_def)
qed

text \<open>
  The frame loses its lowest \<open>n\<close> registers to the dirty partition; the final state is known up to its
  logical registers, whose agreement with the file is left to the instruction.
\<close>

lemma push_frame:
  assumes good: "rse_good e" and cd: "0 \<le> rse_dirty e \<or> rse_clean e = 0" and n: "n \<le> cfm_sof e"
  defines "s \<equiv> ia64_rse_preserve_frame n (ia64_rse_sync_frame_out e)"
  assumes f: "rse_pgr e' = rse_pgr s" "rse_gr_dirty e' = rse_gr_dirty s" "rse_bol e' = rse_bol s" "mem e' = mem s" "ar_rsc e' = ar_rsc s"
      "ar_bsp e' = ar_bsp s" "ar_bspstore e' = ar_bspstore s" "rse_dirty e' = rse_dirty s" "rse_dirty_nat e' = rse_dirty_nat s"
      "rse_clean e' = rse_clean s" "rse_clean_nat e' = rse_clean_nat s" "rse_invalid e' = rse_invalid s"
    and sof: "cfm_sof e' = cfm_sof e - n" and ok: "frame_ok e'" and fc: "frame_coherent e'"
  shows "rse_good e' \<and> (\<forall>i. stack e' i = stack e (i + int n)) \<and> rse_dirty e' = rse_dirty e + int n \<and> rse_clean e' = rse_clean e \<and>
    rse_clean_nat e' = rse_clean_nat e \<and> ar_bsp e' = reg_addr e (int n)"
proof -
  let ?o = "ia64_rse_sync_frame_out e"
  note so = sync_out_stack [OF good cd]
  obtain x y where o: "?o = e\<lparr>rse_gr_dirty := (0, 0), rse_pgr := x, rse_pgr_nat := y\<rparr>" using so(4) by blast
  have go: "rse_gr_dirty ?o = (0, 0)" "rse_bol ?o = rse_bol e" "ar_bsp ?o = ar_bsp e" "ar_bspstore ?o = ar_bspstore e" "mem ?o = mem e"
    "ar_rsc ?o = ar_rsc e" "rse_dirty ?o = rse_dirty e" "rse_dirty_nat ?o = rse_dirty_nat e" "rse_clean ?o = rse_clean e"
    "rse_clean_nat ?o = rse_clean_nat e" "rse_invalid ?o = rse_invalid e" "cfm_sof ?o = cfm_sof e" by (simp_all add: o)
  have inv: "rse_inv ?o" and cc: "clean_coherent ?o" using so(1) by (simp_all add: rse_good_def)
  note i = rse_invD [OF inv]
  have n96: "n \<le> 96" using n frame_okD(1) [OF i(1)] go(12) by simp
  note pf = preserve_frame_moves [OF i(2) n96 frame_okD(4) [OF i(1)], folded s_def]
  obtain a b c d where s: "s = ?o\<lparr>rse_bol := a, ar_bsp := b, rse_dirty := c, rse_dirty_nat := d\<rparr>" using pf(5) by blast
  have g: "rse_pgr e' = rse_pgr ?o" "rse_gr_dirty e' = (0, 0)" "mem e' = mem ?o" "ar_rsc e' = ar_rsc ?o" "ar_bspstore e' = ar_bspstore ?o"
    "rse_clean e' = rse_clean ?o" "rse_clean_nat e' = rse_clean_nat ?o" "rse_invalid e' = rse_invalid ?o"
    unfolding f by (simp_all add: s go)
  have bsp: "ar_bsp e' = reg_addr ?o (int n)" and bol: "rse_bol e' = ia64_rse_wrap_phys (int (rse_bol ?o) + int n)"
    and d: "rse_dirty e' = rse_dirty ?o + int n" "rse_dirty_nat e' = rse_dirty_nat ?o + (rnat_bit (ar_bsp ?o) + int n) div 63"
    unfolding f by (simp_all only: pf(1-4))
  have "rse_inv e'"
    using i(3,5,6) n sof go(12)
    by (intro conjunct1 [OF rebased_inv [OF inv bsp ok d g(6,7,5)]]) (simp_all add: d g)
  moreover note rs = rebased_stack [OF bsp bol go(1) g(2,1,3,4)]
  have "clean_coherent e'"
    unfolding clean_coherent_def
  proof (intro allI impI)
    fix j assume "- (rse_dirty e' + rse_clean e') \<le> j \<and> j < - rse_dirty e'"
    then have "- (rse_dirty ?o + rse_clean ?o) \<le> j + int n \<and> j + int n < - rse_dirty ?o" by (simp add: d g)
    with cc show "stored_value e' j = rse_pgr e' (reg_phys e' j)" unfolding rs g by (simp add: clean_coherent_def)
  qed
  moreover have "stack e' j = stack e (j + int n)" for j
    unfolding so(2) [symmetric] stack_def rs by (simp add: d g)
  moreover have "reg_addr ?o = reg_addr e" by (rule ext) (simp add: reg_addr_def go)
  ultimately show ?thesis using fc bsp by (simp add: rse_good_def d g go)
qed

lemma call_tail_core:
  "rse_core ((ia64_system_reset_dahr ((ia64_rse_invalidate_stacked_alat x)\<lparr>ar_pfs := a, br := b\<rparr>))\<lparr>ip := c, psr := d\<rparr>) = rse_core x"
  using rse_coreD [OF invalidate_stacked_alat_core [of x]] by (simp add: rse_core_def ia64_system_reset_dahr_def)

lemma virt_to_phys_unrotated:
  assumes "frame_ok e" "cfm_rrb_gr e = 0" "v < 96"
  shows "ia64_rse_virt_to_phys e v = (rse_bol e + v) mod 96"
  unfolding virt_to_phys_alt [OF assms(1,3)] assms(2) by (simp add: rot_index_def)

text \<open>The registers of a frame that has just been written back agree with the file.\<close>

lemma synced_register:
  assumes good: "rse_good e" and cd: "0 \<le> rse_dirty e \<or> rse_clean e = 0" and u: "u < cfm_sof e"
  defines "s \<equiv> ia64_rse_sync_frame_out e"
  shows "gr e (32 + u) = rse_pgr s (ia64_rse_virt_to_phys e u)"
    "bits2_get (nat_bits e) (32 + u) = bits2_get (rse_pgr_nat s) (ia64_rse_virt_to_phys e u)"
proof -
  note so = sync_out_stack [OF good cd, folded s_def]
  obtain x y where o: "s = e\<lparr>rse_gr_dirty := (0, 0), rse_pgr := x, rse_pgr_nat := y\<rparr>" using so(4) by blast
  have v: "ia64_rse_virt_to_phys s = ia64_rse_virt_to_phys e" by (rule ext, rule virt_to_phys_frame_cong) (simp_all add: o)
  have "frame_coherent s" using so(1) by (simp add: rse_good_def)
  then show "gr e (32 + u) = rse_pgr s (ia64_rse_virt_to_phys e u)"
    "bits2_get (nat_bits e) (32 + u) = bits2_get (rse_pgr_nat s) (ia64_rse_virt_to_phys e u)"
    using u unfolding frame_coherent_def v by (simp_all add: o bits2_get_def)
qed

lemma copied_nats:
  assumes "v < n" "sol + n \<le> 96"
  shows "bits2_get (if drop_bit 32 (fst b) OR snd b \<noteq> 0 then ia64_copy_bit_range b 32 b (32 + sol) n else b) (32 + v) =
    bits2_get b (32 + (sol + v))"
proof (cases "drop_bit 32 (fst b) OR snd b = 0")
  case True
  then have "stacked_nats_clear (env_zero False (\<lambda>_. 0)\<lparr>nat_bits := b\<rparr>)" by (simp add: stacked_nats_clear_def env_zero_def)
  from stacked_nats_clearD(2) [OF this, of v] stacked_nats_clearD(2) [OF this, of "sol + v"] True assms show ?thesis by simp
next
  case False
  then show ?thesis using assms by (simp add: bits2_get_copy algebra_simps)
qed

text \<open>The logical registers after the outputs have been moved down.\<close>

lemma moved_outputs_coherent:
  assumes good: "rse_good e" and cd: "0 \<le> rse_dirty e \<or> rse_clean e = 0" and rrb: "cfm_rrb_gr e = 0"
  defines "s \<equiv> ia64_rse_sync_frame_out e" and "n \<equiv> cfm_sof e - cfm_sol e"
  assumes ok: "frame_ok e'"
    and f: "rse_pgr e' = rse_pgr s" "rse_pgr_nat e' = rse_pgr_nat s" "rse_bol e' = ia64_rse_wrap_phys (int (rse_bol e) + int (cfm_sol e))"
      "cfm_sof e' = n" "cfm_rrb_gr e' = 0"
    and g: "\<And>v. v < n \<Longrightarrow> gr e' (32 + v) = gr e (32 + (cfm_sol e + v))"
      "\<And>v. v < n \<Longrightarrow> bits2_get (nat_bits e') (32 + v) = bits2_get (nat_bits e) (32 + (cfm_sol e + v))"
  shows "frame_coherent e'"
  unfolding frame_coherent_def
proof (intro allI impI)
  fix v assume "v < cfm_sof e'"
  then have v: "v < n" "cfm_sol e + v < cfm_sof e" by (simp_all add: f n_def)
  have oke: "frame_ok e" using good by (simp add: rse_good_def rse_inv_def)
  have u: "cfm_sol e + v < 96" "v < 96" using v(2) frame_okD(1) [OF oke] by simp_all
  have "int (rse_bol e') = (int (rse_bol e) + int (cfm_sol e)) mod 96" unfolding f(3) int_wrap_phys ..
  then have "rse_bol e' = (rse_bol e + cfm_sol e) mod 96" by (metis of_nat_add of_nat_eq_iff of_nat_numeral zmod_int)
  then have "ia64_rse_virt_to_phys e' v = ia64_rse_virt_to_phys e (cfm_sol e + v)"
    unfolding virt_to_phys_unrotated [OF ok f(5) u(2)] virt_to_phys_unrotated [OF oke rrb u(1)]
    by (simp add: mod_add_left_eq add.assoc)
  with synced_register [OF good cd v(2)] g [OF v(1)]
  show "gr e' (32 + v) = rse_pgr e' (ia64_rse_virt_to_phys e' v) \<and>
      bits2_get (nat_bits e') (32 + v) = bits2_get (rse_pgr_nat e') (ia64_rse_virt_to_phys e' v)"
    by (simp add: f s_def)
qed

lemma frame_in_step_coherent:
  assumes "frame_in_step e e'"
  shows "frame_coherent e'"
proof -
  note l = assms [unfolded frame_in_step_def]
  obtain x y where e': "e' = e\<lparr>gr := x, nat_bits := y, rse_gr_dirty := (0, 0)\<rparr>" using l by blast
  have v: "ia64_rse_virt_to_phys e' = ia64_rse_virt_to_phys e" by (rule ext, rule virt_to_phys_frame_cong) (simp_all add: e')
  have "rse_pgr e' = rse_pgr e" "rse_pgr_nat e' = rse_pgr_nat e" "cfm_sof e' = cfm_sof e" by (simp_all add: e')
  with l show ?thesis unfolding frame_coherent_def v by simp
qed

definition pushed :: "nat \<Rightarrow> env \<Rightarrow> env \<Rightarrow> bool" where
  "pushed n e e' \<longleftrightarrow> rse_good e' \<and> (\<forall>i. stack e' i = stack e (i + int n)) \<and> rse_dirty e' = rse_dirty e + int n \<and>
     rse_clean e' = rse_clean e \<and> rse_clean_nat e' = rse_clean_nat e \<and> ar_bsp e' = reg_addr e (int n) \<and> ar_rsc e' = ar_rsc e \<and>
     cfm_sof e' = cfm_sof e - n \<and> cfm_sol e' = 0 \<and> cfm_sor e' = 0 \<and> cfm_rrb_gr e' = 0"

lemma pushed_core:
  assumes "rse_core x = rse_core e'"
  shows "pushed n e x = pushed n e e'"
  using rse_coreD [OF assms] core_cong [OF assms] by (simp add: pushed_def)

lemma push_frameI:
  assumes good: "rse_good e" and cd: "0 \<le> rse_dirty e \<or> rse_clean e = 0" and n: "n \<le> cfm_sof e"
  defines "s \<equiv> ia64_rse_preserve_frame n (ia64_rse_sync_frame_out e)"
  assumes e': "e' = s\<lparr>gr := g, nat_bits := b, cfm_sof := cfm_sof e - n, cfm_sol := 0, cfm_sor := 0, cfm_rrb_gr := 0\<rparr>"
    and fc: "frame_ok e' \<Longrightarrow> frame_coherent e'"
  shows "pushed n e e'" "frame_ok e'"
proof -
  have inv: "rse_inv e" using good by (simp add: rse_good_def)
  obtain x y where o: "ia64_rse_sync_frame_out e = e\<lparr>rse_gr_dirty := (0, 0), rse_pgr := x, rse_pgr_nat := y\<rparr>"
    using sync_out_stack(4) [OF good cd] by blast
  have bol: "rse_bol s < 96"
    using frame_okD(4) [OF rse_invD(1) [OF inv]] by (simp add: s_def ia64_rse_preserve_frame_def Let_def o)
  show ok: "frame_ok e'"
    using frame_okD(1) [OF rse_invD(1) [OF inv]] bol by (simp add: frame_ok_def e' ia64_cfm_frame_fields_valid_def)
  have rsc: "ar_rsc e' = ar_rsc e" by (simp add: e' s_def ia64_rse_preserve_frame_def Let_def o)
  have "rse_good e' \<and> (\<forall>i. stack e' i = stack e (i + int n)) \<and> rse_dirty e' = rse_dirty e + int n \<and> rse_clean e' = rse_clean e \<and>
    rse_clean_nat e' = rse_clean_nat e \<and> ar_bsp e' = reg_addr e (int n)"
    by (rule push_frame [OF good cd n]) (simp_all add: e' s_def [symmetric] fc [OF ok, unfolded e'] ok [unfolded e'])
  with rsc show "pushed n e e'" by (simp add: pushed_def e')
qed

lemma br_call_stack:
  assumes good: "rse_good e" and cd: "0 \<le> rse_dirty e \<or> rse_clean e = 0"
  shows "pushed (cfm_sol e) e (ia64_rse_br_call b_reg next_ip target e)"
    "ar_pfs (ia64_rse_br_call b_reg next_ip target e) = ia64_rse_current_pfs e"
proof -
  have inv: "rse_inv e" using good by (simp add: rse_good_def)
  note fr = frame_okD [OF rse_invD(1) [OF inv]]
  let ?sol = "cfm_sol e" and ?n = "cfm_sof e - cfm_sol e"
  define s where "s = ia64_rse_preserve_frame ?sol (ia64_rse_sync_frame_out e)"
  have out: "(if cfm_sof e > ?sol then cfm_sof e - ?sol else 0) = ?n" by simp
  obtain x y where o: "ia64_rse_sync_frame_out e = e\<lparr>rse_gr_dirty := (0, 0), rse_pgr := x, rse_pgr_nat := y\<rparr>"
    using sync_out_stack(4) [OF good cd] by blast
  have so: "gr s = gr e" "nat_bits s = nat_bits e" "rse_pgr s = rse_pgr (ia64_rse_sync_frame_out e)"
    "rse_pgr_nat s = rse_pgr_nat (ia64_rse_sync_frame_out e)" by (simp_all add: s_def ia64_rse_preserve_frame_def Let_def o)
  have sbol: "rse_bol s = ia64_rse_wrap_phys (int (rse_bol e) + int ?sol)"
    using fr(4) by (simp add: s_def ia64_rse_preserve_frame_def Let_def o ia64_rse_wrap_phys_def)
  let ?nats = "if drop_bit 32 (fst (nat_bits s)) OR snd (nat_bits s) \<noteq> 0
    then ia64_copy_bit_range (nat_bits s) 32 (nat_bits s) (32 + ?sol) ?n else nat_bits s"
  let ?mv = "cfm_rrb_gr e = 0"
  define e2 where "e2 = (if ?mv \<and> ?n \<noteq> 0 \<and> ?sol \<noteq> 0 then
      s\<lparr>gr := copy_range (gr s) 32 (gr s) (32 + ?sol) ?n, nat_bits := ?nats\<rparr> else s)"
  define e3 where "e3 = ia64_rse_reset_rotations (e2\<lparr>cfm_sof := ?n, cfm_sol := 0, cfm_sor := 0\<rparr>)"
  define e4 where "e4 = (if \<not> ?mv then ia64_rse_sync_frame_in e3 else e3)"
  have whole: "ia64_rse_br_call b_reg next_ip target e =
      (let e5 = ia64_system_reset_dahr ((ia64_rse_invalidate_stacked_alat e4)\<lparr>ar_pfs := ia64_rse_current_pfs e, br := (br e4)(b_reg := next_ip)\<rparr>)
       in e5\<lparr>ip := ia64_ip_bundle_addr target, psr := psr e5 AND NOT IA64_PSR_RI_MASK\<rparr>)"
    unfolding ia64_rse_br_call_def Let_def out s_def [symmetric] e2_def [symmetric] e3_def [symmetric] e4_def [symmetric] ..
  then show "ar_pfs (ia64_rse_br_call b_reg next_ip target e) = ia64_rse_current_pfs e"
    by (simp add: Let_def ia64_system_reset_dahr_def)
  have c3: "rse_core e3 = rse_core (s\<lparr>gr := gr e2, nat_bits := nat_bits e2, cfm_sof := ?n, cfm_sol := 0, cfm_sor := 0, cfm_rrb_gr := 0\<rparr>)"
    unfolding e3_def reset_rotations_core by (simp add: rse_core_def e2_def)
  let ?m = "s\<lparr>gr := gr e2, nat_bits := nat_bits e2, cfm_sof := ?n, cfm_sol := 0, cfm_sor := 0, cfm_rrb_gr := 0\<rparr>"
  have "pushed ?sol e e4"
  proof (cases ?mv)
    case True
    have fc: "frame_coherent ?m" if "frame_ok ?m"
    proof (rule moved_outputs_coherent [OF good cd True that])
      fix v assume v: "v < ?n"
      show "gr ?m (32 + v) = gr e (32 + (?sol + v))"
        using v True by (auto simp: e2_def so copy_range_def add.assoc)
      show "bits2_get (nat_bits ?m) (32 + v) = bits2_get (nat_bits e) (32 + (?sol + v))"
        using v True copied_nats [OF v, of ?sol "nat_bits e"] fr(1,2) by (auto simp: e2_def so)
    qed (simp_all add: so sbol)
    have "pushed ?sol e ?m"
      by (rule push_frameI(1) [OF good cd fr(2) _ fc, folded s_def]) simp_all
    then show ?thesis using True pushed_core [OF c3] by (simp add: e4_def)
  next
    case False
    have ok3: "frame_ok e3"
      unfolding core_cong(6) [OF c3] using fr(1) by (simp add: frame_ok_def ia64_cfm_frame_fields_valid_def sbol)
    have st: "frame_in_step e3 e4" using sync_frame_in [OF ok3] False by (simp add: e4_def)
    then obtain x' y' where e4: "e4 = e3\<lparr>gr := x', nat_bits := y', rse_gr_dirty := (0, 0)\<rparr>"
      unfolding frame_in_step_def by blast
    let ?t = "s\<lparr>gr := x', nat_bits := y', cfm_sof := ?n, cfm_sol := 0, cfm_sor := 0, cfm_rrb_gr := 0\<rparr>"
    have "rse_gr_dirty s = (0, 0)" by (simp add: s_def ia64_rse_preserve_frame_def Let_def o)
    with rse_coreD [OF c3] have c4: "rse_core e4 = rse_core ?t" by (simp add: rse_core_def e4)
    have "frame_coherent ?t" using frame_in_step_coherent [OF st] core_cong(4) [OF c4] by simp
    then have "pushed ?sol e ?t"
      by (intro push_frameI(1) [OF good cd fr(2), folded s_def]) simp_all
    then show ?thesis using pushed_core [OF c4] by simp
  qed
  then show "pushed ?sol e (ia64_rse_br_call b_reg next_ip target e)"
    unfolding whole Let_def pushed_core [OF call_tail_core] .
qed

lemma pushed_core_left:
  assumes "rse_core x = rse_core e"
  shows "pushed n x e' = pushed n e e'"
proof -
  note f = rse_coreD [OF assms]
  have "reg_addr x = reg_addr e" by (rule ext) (simp add: reg_addr_def f)
  then show ?thesis using f core_cong(2) [OF assms] by (simp add: pushed_def)
qed

lemma cover_stack:
  assumes good: "rse_good e" and cd: "0 \<le> rse_dirty e \<or> rse_clean e = 0"
  shows "pushed (cfm_sof e) e (ia64_rse_cover e)"
proof -
  define x where "x = (if psr e AND IA64_PSR_IC = 0 then e\<lparr>cr_ifs := 0x8000000000000000 OR ia64_rse_current_cfm e\<rparr> else e)"
  have c: "rse_core x = rse_core e" by (simp add: x_def rse_core_def)
  have g: "rse_good x" "0 \<le> rse_dirty x \<or> rse_clean x = 0" using good cd core_cong(1) [OF c] rse_coreD [OF c] by simp_all
  define s where "s = ia64_rse_preserve_frame (cfm_sof x) (ia64_rse_sync_frame_out x)"
  obtain a b where o: "ia64_rse_sync_frame_out x = x\<lparr>rse_gr_dirty := (0, 0), rse_pgr := a, rse_pgr_nat := b\<rparr>"
    using sync_out_stack(4) [OF g] by blast
  let ?t = "s\<lparr>gr := gr s, nat_bits := nat_bits s, cfm_sof := cfm_sof x - cfm_sof x, cfm_sol := 0, cfm_sor := 0, cfm_rrb_gr := 0\<rparr>"
  have "pushed (cfm_sof x) x ?t"
    by (rule push_frameI(1) [OF g order_refl, folded s_def, where g = "gr s" and b = "nat_bits s"])
      (simp_all add: frame_coherent_def)
  moreover have "ia64_rse_cover e =
      ia64_rse_invalidate_stacked_alat (ia64_rse_reset_rotations (s\<lparr>cfm_sof := 0, cfm_sol := 0, cfm_sor := 0\<rparr>))"
    unfolding ia64_rse_cover_def Let_def x_def [symmetric] s_def by (simp add: o)
  then have "rse_core (ia64_rse_cover e) = rse_core (s\<lparr>cfm_sof := 0, cfm_sol := 0, cfm_sor := 0, cfm_rrb_gr := 0\<rparr>)"
    unfolding reset_rotations_core [symmetric] by simp
  then have "rse_core (ia64_rse_cover e) = rse_core ?t" by simp
  ultimately show ?thesis using pushed_core pushed_core_left [OF c] rse_coreD(16) [OF c] by metis
qed

section \<open>Returns\<close>

text \<open>
  The partitions after a return whose frame fits without giving up clean registers: the boundaries move
  with the bottom of the frame, and where that leaves the dirty partition negative the clean partition
  makes up for it as far as it goes.
\<close>

definition popped :: "nat \<Rightarrow> int \<Rightarrow> env \<Rightarrow> env" where
  "popped p g e =
     (let nats = ia64_rse_nat_words_shrink (ar_bsp e) (of_nat p)
      in e\<lparr>ar_bsp := ar_bsp e - ucast (of_nat p + nats) * 8, rse_invalid := rse_invalid e - g,
           rse_dirty := rse_dirty e - int p, rse_dirty_nat := rse_dirty_nat e - sint nats\<rparr>)"

definition repartition :: "env \<Rightarrow> env" where
  "repartition t =
     (let d = rse_dirty t + rse_clean t; dn = rse_dirty_nat t + rse_clean_nat t in
      if 0 \<le> rse_dirty t then t
      else if 0 \<le> d then rse_move_bspstore (ar_bsp t) (t\<lparr>rse_clean := d, rse_clean_nat := dn, rse_dirty := 0, rse_dirty_nat := 0\<rparr>)
      else rse_move_bspstore (ar_bsp t - word_of_int (d + dn) * 8)
        (t\<lparr>rse_dirty := d, rse_dirty_nat := dn, rse_clean := 0, rse_clean_nat := 0\<rparr>))"

lemma restore_frame_fits:
  assumes "g \<le> rse_invalid e" "0 \<le> rse_clean e"
  shows "ia64_rse_restore_frame p g os e = repartition (popped p g e)"
proof -
  let ?n = "ia64_rse_nat_words_shrink (ar_bsp e) (of_nat p)"
  have n: "\<not> rse_invalid e + rse_clean e < g" "\<not> rse_invalid e < g" using assms by simp_all
  consider "int p \<le> rse_dirty e" | "rse_dirty e < int p" "int p - rse_dirty e \<le> rse_clean e" | "rse_clean e < int p - rse_dirty e" "rse_dirty e < int p"
    by linarith
  then show ?thesis
  proof cases
    case 1
    then show ?thesis using n by (simp add: ia64_rse_restore_frame_def Let_def popped_def repartition_def)
  next
    case 2
    then show ?thesis using n
      by (simp add: ia64_rse_restore_frame_def Let_def popped_def repartition_def rse_move_bspstore_def algebra_simps)
  next
    case 3
    then show ?thesis using n
      by (simp add: ia64_rse_restore_frame_def Let_def popped_def repartition_def rse_move_bspstore_def algebra_simps)
  qed
qed

lemma popped_moves:
  assumes c: "rnat_bit (ar_bsp e) < 63" and p: "p < 128"
  shows "ar_bsp (popped p g e) = reg_addr e (- int p)"
    "rse_dirty_nat (popped p g e) = rse_dirty_nat e + (rnat_bit (ar_bsp e) + - int p) div 63"
proof -
  let ?p = "of_nat p :: u32" and ?c = "rnat_bit (ar_bsp e)"
  let ?n = "ia64_rse_nat_words_shrink (ar_bsp e) ?p"
  have c0: "0 \<le> ?c" by simp
  have up: "uint ?p = int p" using p by (simp add: unsigned_of_nat take_bit_nat_eq_self_iff)
  have un: "uint ?n = (62 - ?c + int p) div 63" using uint_nat_words_shrink [OF c, of ?p] p up by simp
  have flip: "(62 - ?c + int p) div 63 = - ((?c + - int p) div 63)"
  proof -
    let ?x = "?c + - int p"
    have r: "0 \<le> ?x mod 63" "?x mod 63 < 63" by simp_all
    have "62 - ?c + int p = (62 - ?x mod 63) + 63 * (- (?x div 63))"
      using minus_mult_div_eq_mod [of ?x 63] by simp
    then have "(62 - ?c + int p) div 63 = (62 - ?x mod 63) div 63 + - (?x div 63)"
      by (simp only: div_mult_self2 [OF zero_neq_numeral [symmetric]] add.commute)
    moreover have "(62 - ?x mod 63) div 63 = 0" using r by simp
    ultimately show ?thesis by simp
  qed
  have "0 \<le> 62 - ?c + int p" "62 - ?c + int p \<le> 251" using c p c0 by linarith+
  from zdiv_mono1 [OF this(1), of 63] zdiv_mono1 [OF this(2), of 63]
  have b: "0 \<le> (62 - ?c + int p) div 63" "(62 - ?c + int p) div 63 \<le> 3" by simp_all
  have "sint ?n = uint ?n" using b un by (simp add: sint_uint signed_take_bit_int_eq_self_iff)
  then show "rse_dirty_nat (popped p g e) = rse_dirty_nat e + (?c + - int p) div 63"
    unfolding popped_def Let_def by (simp add: un flip)
  have "uint (?p + ?n) = int p + (62 - ?c + int p) div 63"
    using b p by (subst uint_add_fits) (simp_all add: up un)
  moreover have "(ucast (?p + ?n) :: u64) = word_of_int (uint (?p + ?n))" by simp
  ultimately have w: "(ucast (?p + ?n) :: u64) = word_of_int (int p + - ((?c + - int p) div 63))" by (simp only: flip)
  have "ar_bsp (popped p g e) = ar_bsp e - ucast (?p + ?n) * 8" by (simp add: popped_def Let_def)
  then show "ar_bsp (popped p g e) = reg_addr e (- int p)"
    unfolding w reg_addr_def reg_slot_def by (simp add: algebra_simps)
qed

lemma repartition_good:
  assumes inv: "rse_inv t" and cc: "clean_coherent t"
  defines "r \<equiv> repartition t"
  shows "rse_inv r \<and> clean_coherent r \<and> stack r = stack t \<and> rse_file r = rse_file t \<and> mem r = mem t \<and> rse_invalid r = rse_invalid t \<and>
    (dirty_words r < 0 \<longrightarrow> rse_clean r = 0 \<and> rse_clean_nat r = 0) \<and> rse_dirty r + rse_clean r = rse_dirty t + rse_clean t \<and>
    rse_dirty r \<le> max 0 (rse_dirty t) \<and> (clean_allowed m t \<longrightarrow> clean_allowed m r)"
proof -
  note i = rse_invD [OF inv]
  let ?d = "rse_dirty t + rse_clean t" and ?dn = "rse_dirty_nat t + rse_clean_nat t"
  have fileq: "rse_file r = rse_file t" and mem: "mem r = mem t" and sum: "rse_dirty r + rse_clean r = ?d" and invd: "rse_invalid r = rse_invalid t"
    by (simp_all add: r_def repartition_def Let_def rse_file_def rse_move_bspstore_def)
  note c = file_cong [OF fileq] and fd = rse_fileD [OF fileq]
  have sv: "stored_value r = stored_value t" by (rule ext) (simp add: stored_value_def c mem)
  have st: "stack r = stack t" by (rule ext) (simp add: stack_def c sv sum)
  have lw: "live_words r = live_words t" "rse_dirty_nat r + rse_clean_nat r = ?dn"
    by (simp_all add: r_def repartition_def Let_def live_words_def rse_move_bspstore_def)
  have invI: "rse_inv r" if "rse_dirty_nat r = rnat_slots (rnat_bit (ar_bsp t)) (dirty_words r)"
      "ar_bspstore r = ar_bsp t + word_of_int (- (8 * dirty_words r))" "0 \<le> rse_clean r" "0 \<le> int (cfm_sof t) + rse_dirty r"
    using i(1-3,5,8) that sum lw unfolding rse_inv_def frame_ok_def fd invd by simp
  consider (A) "0 \<le> rse_dirty t" | (B) "rse_dirty t < 0" "0 \<le> ?d" | (C) "rse_dirty t < 0" "?d < 0" by linarith
  then have "rse_inv r \<and> clean_coherent r \<and> (dirty_words r < 0 \<longrightarrow> rse_clean r = 0 \<and> rse_clean_nat r = 0) \<and>
      rse_dirty r \<le> max 0 (rse_dirty t) \<and> (clean_allowed m t \<longrightarrow> clean_allowed m r)"
  proof cases
    case A
    then have "r = t" by (simp add: r_def repartition_def)
    with A inv cc dirty_words_sign(4) [OF inv] show ?thesis by force
  next
    case B
    then have f: "rse_dirty r = 0" "rse_dirty_nat r = 0" "rse_clean r = ?d" "rse_clean_nat r = ?dn" "ar_bspstore r = ar_bsp t"
      by (simp_all add: r_def repartition_def Let_def rse_move_bspstore_def)
    have dw: "dirty_words r = 0" by (simp add: dirty_words_def f)
    have "rnat_slots (rnat_bit (ar_bsp t)) 0 = 0" using rnat_slots_sign(4) [OF rnat_bit_bounds(1) i(2), of 0] by simp
    then have "rse_inv r" using B(2) by (intro invI) (simp_all add: dw f)
    moreover have "clean_coherent r"
      using cc B(1) unfolding clean_coherent_def sv c fd f by auto
    moreover have "clean_allowed m t \<longrightarrow> clean_allowed m r" using B by (auto simp: clean_allowed_def)
    ultimately show ?thesis using f dw by simp
  next
    case C
    then have f: "rse_dirty r = ?d" "rse_dirty_nat r = ?dn" "rse_clean r = 0" "rse_clean_nat r = 0"
        "ar_bspstore r = ar_bsp t - word_of_int (?d + ?dn) * 8"
      by (simp_all add: r_def repartition_def Let_def rse_move_bspstore_def)
    have dw: "dirty_words r = live_words t" by (simp add: dirty_words_def live_words_def f)
    have "rse_dirty_nat r = rnat_slots (rnat_bit (ar_bsp t)) (dirty_words r)" unfolding dw i(8) [symmetric] f ..
    moreover have "ar_bspstore r = ar_bsp t + word_of_int (- (8 * dirty_words r))"
      unfolding f dw live_words_def by (simp add: algebra_simps)
    ultimately have "rse_inv r" using i(4,6) by (intro invI) (simp_all add: f)
    moreover have "clean_coherent r" by (auto simp: clean_coherent_def f)
    ultimately show ?thesis using f C by (simp add: clean_allowed_def)
  qed
  with fileq mem sum invd st show ?thesis by blast
qed

text \<open>A frame marker that \<^verbatim>\<open>alloc\<close> could have established.\<close>

definition pfm_ok :: "u64 \<Rightarrow> bool" where
  "pfm_ok pfm \<longleftrightarrow> ia64_cfm_frame_fields_valid (cfm_field 0 7 pfm) (cfm_field 7 7 pfm) (cfm_field 14 4 pfm) \<and>
     (if cfm_field 14 4 pfm = 0 then cfm_field 18 7 pfm = 0 else cfm_field 18 7 pfm < 8 * cfm_field 14 4 pfm)"

definition returned :: "machine \<Rightarrow> u64 \<Rightarrow> nat \<Rightarrow> env \<Rightarrow> env \<Rightarrow> bool" where
  "returned m pfm p e e' \<longleftrightarrow> rse_good e' \<and> clean_allowed m e' \<and> 0 \<le> dirty_words e' \<and> ar_rsc e' = ar_rsc e \<and> ar_bsp e' = reg_addr e (- int p) \<and>
     cfm_sof e' = cfm_field 0 7 pfm \<and> cfm_sol e' = cfm_field 7 7 pfm \<and> cfm_sor e' = cfm_field 14 4 pfm \<and> cfm_rrb_gr e' = cfm_field 18 7 pfm \<and>
     (\<forall>i. i < int (cfm_sof e') \<longrightarrow> stack e' i = stack e (i - int p)) \<and> rse_dirty e' + rse_clean e' \<le> max 0 (rse_dirty e + rse_clean e - int p)"

lemma return_popped:
  assumes good: "rse_good e" and ca: "clean_allowed m e" and D: "0 \<le> dirty_words e" and ok: "pfm_ok pfm" and p: "p \<le> cfm_field 0 7 pfm"
    and fits: "int (cfm_field 0 7 pfm) - int p - int (cfm_sof e) \<le> rse_invalid e"
    and run: "ia64_rse_return_to_frame m pfm p e = Inr (u, e')"
  obtains t where "rse_inv t" "clean_coherent t" "clean_allowed m t" "\<And>j. stack t j = stack e (j - int p)" "rse_gr_dirty t = (0, 0)"
    "ar_rsc t = ar_rsc e" "ar_bsp t = reg_addr e (- int p)" "rse_dirty t + rse_clean t = rse_dirty e + rse_clean e - int p" "cfm_sof t = cfm_field 0 7 pfm"
    "cfm_sol t = cfm_field 7 7 pfm" "cfm_sor t = cfm_field 14 4 pfm" "cfm_rrb_gr t = cfm_field 18 7 pfm"
    "ia64_rse_complete_frame_loads m (ia64_rse_invalidate_stacked_alat (ia64_rse_sync_frame_in (repartition t))) = Inr (u, e')"
proof -
  let ?sof = "cfm_field 0 7 pfm" and ?g = "int (cfm_field 0 7 pfm) - int p - int (cfm_sof e)"
  have inv: "rse_inv e" using good by (simp add: rse_good_def)
  have d0: "0 \<le> rse_dirty e" using dirty_words_sign(3) [OF inv D] by blast
  then have cd: "0 \<le> rse_dirty e \<or> rse_clean e = 0" by blast
  define s where "s = ia64_rse_sync_frame_out e"
  note so = sync_out_stack [OF good cd, folded s_def]
  obtain x y where o: "s = e\<lparr>rse_gr_dirty := (0, 0), rse_pgr := x, rse_pgr_nat := y\<rparr>" using so(4) by blast
  have os: "rse_dirty s = rse_dirty e" "rse_clean s = rse_clean e" "rse_clean_nat s = rse_clean_nat e" "cfm_sof s = cfm_sof e"
    "rse_invalid s = rse_invalid e" "ar_bsp s = ar_bsp e" "ar_rsc s = ar_rsc e" "rse_gr_dirty s = (0, 0)" by (simp_all add: o)
  have invs: "rse_inv s" and ccs: "clean_coherent s" using so(1) by (simp_all add: rse_good_def)
  note i = rse_invD [OF invs]
  define e1 where "e1 = s\<lparr>cfm_sof := ?sof, cfm_sol := cfm_field 7 7 pfm, cfm_sor := cfm_field 14 4 pfm, cfm_rrb_gr := cfm_field 18 7 pfm\<rparr>"
  define e2 where "e2 = (if cfm_field 25 7 pfm \<noteq> cfm_rrb_fr e1 \<or> cfm_field 25 7 pfm \<ge> 96 then ia64_set_cfm_rrb_fr (cfm_field 25 7 pfm) e1 else e1)"
  define e3 where "e3 = (if cfm_field 32 6 pfm \<noteq> cfm_rrb_pr e2 \<or> cfm_field 32 6 pfm \<ge> 48 then ia64_set_cfm_rrb_pr (cfm_field 32 6 pfm) e2 else e2)"
  define e4 where "e4 = e3\<lparr>rse_bol := ia64_rse_wrap_phys (int (rse_bol e3) - int p)\<rparr>"
  have c3: "rse_core e3 = rse_core e1" by (simp add: e3_def e2_def)
  note f3 = rse_coreD [OF c3]
  define t where "t = popped p ?g e4"
  have fits4: "?g \<le> rse_invalid e4" "0 \<le> rse_clean e4" using fits i(4) by (simp_all add: e4_def f3 e1_def os)
  have run': "ia64_rse_complete_frame_loads m (ia64_rse_invalidate_stacked_alat (ia64_rse_sync_frame_in (repartition t))) = Inr (u, e')"
    using run unfolding ia64_rse_return_to_frame_def Let_def s_def [symmetric] e1_def [symmetric] e2_def [symmetric] e3_def [symmetric]
      e4_def [symmetric] restore_frame_fits [OF fits4] t_def [symmetric] .
  have p128: "p < 128" using p ok by (simp add: pfm_ok_def ia64_cfm_frame_fields_valid_def)
  have b4: "ar_bsp e4 = ar_bsp s" "rnat_bit (ar_bsp e4) < 63" using i(2) by (simp_all add: e4_def f3 e1_def)
  note pm = popped_moves [OF b4(2) p128, of ?g, folded t_def]
  have t: "rse_gr_dirty t = (0, 0)" "rse_pgr t = rse_pgr s" "mem t = mem s" "ar_rsc t = ar_rsc s" "rse_clean t = rse_clean s"
    "rse_clean_nat t = rse_clean_nat s" "ar_bspstore t = ar_bspstore s" "rse_dirty t = rse_dirty s + - int p" "rse_invalid t = rse_invalid s - ?g"
    "cfm_sof t = ?sof" "cfm_sol t = cfm_field 7 7 pfm" "cfm_sor t = cfm_field 14 4 pfm" "cfm_rrb_gr t = cfm_field 18 7 pfm"
    "rse_bol t = ia64_rse_wrap_phys (int (rse_bol s) + - int p)"
    by (simp_all add: t_def popped_def Let_def e4_def f3 e1_def os)
  have "reg_addr e4 = reg_addr s" by (rule ext) (simp add: reg_addr_def b4)
  with pm(1) have tb: "ar_bsp t = reg_addr s (- int p)" by simp
  have td: "rse_dirty_nat t = rse_dirty_nat s + (rnat_bit (ar_bsp s) + - int p) div 63"
    using pm(2) by (simp add: b4 e4_def f3 e1_def)
  have okt: "frame_ok t" using ok by (simp add: frame_ok_def pfm_ok_def t)
  have invt: "rse_inv t"
    using i(3) fits d0 p by (intro conjunct1 [OF rebased_inv [OF invs tb okt t(8) td t(5-7)]]) (simp_all add: t os)
  note rs = rebased_stack [OF tb t(14) os(8) t(1-4)]
  have stt: "stack t j = stack e (j - int p)" for j
    unfolding so(2) [symmetric] stack_def rs by (simp add: t algebra_simps)
  have cct: "clean_coherent t"
    unfolding clean_coherent_def
  proof (intro allI impI)
    fix j assume "- (rse_dirty t + rse_clean t) \<le> j \<and> j < - rse_dirty t"
    then have "- (rse_dirty s + rse_clean s) \<le> j + - int p \<and> j + - int p < - rse_dirty s" by (simp add: t)
    with ccs show "stored_value t j = rse_pgr t (reg_phys t j)" unfolding rs t by (simp add: clean_coherent_def)
  qed
  have cat: "clean_allowed m t" using ca by (simp add: clean_allowed_def t os)
  have "reg_addr s = reg_addr e" by (rule ext) (simp add: reg_addr_def os)
  with tb have tb': "ar_bsp t = reg_addr e (- int p)" by simp
  show thesis
    by (rule that [OF invt cct cat stt t(1) _ tb' _ t(10-13) run']) (simp_all add: t os)
qed

lemma sync_in_good:
  assumes inv: "rse_inv r" and cc: "clean_coherent r" and nd: "rse_gr_dirty r = (0, 0)"
  defines "q \<equiv> ia64_rse_sync_frame_in r"
  shows "rse_good q \<and> stack q = stack r \<and> rse_marker q = rse_marker r \<and> rse_dirty q = rse_dirty r \<and> rse_dirty_nat q = rse_dirty_nat r \<and>
    rse_clean q = rse_clean r \<and> rse_clean_nat q = rse_clean_nat r \<and> rse_invalid q = rse_invalid r"
proof -
  have st: "frame_in_step r q" unfolding q_def by (rule sync_frame_in [OF rse_invD(1) [OF inv]])
  then obtain x y where q: "q = r\<lparr>gr := x, nat_bits := y, rse_gr_dirty := (0, 0)\<rparr>" unfolding frame_in_step_def by blast
  have f: "rse_gr_dirty q = (0, 0)" "rse_pgr q = rse_pgr r" "mem q = mem r" "rse_bol q = rse_bol r" "ar_bsp q = ar_bsp r" "ar_rsc q = ar_rsc r"
    "rse_dirty q = rse_dirty r" "rse_dirty_nat q = rse_dirty_nat r" "rse_clean q = rse_clean r" "rse_clean_nat q = rse_clean_nat r"
    "rse_invalid q = rse_invalid r" "ar_bspstore q = ar_bspstore r" "cfm_sof q = cfm_sof r" "cfm_sol q = cfm_sol r" "cfm_sor q = cfm_sor r"
    "cfm_rrb_gr q = cfm_rrb_gr r" "rse_marker q = rse_marker r" by (simp_all add: q rse_marker_def)
  have nb: "\<not> bits2_get (0, 0) v" for v by (simp add: bits2_get_def)
  have fv: "file_value q = file_value r" by (rule ext) (simp add: file_value_def f nd nb Let_def)
  have g: "reg_phys q = reg_phys r" "stored_value q = stored_value r"
    by (rule ext; simp add: reg_phys_def stored_value_def reg_addr_def rse_big_endian_def f)+
  have "rse_inv q" using inv unfolding rse_inv_def frame_ok_def dirty_words_def live_words_def f .
  moreover have "clean_coherent q" using cc unfolding clean_coherent_def g f .
  moreover have "stack q = stack r" by (rule ext) (simp add: stack_def g fv f)
  ultimately show ?thesis using frame_in_step_coherent [OF st] f by (simp add: rse_good_def)
qed

lemma return_stack:
  assumes good: "rse_good e" and ca: "clean_allowed m e" and D: "0 \<le> dirty_words e" and ok: "pfm_ok pfm" and p: "p \<le> cfm_field 0 7 pfm"
    and fits: "int (cfm_field 0 7 pfm) - int p - int (cfm_sof e) \<le> rse_invalid e"
    and run: "ia64_rse_return_to_frame m pfm p e = Inr (u, e')"
  shows "returned m pfm p e e'"
proof (rule return_popped [OF assms], goal_cases)
  case (1 t)
  define r where "r = repartition t"
  define q where "q = ia64_rse_sync_frame_in r"
  note rp = repartition_good [OF 1(1,2), of m, folded r_def]
  have fl: "rse_file r = rse_file t" using rp by blast
  have "rse_gr_dirty r = (0, 0)" using rse_fileD(5) [OF fl] 1(5) by simp
  with rp have q: "rse_good q \<and> stack q = stack r \<and> rse_marker q = rse_marker r \<and> rse_dirty q = rse_dirty r \<and> rse_dirty_nat q = rse_dirty_nat r \<and>
    rse_clean q = rse_clean r \<and> rse_clean_nat q = rse_clean_nat r \<and> rse_invalid q = rse_invalid r"
    unfolding q_def by (intro sync_in_good) blast+
  define z where "z = ia64_rse_invalidate_stacked_alat q"
  have core: "rse_core z = rse_core q" by (simp add: z_def)
  note zc = rse_coreD [OF core]
  have zm: "rse_marker z = rse_marker r" using q zc by (simp add: rse_marker_def z_def ia64_rse_invalidate_stacked_alat_def)
  note zf = rse_markerD [OF zm] and tf = rse_fileD [OF fl]
  have zd: "dirty_words z = dirty_words r" using q zc by (simp add: dirty_words_def)
  have "ia64_rse_complete_frame_loads m z = Inr (u, e')" using 1(13) by (simp add: z_def q_def r_def)
  moreover have "rse_good z" "stack z = stack r" using q core_cong(1,2) [OF core] by simp_all
  ultimately have l: "rse_good e' \<and> dirty_words e' = max 0 (dirty_words z) \<and> rse_marker e' = rse_marker z \<and>
      (clean_allowed m z \<longrightarrow> clean_allowed m e') \<and> (\<forall>i<int (cfm_sof z). stack e' i = stack r i) \<and>
      rse_dirty e' + rse_clean e' \<le> max 0 (rse_dirty z + rse_clean z)"
    using complete_loads_stack [of z m u e'] rp q zc(13,14) zd by simp
  have "clean_allowed m r" using rp 1(3) by blast
  then have "clean_allowed m z" using q zc(13,14) by (simp add: clean_allowed_def)
  moreover note ef = rse_markerD [of e' z]
  ultimately show ?thesis
    using l rp 1(4,6-12) q zf tf zc(11,13) unfolding returned_def by simp
qed


end
