(* ===== verification/Rse_Procedure.thy ===== *)
theory Rse_Procedure
  imports Rse_Call
begin

text \<open>
  Procedures over the register stack: \<^verbatim>\<open>alloc\<close>, and the theorem that local registers survive a call.
\<close>

section \<open>Giving up clean registers\<close>

lemma drop_clean:
  assumes good: "rse_good e" and cd: "0 \<le> rse_dirty e \<or> rse_clean e = 0"
    and f: "rse_file e' = rse_file e" "mem e' = mem e" "rse_dirty e' = rse_dirty e" and c: "0 \<le> rse_clean e'" "rse_clean e' \<le> rse_clean e"
  shows "stack e' = stack e" "clean_coherent e'"
proof -
  have inv: "rse_inv e" and cc: "clean_coherent e" using good by (simp_all add: rse_good_def)
  note i = rse_invD [OF inv] and lb = live_bounds [OF inv] and g = file_cong [OF f(1)] and fd = rse_fileD [OF f(1)]
  have sv: "stored_value e' = stored_value e" by (rule ext) (simp add: stored_value_def g f)
  show "clean_coherent e'" using cc c unfolding clean_coherent_def sv g fd f(3) by auto
  show "stack e' = stack e"
  proof
    fix j
    show "stack e' j = stack e j"
    proof (cases "- (rse_dirty e + rse_clean e) \<le> j \<and> j < - (rse_dirty e + rse_clean e')")
      case True
      then have j: "int (cfm_sof e) - 96 \<le> j" "j < 0" "j < - rse_dirty e" using lb cd c by auto
      then have "stored_value e j = rse_pgr e (reg_phys e j)" using cc True by (simp add: clean_coherent_def)
      with True file_value_below [OF i(1) j(1,2)] show ?thesis by (simp add: stack_def sv g f(3))
    next
      case False
      then show ?thesis using c by (auto simp: stack_def sv g f(3))
    qed
  qed
qed

lemma clean_nats_count:
  assumes c: "rnat_bit (ar_bsp e) < 63" and r: "0 \<le> rse_clean e + rse_dirty e" "rse_clean e + rse_dirty e \<le> 96"
    and dn: "0 \<le> rse_dirty_nat e" "rse_dirty_nat e < 200"
  shows "rse_dirty_nat e + rse_clean_nats e =
    rnat_slots (rnat_bit (ar_bsp e)) (rse_dirty e + rse_clean e + (rse_dirty_nat e + rse_clean_nats e))"
proof -
  let ?c = "rnat_bit (ar_bsp e)" and ?N = "rse_clean e + rse_dirty e"
  let ?w = "word_of_int (?N + 1) :: u32"
  have c0: "0 \<le> ?c" by simp
  have "uint (word_of_int x :: u32) = take_bit 32 x" for x by (simp add: uint_word_of_int_eq)
  moreover have "take_bit 32 (?N + 1) = ?N + 1" using r by (simp add: take_bit_int_eq_self_iff)
  ultimately have uw: "uint ?w = ?N + 1" by (simp only:)
  let ?T = "(62 - ?c + (?N + 1)) div 63"
  have "uint ?w < 2 ^ 31" using uw r by simp
  then have us: "uint (ia64_rse_nat_words_shrink (ar_bsp e) ?w) = ?T" using uint_nat_words_shrink [OF c] uw by simp
  have "0 \<le> 62 - ?c + (?N + 1)" "62 - ?c + (?N + 1) \<le> 188" using c c0 r by linarith+
  from zdiv_mono1 [OF this(1), of 63] zdiv_mono1 [OF this(2), of 63] have T: "0 \<le> ?T" "?T \<le> 2" by simp_all
  have "ia64_rse_nat_words_shrink (ar_bsp e) ?w = word_of_int ?T" unfolding us [symmetric] by simp
  then have "rse_clean_nats e = sint (word_of_int (?T - rse_dirty_nat e) :: u32)" by (simp add: rse_clean_nats_def)
  moreover have "sint (word_of_int x :: u32) = signed_take_bit 31 x" for x by (simp add: sint_sbintrunc')
  ultimately have "rse_clean_nats e = signed_take_bit 31 (?T - rse_dirty_nat e)" by (simp only:)
  also have "\<dots> = ?T - rse_dirty_nat e" using T dn by (simp add: signed_take_bit_int_eq_self_iff)
  finally have e: "rse_dirty_nat e + rse_clean_nats e = ?T" by simp
  have "rnat_slots ?c (?N + ?T) = ?T" by (rule shrink_fixpoint [OF c0 c r(1)])
  then show ?thesis unfolding e by (simp add: add.commute)
qed

lemma dirty_nat_bounds:
  assumes inv: "rse_inv e" and d: "0 \<le> rse_dirty e"
  shows "0 \<le> rse_dirty_nat e" "rse_dirty_nat e \<le> 2" "0 \<le> dirty_words e"
proof -
  note i = rse_invD [OF inv]
  show D: "0 \<le> dirty_words e" using dirty_words_sign(4) [OF inv] d by linarith
  then show "0 \<le> rse_dirty_nat e" using dirty_words_sign(3) [OF inv] by blast
  have c: "0 \<le> rnat_bit (ar_bsp e)" by simp
  have "64 * rnat_slots (rnat_bit (ar_bsp e)) (dirty_words e) \<le> dirty_words e + 63 - rnat_bit (ar_bsp e)"
    unfolding rnat_slots_def by simp
  then have "64 * rse_dirty_nat e \<le> rse_dirty e + rse_dirty_nat e + 63"
    using i(7) c unfolding dirty_words_def by linarith
  moreover have "rse_dirty e \<le> 96" using i(3-5) by linarith
  ultimately show "rse_dirty_nat e \<le> 2" by linarith
qed

section \<open>Growing the frame\<close>

text \<open>The part of the invariant that does not mention the frame marker.\<close>

definition rse_counts :: "env \<Rightarrow> bool" where
  "rse_counts e \<longleftrightarrow> rnat_bit (ar_bsp e) < 63 \<and> 0 \<le> rse_clean e \<and>
     rse_dirty_nat e = rnat_slots (rnat_bit (ar_bsp e)) (dirty_words e) \<and>
     rse_dirty_nat e + rse_clean_nat e = rnat_slots (rnat_bit (ar_bsp e)) (live_words e) \<and>
     ar_bspstore e = ar_bsp e + word_of_int (- (8 * dirty_words e))"

lemma rse_inv_counts:
  "rse_inv e \<longleftrightarrow> frame_ok e \<and> rse_counts e \<and> int (cfm_sof e) + rse_dirty e + rse_clean e + rse_invalid e = 96 \<and>
     0 \<le> rse_invalid e \<and> 0 \<le> int (cfm_sof e) + rse_dirty e"
  unfolding rse_inv_def rse_counts_def by blast

definition grown :: "machine \<Rightarrow> int \<Rightarrow> env \<Rightarrow> env \<Rightarrow> bool" where
  "grown m sof e e' \<longleftrightarrow> rse_file e' = rse_file e \<and> rse_counts e' \<and> clean_coherent e' \<and> clean_allowed m e' \<and> 0 \<le> rse_dirty e' \<and>
     0 \<le> rse_invalid e' \<and> sof + rse_dirty e' + rse_clean e' + rse_invalid e' = 96 \<and>
     rse_dirty e' + rse_clean e' \<le> rse_dirty e + rse_clean e \<and> (\<forall>i. near i \<longrightarrow> stack e' i = stack e i)"

lemma counts_cong:
  assumes "rse_file e' = rse_file e" "rse_dirty e' = rse_dirty e" "rse_dirty_nat e' = rse_dirty_nat e" "ar_bspstore e' = ar_bspstore e"
    "0 \<le> rse_clean e'" "rse_dirty_nat e' + rse_clean_nat e' = rnat_slots (rnat_bit (ar_bsp e)) (live_words e')" "rse_inv e"
  shows "rse_counts e'"
  using assms(2-6) rse_invD(2,7,9) [OF assms(7)] unfolding rse_counts_def dirty_words_def rse_fileD(8) [OF assms(1)] by simp

lemma new_frame_grown:
  assumes good: "rse_good e" and ca: "clean_allowed m e" and d0: "0 \<le> rse_dirty e" and sof: "sof = int (cfm_sof e) + g" "sof \<le> 96"
    and run: "ia64_rse_new_frame m g e = Inr (u, e')"
  shows "grown m sof e e'"
proof -
  have inv: "rse_inv e" and cc: "clean_coherent e" using good by (simp_all add: rse_good_def)
  note i = rse_invD [OF inv] and db = dirty_nat_bounds [OF inv d0]
  have cd: "0 \<le> rse_dirty e \<or> rse_clean e = 0" using d0 by blast
  consider (A) "g \<le> rse_invalid e" | (B) "rse_invalid e < g" "g - rse_invalid e \<le> rse_clean e"
    | (C) "rse_invalid e < g" "rse_clean e < g - rse_invalid e" by linarith
  then show ?thesis
  proof cases
    case A
    then have e': "e' = e\<lparr>rse_invalid := rse_invalid e - g\<rparr>" using run by (simp add: ia64_rse_new_frame_def)
    have f: "rse_file e' = rse_file e" "mem e' = mem e" "rse_dirty e' = rse_dirty e" "rse_clean e' = rse_clean e"
      "rse_invalid e' = rse_invalid e - g" "rse_clean_nat e' = rse_clean_nat e" by (simp_all add: e' rse_file_def)
    have "rse_counts e'"
      by (rule counts_cong [OF f(1,3)]) (use inv i(4,8) in \<open>simp_all add: e' live_words_def\<close>)
    with A drop_clean [OF good cd f(1-3)] f ca d0 sof i(3,4) show ?thesis by (simp add: grown_def clean_allowed_def)
  next
    case B
    define e1 where "e1 = e\<lparr>rse_invalid := 0, rse_clean := rse_clean e - (g - rse_invalid e)\<rparr>"
    have e': "e' = e1\<lparr>rse_clean_nat := rse_clean_nats e1\<rparr>" using run B by (simp add: ia64_rse_new_frame_def e1_def Let_def)
    have f: "rse_file e' = rse_file e" "mem e' = mem e" "rse_dirty e' = rse_dirty e" "rse_clean e' = rse_clean e - (g - rse_invalid e)"
      "rse_invalid e' = 0" "rse_dirty_nat e' = rse_dirty_nat e" "ar_bspstore e' = ar_bspstore e" "rse_clean_nat e' = rse_clean_nats e1"
      by (simp_all add: e' e1_def rse_file_def)
    have lw: "live_words e' = rse_dirty e1 + rse_clean e1 + (rse_dirty_nat e1 + rse_clean_nats e1)" "ar_bsp e1 = ar_bsp e"
      "rse_dirty_nat e1 = rse_dirty_nat e"
      by (simp_all add: live_words_def e' e1_def)
    have "rse_dirty_nat e1 + rse_clean_nats e1 = rnat_slots (rnat_bit (ar_bsp e1)) (rse_dirty e1 + rse_clean e1 + (rse_dirty_nat e1 + rse_clean_nats e1))"
      by (rule clean_nats_count) (use B i d0 db in \<open>simp_all add: e1_def\<close>)
    then have "rse_dirty_nat e' + rse_clean_nat e' = rnat_slots (rnat_bit (ar_bsp e)) (live_words e')"
      unfolding f(6,8) lw(2) lw(3) [symmetric] lw(1) .
    then have "rse_counts e'" using B(2) by (intro counts_cong [OF f(1,3,6,7) _ _ inv]) (simp_all add: f)
    moreover have "rse_has_clean_partition (m_class m)" using ca B by (auto simp: clean_allowed_def)
    ultimately show ?thesis
      using B drop_clean [OF good cd f(1-3)] f d0 sof i(3) by (simp add: grown_def clean_allowed_def)
  next
    case C
    let ?g = "g - rse_invalid e - rse_clean e"
    obtain e1 where l: "rse_spill_loop m ?g e = Inr ((), e1)" and e': "e' = e1\<lparr>rse_invalid := 0, rse_clean := 0, rse_clean_nat := 0\<rparr>"
      using run C by (auto simp: ia64_rse_new_frame_def Let_def run_bind_Inr)
    have "?g \<le> rse_dirty e" using sof i(3) by linarith
    from spill_loop_spills [OF spills_refl [OF good ca] this l] C
    have s: "spills m e e1" "rse_dirty e1 = rse_dirty e - ?g" by simp_all
    have g1: "rse_good e1" "clean_allowed m e1" "rse_file e1 = rse_file e" "\<And>i. near i \<Longrightarrow> stack e1 i = stack e i"
      using s(1) by (simp_all add: spills_def)
    have inv1: "rse_inv e1" using g1(1) by (simp add: rse_good_def)
    have d1: "0 \<le> rse_dirty e1" using \<open>?g \<le> rse_dirty e\<close> s(2) by simp
    have f: "rse_file e' = rse_file e1" "mem e' = mem e1" "rse_dirty e' = rse_dirty e1" "rse_dirty_nat e' = rse_dirty_nat e1"
      "ar_bspstore e' = ar_bspstore e1" "rse_clean e' = 0" "rse_clean_nat e' = 0" "rse_invalid e' = 0"
      by (simp_all add: e' rse_file_def)
    have "rse_dirty_nat e' + rse_clean_nat e' = rnat_slots (rnat_bit (ar_bsp e1)) (live_words e')"
      using rse_invD(7) [OF inv1] by (simp add: f live_words_def dirty_words_def)
    then have "rse_counts e'" by (intro counts_cong [OF f(1,3,4,5) _ _ inv1]) (simp_all add: f)
    moreover have "0 \<le> rse_dirty e1 \<or> rse_clean e1 = 0" "0 \<le> rse_clean e1" using d1 rse_invD(4) [OF inv1] by simp_all
    ultimately show ?thesis
      using drop_clean [OF g1(1) _ f(1-3)] f g1(3,4) d1 s(2) sof i(3,4) C by (simp add: grown_def clean_allowed_def)
  qed
qed

section \<open>Allocation\<close>

text \<open>Every register of the frame agrees with the file, whatever the dirty marks say.\<close>

definition frame_in_file :: "env \<Rightarrow> bool" where
  "frame_in_file e \<longleftrightarrow> (\<forall>v<cfm_sof e. gr e (32 + v) = rse_pgr e (ia64_rse_virt_to_phys e v) \<and>
     bits2_get (nat_bits e) (32 + v) = bits2_get (rse_pgr_nat e) (ia64_rse_virt_to_phys e v))"

lemma frame_in_fileD:
  assumes "frame_in_file e" "frame_ok e"
  shows "frame_coherent e" "p < 96 \<Longrightarrow> file_value e p = rse_pgr e p"
proof -
  show "frame_coherent e" using assms(1) by (simp add: frame_in_file_def frame_coherent_def)
  show "file_value e p = rse_pgr e p" if "p < 96"
    using assms(1) phys_virt_inverse [OF assms(2) that] by (simp add: file_value_def frame_in_file_def Let_def)
qed

lemma remap_unchanged:
  assumes "frame_ok e" "frame_ok f" "rse_bol f = rse_bol e" "cfm_rrb_gr f = cfm_rrb_gr e" "cfm_sor f = cfm_sor e \<or> cfm_rrb_gr e = 0" "v < 96"
  shows "ia64_rse_virt_to_phys f v = ia64_rse_virt_to_phys e v"
proof (cases "cfm_rrb_gr e = 0")
  case True
  then show ?thesis using assms virt_to_phys_unrotated [OF assms(1) True] virt_to_phys_unrotated [of f v] by simp
next
  case False
  then show ?thesis using assms by (simp add: virt_to_phys_alt)
qed

lemma resized_in_file:
  assumes s: "frame_in_file s" "frame_ok s" and ok: "frame_ok f"
    and f: "rse_bol f = rse_bol s" "cfm_rrb_gr f = cfm_rrb_gr s" "cfm_sor f = cfm_sor s \<or> cfm_rrb_gr s = 0" "gr f = gr s" "nat_bits f = nat_bits s"
      "rse_pgr f = rse_pgr s" "rse_pgr_nat f = rse_pgr_nat s"
  shows "frame_in_file (if cfm_sof f > cfm_sof s then ia64_rse_sync_frame_in_range (cfm_sof s) (cfm_sof f - cfm_sof s) f else f)"
proof -
  have sof: "cfm_sof f \<le> 96" using frame_okD(1) [OF ok] .
  have old: "gr f (32 + v) = rse_pgr f (ia64_rse_virt_to_phys f v) \<and>
      bits2_get (nat_bits f) (32 + v) = bits2_get (rse_pgr_nat f) (ia64_rse_virt_to_phys f v)" if "v < cfm_sof s" "v < 96" for v
    using s(1) that remap_unchanged [OF s(2) ok f(1-3) that(2)] by (simp add: frame_in_file_def f)
  show ?thesis
  proof (cases "cfm_sof s < cfm_sof f")
    case False
    then show ?thesis using old sof by (simp add: frame_in_file_def)
  next
    case True
    define q where "q = ia64_rse_sync_frame_in_range (cfm_sof s) (cfm_sof f - cfm_sof s) f"
    have "min (cfm_sof s + (cfm_sof f - cfm_sof s)) (cfm_sof f) = cfm_sof f" using True by simp
    then have l: "frame_loaded (cfm_sof s) (cfm_sof f) f q"
      using sync_frame_in_range [OF ok, of "cfm_sof s" "cfm_sof f - cfm_sof s"] by (simp add: q_def)
    then obtain x y z where q: "q = f\<lparr>gr := x, nat_bits := y, rse_gr_dirty := z\<rparr>" unfolding frame_loaded_def by blast
    have v: "ia64_rse_virt_to_phys q = ia64_rse_virt_to_phys f" by (rule ext, rule virt_to_phys_frame_cong) (simp_all add: q)
    have qf: "cfm_sof q = cfm_sof f" "rse_pgr q = rse_pgr f" "rse_pgr_nat q = rse_pgr_nat f" by (simp_all add: q)
    have "frame_in_file q"
      unfolding frame_in_file_def v qf
    proof (intro allI impI)
      fix u assume u: "u < cfm_sof f"
      show "gr q (32 + u) = rse_pgr f (ia64_rse_virt_to_phys f u) \<and>
          bits2_get (nat_bits q) (32 + u) = bits2_get (rse_pgr_nat f) (ia64_rse_virt_to_phys f u)"
      proof (cases "cfm_sof s \<le> u")
        case True
        then show ?thesis using l u unfolding frame_loaded_def by blast
      next
        case False
        then have "\<not> (32 + cfm_sof s \<le> 32 + u \<and> 32 + u < 32 + cfm_sof f)" "32 + u < 128" using u sof by simp_all
        then have "gr q (32 + u) = gr f (32 + u)" "bits2_get (nat_bits q) (32 + u) = bits2_get (nat_bits f) (32 + u)"
          using l unfolding frame_loaded_def by blast+
        with old [of u] False u sof show ?thesis by simp
      qed
    qed
    with True show ?thesis by (simp add: q_def)
  qed
qed

text \<open>A write to a general register, as translated code and \<^verbatim>\<open>alloc\<close> make it.\<close>

definition write_gr :: "nat \<Rightarrow> u64 \<Rightarrow> bool \<Rightarrow> env \<Rightarrow> env" where
  "write_gr r w n e = ia64_rse_mark_gr_dirty r (ia64_gr_nat_set r n (e\<lparr>gr := (gr e)(r := w)\<rparr>))"

text \<open>Everything the stack below the frame depends on; an operation that changes only the frame's view leaves it.\<close>

definition rse_backing where
  "rse_backing e = ((rse_pgr e, mem e, rse_bol e, cfm_sof e), (ar_rsc e, ar_bsp e, ar_bspstore e),
     (rse_dirty e, rse_dirty_nat e, rse_clean e, rse_clean_nat e, rse_invalid e))"

lemma rse_backingD:
  assumes "rse_backing e' = rse_backing e"
  shows "rse_pgr e' = rse_pgr e" "mem e' = mem e" "rse_bol e' = rse_bol e" "cfm_sof e' = cfm_sof e" "ar_rsc e' = ar_rsc e" "ar_bsp e' = ar_bsp e"
    "ar_bspstore e' = ar_bspstore e" "rse_dirty e' = rse_dirty e" "rse_dirty_nat e' = rse_dirty_nat e" "rse_clean e' = rse_clean e"
    "rse_clean_nat e' = rse_clean_nat e" "rse_invalid e' = rse_invalid e"
  using assms by (simp_all add: rse_backing_def)

lemma frame_rewritten:
  assumes good: "rse_good e" and b: "rse_backing e' = rse_backing e" and ok: "frame_ok e'" and fc: "frame_coherent e'"
  shows "rse_good e'" "i < 0 \<Longrightarrow> stack e' i = stack e i"
proof -
  have inv: "rse_inv e" and cc: "clean_coherent e" using good by (simp_all add: rse_good_def)
  note f = rse_backingD [OF b] and lb = live_bounds [OF inv] and oke = rse_invD(1) [OF inv]
  have g: "reg_phys e' = reg_phys e" "stored_value e' = stored_value e"
    by (rule ext; simp add: reg_phys_def stored_value_def reg_addr_def rse_big_endian_def f)+
  have "rse_inv e'" using inv ok unfolding rse_inv_def dirty_words_def live_words_def f by blast
  moreover have "clean_coherent e'" using cc unfolding clean_coherent_def g f .
  ultimately show "rse_good e'" using fc by (simp add: rse_good_def)
  assume i: "i < 0"
  show "stack e' i = stack e i"
  proof (cases "- (rse_dirty e + rse_clean e) \<le> i")
    case True
    then have "int (cfm_sof e) - 96 \<le> i" using lb by linarith
    then have "file_value e' (reg_phys e' i) = rse_pgr e' (reg_phys e' i)" "file_value e (reg_phys e i) = rse_pgr e (reg_phys e i)"
      using i f(4) by (auto intro!: file_value_below ok oke)
    then show ?thesis by (simp add: stack_def g f)
  next
    case False
    then show ?thesis by (simp add: stack_def g f)
  qed
qed

lemma write_gr_good:
  assumes good: "rse_good e" and r: "r < 128"
  shows "rse_good (write_gr r w n e)" "i < 0 \<Longrightarrow> stack (write_gr r w n e) i = stack e i"
    "rse_marker (write_gr r w n e) = rse_marker e" "rse_backing (write_gr r w n e) = rse_backing e"
proof -
  let ?e = "write_gr r w n e"
  have inv: "rse_inv e" and fc: "frame_coherent e" using good by (simp_all add: rse_good_def)
  note ok = rse_invD(1) [OF inv]
  obtain x y where e': "?e = e\<lparr>gr := (gr e)(r := w), nat_bits := x, rse_gr_dirty := y\<rparr>"
    and x: "x = (if r = 0 then nat_bits e else bits2_set (nat_bits e) r n)"
    and y: "y = (if 32 \<le> r \<and> r < 128 then bits2_set (rse_gr_dirty e) (r - 32) True else rse_gr_dirty e)"
    by (rule that) (simp_all add: write_gr_def ia64_rse_mark_gr_dirty_def ia64_gr_nat_set_def)
  have v: "ia64_rse_virt_to_phys ?e = ia64_rse_virt_to_phys e"
    by (rule ext, rule virt_to_phys_frame_cong; simp add: e')
  show b: "rse_backing ?e = rse_backing e" "rse_marker ?e = rse_marker e" by (simp_all add: e' rse_backing_def rse_marker_def)
  have ok': "frame_ok ?e" using ok by (simp add: frame_ok_def e')
  have "frame_coherent ?e"
    unfolding frame_coherent_def v
  proof (intro allI impI)
    fix u assume u: "u < cfm_sof ?e" and nd: "\<not> bits2_get (rse_gr_dirty ?e) u"
    have u': "u < cfm_sof e" "u < 96" using u frame_okD(1) [OF ok] by (simp_all add: e')
    have "r \<noteq> 32 + u" "\<not> bits2_get (rse_gr_dirty e) u"
      using nd u' r by (auto simp: e' y bits2_get_set split: if_splits)
    moreover have "bits2_get x (32 + u) = bits2_get (nat_bits e) (32 + u)"
      using \<open>r \<noteq> 32 + u\<close> u' r by (simp add: x bits2_get_set)
    ultimately show "gr ?e (32 + u) = rse_pgr ?e (ia64_rse_virt_to_phys e u) \<and>
        bits2_get (nat_bits ?e) (32 + u) = bits2_get (rse_pgr_nat ?e) (ia64_rse_virt_to_phys e u)"
      using fc u' by (simp add: e' frame_coherent_def)
  qed
  from frame_rewritten [OF good b(1) ok' this] show "rse_good ?e" "i < 0 \<Longrightarrow> stack ?e i = stack e i" by blast+
qed

lemma rotation_backing:
  "rse_backing (ia64_rotate_cfm_rrb_pr_right e) = rse_backing e" "ar_pfs (ia64_rotate_cfm_rrb_pr_right e) = ar_pfs e"
  "rse_backing (ia64_set_cfm_rrb_fr n e) = rse_backing e" "ar_pfs (ia64_set_cfm_rrb_fr n e) = ar_pfs e"
  "rse_backing (ia64_rotate_rotating_gr_right e) = rse_backing e" "ar_pfs (ia64_rotate_rotating_gr_right e) = ar_pfs e"
  by (simp_all add: rse_backing_def ia64_rotate_cfm_rrb_pr_right_def ia64_set_cfm_rrb_fr_def ia64_rotate_rotating_gr_right_def Let_def)

lemma rrb_gr_backing: "rse_backing (e\<lparr>cfm_rrb_gr := n\<rparr>) = rse_backing e" "ar_pfs (e\<lparr>cfm_rrb_gr := n\<rparr>) = ar_pfs e"
  by (simp_all add: rse_backing_def)

lemma rotate_loop_backing: "rse_backing (ia64_rotate_loop_regs e) = rse_backing e" "ar_pfs (ia64_rotate_loop_regs e) = ar_pfs e"
  by (simp_all only: ia64_rotate_loop_regs_def Let_def rotation_backing rrb_gr_backing if_distrib [of rse_backing] if_distrib [of ar_pfs] if_cancel)

lemma rotate_loop_good:
  assumes good: "rse_good e"
  shows "rse_good (ia64_rotate_loop_regs e)" "i < 0 \<Longrightarrow> stack (ia64_rotate_loop_regs e) i = stack e i"
proof -
  have ok: "frame_ok e" and fc: "frame_coherent e" using good by (simp_all add: rse_good_def rse_inv_def)
  from frame_rewritten [OF good rotate_loop_backing(1) rotate_loop_frame(1) [OF ok] rotate_loop_coherent [OF ok fc]]
  show "rse_good (ia64_rotate_loop_regs e)" "i < 0 \<Longrightarrow> stack (ia64_rotate_loop_regs e) i = stack e i" by blast+
qed

text \<open>
  What a run inside a procedure leaves of the registers below its frame, as far down as \<open>depth\<close>
  completed calls of at most 96 registers each still distinguish the addresses of the backing store.
\<close>

definition below_kept :: "machine \<Rightarrow> nat \<Rightarrow> env \<Rightarrow> env \<Rightarrow> bool" where
  "below_kept m depth e e' \<longleftrightarrow> rse_good e' \<and> clean_allowed m e' \<and> 0 \<le> rse_dirty e' \<and> ar_bsp e' = ar_bsp e \<and> ar_rsc e' = ar_rsc e \<and>
     rse_dirty e' + rse_clean e' \<le> rse_dirty e + rse_clean e \<and> (\<forall>i<0. near (i - 96 * int depth) \<longrightarrow> stack e' i = stack e i)"

lemma below_kept_refl: "rse_good e \<Longrightarrow> clean_allowed m e \<Longrightarrow> 0 \<le> rse_dirty e \<Longrightarrow> below_kept m k e e"
  by (simp add: below_kept_def)

lemma below_kept_trans:
  assumes "below_kept m j e e1" "below_kept m k e1 e2"
  shows "below_kept m (j + k) e e2"
proof -
  have "near (i - 96 * int j) \<and> near (i - 96 * int k)" if "i < 0" "near (i - 96 * int (j + k))" for i
    using that by (auto simp: near_def abs_less_iff)
  with assms show ?thesis unfolding below_kept_def by (auto intro: order_trans)
qed

lemma alloc_resized:
  assumes good: "rse_good s" and nd: "rse_gr_dirty s = (0, 0)" and g: "grown m (int sof) s e1" and v: "ia64_cfm_frame_fields_valid sof sol sor"
    and rrb: "sor = cfm_sor s \<or> cfm_rrb_gr s = 0"
  defines "f \<equiv> e1\<lparr>cfm_sof := sof, cfm_sol := sol, cfm_sor := sor\<rparr>"
  defines "e' \<equiv> (if sof > cfm_sof s then ia64_rse_sync_frame_in_range (cfm_sof s) (sof - cfm_sof s) f else f)"
  shows "rse_good e' \<and> (\<forall>i<0. near i \<longrightarrow> stack e' i = stack s i) \<and> clean_allowed m e' \<and> ar_bsp e' = ar_bsp s \<and> ar_rsc e' = ar_rsc s \<and>
    0 \<le> rse_dirty e' \<and> rse_dirty e' + rse_clean e' \<le> rse_dirty s + rse_clean s \<and> cfm_sof e' = sof \<and> cfm_sol e' = sol \<and> cfm_sor e' = sor \<and>
    cfm_rrb_gr e' = cfm_rrb_gr s \<and> ar_pfs e' = ar_pfs s"
proof -
  have inv: "rse_inv s" and fc: "frame_coherent s" using good by (simp_all add: rse_good_def)
  note i = rse_invD [OF inv] and fr = frame_okD [OF rse_invD(1) [OF inv]]
  note gr = g [unfolded grown_def]
  have file1: "rse_file e1 = rse_file s" using gr by blast
  note fl = rse_fileD [OF file1]
  have ff: "rse_bol f = rse_bol s" "cfm_rrb_gr f = cfm_rrb_gr s" "gr f = gr s" "nat_bits f = nat_bits s" "rse_pgr f = rse_pgr s"
    "rse_pgr_nat f = rse_pgr_nat s" "cfm_sof f = sof" "cfm_sor f = sor" by (simp_all add: f_def fl)
  have okf: "frame_ok f"
    using v rrb i(1) fr(4) by (auto simp: frame_ok_def f_def fl split: if_splits)
  have nb: "\<not> bits2_get (0, 0) u" for u by (simp add: bits2_get_def)
  have "frame_in_file s" using fc by (simp add: frame_in_file_def frame_coherent_def nd nb)
  from resized_in_file [OF this i(1) okf ff(1,2) _ ff(3-6)] rrb ff(8) have fif: "frame_in_file e'" unfolding e'_def ff(7) by simp
  have "frame_loaded (cfm_sof s) sof f (ia64_rse_sync_frame_in_range (cfm_sof s) (sof - cfm_sof s) f)" if "sof > cfm_sof s"
    using that sync_frame_in_range [OF okf, of "cfm_sof s" "sof - cfm_sof s"] by (simp add: ff(7))
  then obtain x y z where e': "e' = f\<lparr>gr := x, nat_bits := y, rse_gr_dirty := z\<rparr>"
  proof (cases "sof > cfm_sof s")
    case True
    assume l: "cfm_sof s < sof \<Longrightarrow> frame_loaded (cfm_sof s) sof f (ia64_rse_sync_frame_in_range (cfm_sof s) (sof - cfm_sof s) f)"
    from l [OF True] have "e' = f\<lparr>gr := gr e', nat_bits := nat_bits e', rse_gr_dirty := rse_gr_dirty e'\<rparr>"
      unfolding frame_loaded_def e'_def if_P [OF True] by (rule conjunct1)
    with that show thesis .
  next
    case False
    have "e' = f\<lparr>gr := gr f, nat_bits := nat_bits f, rse_gr_dirty := rse_gr_dirty f\<rparr>" using False by (simp add: e'_def)
    with that show thesis .
  qed
  have h: "rse_pgr e' = rse_pgr s" "mem e' = mem e1" "rse_bol e' = rse_bol s" "ar_bsp e' = ar_bsp s" "ar_rsc e' = ar_rsc s"
    "rse_dirty e' = rse_dirty e1" "rse_dirty_nat e' = rse_dirty_nat e1" "rse_clean e' = rse_clean e1" "rse_clean_nat e' = rse_clean_nat e1"
    "rse_invalid e' = rse_invalid e1" "ar_bspstore e' = ar_bspstore e1" "cfm_sof e' = sof" "cfm_sol e' = sol" "cfm_sor e' = sor"
    "cfm_rrb_gr e' = cfm_rrb_gr s" "ar_pfs e' = ar_pfs s" by (simp_all add: e' f_def fl)
  have ok': "frame_ok e'" using okf by (simp add: frame_ok_def e')
  have "rse_counts e'" using gr unfolding rse_counts_def dirty_words_def live_words_def h fl by simp
  then have "rse_inv e'" unfolding rse_inv_counts h using gr ok' by simp
  moreover have k: "reg_phys e' = reg_phys e1" "stored_value e' = stored_value e1"
    by (rule ext; simp add: reg_phys_def stored_value_def reg_addr_def rse_big_endian_def h fl)+
  have "clean_coherent e'" using gr unfolding clean_coherent_def k h fl by blast
  moreover have fv1: "file_value e1 p = rse_pgr s p" for p by (simp add: file_value_def fl nd nb Let_def)
  have "stack e' j = stack e1 j" for j
    unfolding stack_def k h fv1 using frame_in_fileD(2) [OF fif ok' reg_phys_less] by (simp add: h)
  ultimately show ?thesis using gr frame_in_fileD(1) [OF fif ok'] h by (simp add: rse_good_def clean_allowed_def)
qed

lemma alloc_stack:
  assumes good: "rse_good e" and ca: "clean_allowed m e" and d0: "0 \<le> rse_dirty e" and r1: "r1 < 128"
    and run: "ia64_rse_alloc m r1 pfm fip slot e = Inr (u, e')"
  shows "below_kept m 0 e e' \<and> cfm_sof e' = unat (pfm AND 0x7f) \<and> cfm_sol e' = unat (drop_bit 7 pfm AND 0x7f) \<and>
    cfm_sor e' = unat (drop_bit 14 pfm AND 0xf) \<and> ar_pfs e' = ar_pfs e \<and> (r1 \<noteq> 0 \<longrightarrow> gr e' r1 = ar_pfs e)"
proof -
  define sof sol sor where s: "sof = unat (pfm AND 0x7f)" "sol = unat (drop_bit 7 pfm AND 0x7f)" "sor = unat (drop_bit 14 pfm AND 0xf)"
  define s where "s = ia64_rse_sync_frame_out e"
  have cd: "0 \<le> rse_dirty e \<or> rse_clean e = 0" using d0 by blast
  note so = sync_out_stack [OF good cd, folded s_def]
  obtain x y where xy: "s = e\<lparr>rse_gr_dirty := (0, 0), rse_pgr := x, rse_pgr_nat := y\<rparr>" using so(4) by blast
  have f: "rse_gr_dirty s = (0, 0)" "cfm_sof s = cfm_sof e" "cfm_sor s = cfm_sor e" "cfm_rrb_gr s = cfm_rrb_gr e" "rse_dirty s = rse_dirty e"
    "rse_clean s = rse_clean e" "ar_bsp s = ar_bsp e" "ar_rsc s = ar_rsc e" "clean_allowed m s = clean_allowed m e"
    "ar_pfs s = ar_pfs e" by (simp_all add: xy clean_allowed_def)
  note run' = run [unfolded ia64_rse_alloc_def Let_def, folded s s_def]
  have v: "ia64_cfm_frame_fields_valid sof sol sor" and rrb: "sor = cfm_sor s \<or> cfm_rrb_gr s = 0"
    using run' by (auto simp: ia64_raise_exception_def f split: if_splits)
  from run' obtain u1 e1 where nf: "ia64_rse_new_frame m (int sof - int (cfm_sof s)) s = Inr (u1, e1)"
    by (auto simp: ia64_raise_exception_def run_bind_def f split: if_splits sum.splits)
  define e3 where "e3 = (if sof > cfm_sof s then ia64_rse_sync_frame_in_range (cfm_sof s) (sof - cfm_sof s) (e1\<lparr>cfm_sof := sof, cfm_sol := sol, cfm_sor := sor\<rparr>)
    else e1\<lparr>cfm_sof := sof, cfm_sol := sol, cfm_sor := sor\<rparr>)"
  define e4 where "e4 = ia64_rse_invalidate_stacked_alat e3"
  have "sof \<le> 96" using v by (auto simp: ia64_cfm_frame_fields_valid_def)
  then have "grown m (int sof) s e1" using new_frame_grown [OF so(1) _ _ _ _ nf, of "int sof"] ca d0 by (simp add: f)
  note r = alloc_resized [OF so(1) f(1) this v rrb, folded e3_def]
  note c4 = rse_coreD [OF invalidate_stacked_alat_core [of e3], folded e4_def] core_cong [OF invalidate_stacked_alat_core [of e3], folded e4_def]
  have "clean_allowed m e4 = clean_allowed m e3" by (simp add: clean_allowed_def e4_def ia64_rse_invalidate_stacked_alat_def)
  moreover have "ar_pfs e4 = ar_pfs e3" by (simp add: e4_def ia64_rse_invalidate_stacked_alat_def)
  ultimately have k4: "below_kept m 0 e e4" "0 \<le> rse_dirty e4" "rse_good e4" "cfm_sof e4 = sof" "cfm_sol e4 = sol" "cfm_sor e4 = sor" "ar_pfs e4 = ar_pfs e"
    using r so(2) unfolding below_kept_def c4 f by simp_all
  have e': "e' = (if r1 \<noteq> 0 then write_gr r1 (ar_pfs e4) False e4 else e4)"
    using run' v rrb nf unfolding e4_def e3_def write_gr_def by (auto simp: run_bind_def ia64_raise_exception_def f split: if_splits)
  show ?thesis
  proof (cases "r1 = 0")
    case True
    then show ?thesis using k4 e' by (simp add: s)
  next
    case False
    have e'': "e' = write_gr r1 (ar_pfs e4) False e4" using e' False by simp
    note w = write_gr_good [OF k4(3) r1, where w = "ar_pfs e4" and n = False, folded e'']
    have "clean_allowed m e' = clean_allowed m e4"
      unfolding e'' by (simp add: clean_allowed_def write_gr_def ia64_rse_mark_gr_dirty_def ia64_gr_nat_set_def)
    then show ?thesis using w(1,2) k4 False rse_markerD [OF w(3)] rse_backingD [OF w(4)] unfolding below_kept_def
      by (simp add: s e'' write_gr_def ia64_rse_mark_gr_dirty_def ia64_gr_nat_set_def)
  qed
qed

section \<open>Spilling the dirty partition\<close>

lemma store_one_registers:
  assumes "ia64_rse_store_one m e = Inr (r, e')"
  shows "rse_dirty e' + rse_clean e' \<le> rse_dirty e + rse_clean e"
proof (cases "ia64_rse_collect_bit (ar_bspstore e) = 63")
  case True
  show ?thesis by (rule store_one_collection [OF assms True]) (simp add: referenced_def)
next
  case False
  show ?thesis by (rule store_one_register [OF assms False]) (simp add: referenced_def)
qed

lemma flush_counts:
  assumes "rse_good e" "clean_allowed m e" "0 \<le> dirty_words e" "ia64_rse_flush m e = Inr (u, e')"
  shows "dirty_words e' = 0 \<and> rse_dirty e' + rse_clean e' \<le> rse_dirty e + rse_clean e"
  using assms
proof (induction m e rule: ia64_rse_flush.induct)
  case (1 m e)
  show ?case
  proof (cases "0 < rse_dirty e + rse_dirty_nat e")
    case False
    with 1(5) have "e' = e" by (subst (asm) ia64_rse_flush.simps) simp
    with 1(4) False show ?thesis by (simp add: dirty_words_def)
  next
    case True
    with 1(5) obtain r e1 where st: "ia64_rse_store_one m e = Inr (r, e1)"
      and w: "run_bind (ia64_rse_interrupt_window (m_platform m) e1) (\<lambda>_ e2. ia64_rse_flush m e2) = Inr (u, e')"
      by (subst (asm) ia64_rse_flush.simps) (auto simp: run_bind_Inr)
    from w have f: "ia64_rse_interrupt_window (m_platform m) e1 = Inr ((), e1)" "ia64_rse_flush m e1 = Inr (u, e')"
      by (auto simp: run_bind_Inr dest: interrupt_window_Inr)
    have pos: "0 < dirty_words e" using True by (simp add: dirty_words_def)
    have inv: "rse_inv e" using 1(2) by (simp add: rse_good_def)
    have s: "clean_allowed m e1" "dirty_words e1 = dirty_words e - 1" using store_inv [OF inv 1(3) pos st] by blast+
    have g: "rse_good e1" using store_stack [OF 1(2,3) pos st] by blast
    have "0 \<le> dirty_words e1" using s(2) pos by linarith
    from 1(1) [OF True st f(1) g s(1) this f(2)] store_one_registers [OF st] show ?thesis by linarith
  qed
qed

lemma flush_stack:
  assumes good: "rse_good e" and ca: "clean_allowed m e" and d0: "0 \<le> rse_dirty e" and run: "ia64_rse_flush m e = Inr (u, e')"
  shows "below_kept m 0 e e' \<and> ar_pfs e' = ar_pfs e \<and> dirty_words e' = 0"
proof -
  have inv: "rse_inv e" using good by (simp add: rse_good_def)
  have D: "0 \<le> dirty_words e" using dirty_words_sign(4) [OF inv] d0 by linarith
  note c = flush_counts [OF good ca D run]
  from flush_spills [OF spills_refl [OF good ca] run]
  have s: "rse_good e'" "clean_allowed m e'" "rse_file e' = rse_file e" "\<And>i. near i \<Longrightarrow> stack e' i = stack e i"
    by (simp_all add: spills_def)
  have "rse_inv e'" using s(1) by (simp add: rse_good_def)
  then have "0 \<le> rse_dirty e'" using dirty_words_sign(3) c by simp
  then show ?thesis using s c rse_fileD [OF s(3)] by (simp add: below_kept_def)
qed

end
