(* ===== verification/Rse_Nesting.thy ===== *)
theory Rse_Nesting
  imports Rse_Procedure
begin

text \<open>
  Nested procedures: the relation of the runs a procedure may make between its entry and its return,
  and the theorem that the local registers of a caller survive every such run.
\<close>

section \<open>The frame marker in \<open>AR.PFS\<close>\<close>

lemma bit_small: "x < 2 ^ k \<Longrightarrow> k \<le> n \<Longrightarrow> \<not> bit (x :: nat) n"
  using bit_take_bit_iff [of k x n] by (simp add: take_bit_nat_eq_self)

lemma cfm_field_eq:
  assumes v: "v < 2 ^ w" and w: "w \<le> 7" and x: "\<And>n. n < w \<Longrightarrow> bit x (pos + n) \<longleftrightarrow> bit v n"
  shows "cfm_field pos w x = v"
proof -
  have "bit v n \<Longrightarrow> n < w" for n using bit_small [OF v, of n] by (meson not_less)
  then have "take_bit w (drop_bit pos x) = of_nat v"
    using w x by (intro bit_word_eqI) (auto simp: bit_simps)
  moreover have "v < 2 ^ 64" using less_le_trans [OF v power_increasing [of w 64 2]] w by simp
  ultimately show ?thesis by (simp add: cfm_field_def unsigned_of_nat take_bit_nat_eq_self)
qed

lemma cfm_field_cfm:
  assumes "frame_ok e" and y: "\<And>n. n < 25 \<Longrightarrow> \<not> bit y n"
  shows "cfm_field 0 7 (ia64_rse_current_cfm e OR y) = cfm_sof e" "cfm_field 7 7 (ia64_rse_current_cfm e OR y) = cfm_sol e"
    "cfm_field 14 4 (ia64_rse_current_cfm e OR y) = cfm_sor e" "cfm_field 18 7 (ia64_rse_current_cfm e OR y) = cfm_rrb_gr e"
proof -
  note fr = frame_okD [OF assms(1)]
  have b: "cfm_sof e < 2 ^ 7" "cfm_sol e < 2 ^ 7" "cfm_sor e < 2 ^ 4" "cfm_rrb_gr e < 2 ^ 7" using fr(1-3,6) by auto
  note k = bit_small [OF b(1)] bit_small [OF b(2)] bit_small [OF b(3)] bit_small [OF b(4)]
  note d = ia64_rse_current_cfm_def bit_or_iff bit_and_iff bit_push_bit_iff bit_of_nat_iff y
  show "cfm_field 0 7 (ia64_rse_current_cfm e OR y) = cfm_sof e" by (rule cfm_field_eq) (use b in \<open>auto simp: d\<close>)
  show "cfm_field 7 7 (ia64_rse_current_cfm e OR y) = cfm_sol e" by (rule cfm_field_eq) (use b in \<open>auto simp: d k\<close>)
  show "cfm_field 14 4 (ia64_rse_current_cfm e OR y) = cfm_sor e" by (rule cfm_field_eq) (use b in \<open>auto simp: d k\<close>)
  show "cfm_field 18 7 (ia64_rse_current_cfm e OR y) = cfm_rrb_gr e" by (rule cfm_field_eq) (use b in \<open>auto simp: d k\<close>)
qed

lemma cfm_field_pfs:
  assumes "frame_ok e"
  shows "cfm_field 0 7 (ia64_rse_current_pfs e) = cfm_sof e" "cfm_field 7 7 (ia64_rse_current_pfs e) = cfm_sol e"
    "cfm_field 14 4 (ia64_rse_current_pfs e) = cfm_sor e" "cfm_field 18 7 (ia64_rse_current_pfs e) = cfm_rrb_gr e"
proof -
  let ?y = "push_bit 52 (ar_ec e AND 0x3f) OR push_bit 62 (of_nat (ia64_psr_cpl (psr e))) :: u64"
  have p: "ia64_rse_current_pfs e = ia64_rse_current_cfm e OR ?y" by (simp only: ia64_rse_current_pfs_def or.assoc)
  have "\<not> bit ?y n" if "n < 25" for n using that by (simp add: bit_or_iff bit_and_iff bit_push_bit_iff)
  from cfm_field_cfm [OF assms this]
  show "cfm_field 0 7 (ia64_rse_current_pfs e) = cfm_sof e" "cfm_field 7 7 (ia64_rse_current_pfs e) = cfm_sol e"
    "cfm_field 14 4 (ia64_rse_current_pfs e) = cfm_sor e" "cfm_field 18 7 (ia64_rse_current_pfs e) = cfm_rrb_gr e"
    unfolding p by blast+
qed

lemma cfm_field_masked: "pos + w \<le> 38 \<Longrightarrow> cfm_field pos w (x AND 0x3fffffffff) = cfm_field pos w x"
proof -
  assume p: "pos + w \<le> 38"
  have m: "(0x3fffffffff :: u64) = mask 38" by (simp add: mask_eq_exp_minus_1)
  have "take_bit w (drop_bit pos (x AND 0x3fffffffff)) = take_bit w (drop_bit pos x)"
    unfolding m using p by (intro bit_word_eqI) (auto simp: bit_take_bit_iff bit_drop_bit_eq bit_and_iff bit_mask_iff)
  then show ?thesis by (simp add: cfm_field_def)
qed

lemma pfm_ok_fields:
  assumes "frame_ok e" "cfm_field 0 7 x = cfm_sof e" "cfm_field 7 7 x = cfm_sol e" "cfm_field 14 4 x = cfm_sor e" "cfm_field 18 7 x = cfm_rrb_gr e"
  shows "pfm_ok (x AND 0x3fffffffff)"
  using assms by (auto simp: pfm_ok_def cfm_field_masked frame_ok_def split: if_splits)

section \<open>Returns\<close>

lemma clean_allowed_core: "rse_core e' = rse_core e \<Longrightarrow> clean_allowed m e' = clean_allowed m e"
  by (simp add: clean_allowed_def rse_core_def)

lemma dirty_words_core: "rse_core e' = rse_core e \<Longrightarrow> dirty_words e' = dirty_words e"
  by (simp add: dirty_words_def rse_core_def)

lemma reg_addr_core: "rse_core e' = rse_core e \<Longrightarrow> reg_addr e' = reg_addr e"
  by (rule ext) (simp add: reg_addr_def rse_core_def)

lemma returned_core:
  assumes "rse_core x = rse_core e" "rse_core y = rse_core e'" "returned m pfm p x e'"
  shows "returned m pfm p e y"
  using assms(3) rse_coreD [OF assms(1)] rse_coreD [OF assms(2)] core_cong(1,2) [OF assms(1)] core_cong(1,2) [OF assms(2)]
    clean_allowed_core [OF assms(2)] dirty_words_core [OF assms(2)] reg_addr_core [OF assms(1)]
  unfolding returned_def by simp

lemma xor_cleared: "(x XOR (x AND NOT (x AND y))) AND z = x AND (y AND z)" for x y z :: u64
  by (rule bit_word_eqI) (auto simp: bit_simps)

lemma xor_inserted:
  fixes x y z w :: u64
  assumes "y AND z = 0" "w AND z = 0"
  shows "(x XOR ((x AND NOT y) OR w)) AND z = 0"
proof (rule bit_word_eqI)
  fix n assume "n < LENGTH(64)"
  moreover have "\<not> (bit y n \<and> bit z n)" "\<not> (bit w n \<and> bit z n)"
    using arg_cong [OF assms(1), of "\<lambda>t. bit t n"] arg_cong [OF assms(2), of "\<lambda>t. bit t n"] by (simp_all add: bit_and_iff)
  ultimately show "bit ((x XOR ((x AND NOT y) OR w)) AND z) n = bit (0 :: u64) n" by (auto simp: bit_simps)
qed

lemma clear_suppression_core: "rse_core (ia64_system_clear_psr_fault_suppression e) = rse_core e"
proof -
  let ?o = "psr_suppression_before_insn (exception_st e) AND IA64_PSR_FAULT_SUPPRESS_MASK"
  have "?o AND IA64_PSR_BN = 0" by (simp add: and.assoc)
  then have "rse_core (ia64_set_psr (psr e AND NOT (psr e AND ?o)) e) = rse_core e" by (intro set_psr_core) (simp only: xor_cleared and_zero_eq)
  then show ?thesis unfolding ia64_system_clear_psr_fault_suppression_def Let_def by (simp add: rse_core_def)
qed

lemma pending_trap_core:
  assumes "ia64_rse_complete_pending_trap m e = Inr (u, e')"
  shows "rse_core e' = rse_core e"
proof (cases "rse_completion_pending e")
  case True
  define e1 where "e1 = e\<lparr>rse_completion_pending := False, exception_st := (exception_st e)\<lparr>psr_suppression_before_insn :=
                     rse_completion_psr e AND IA64_PSR_FAULT_SUPPRESS_MASK\<rparr>\<rparr>"
  have "e' = ia64_system_clear_psr_fault_suppression e1"
    using assms True unfolding ia64_rse_complete_pending_trap_def ia64_check_native_traps_def Let_def e1_def [symmetric]
    by (simp add: ia64_raise_exception_def split: if_splits)
  then show ?thesis by (simp add: clear_suppression_core) (simp add: e1_def rse_core_def)
qed (use assms in \<open>simp add: ia64_rse_complete_pending_trap_def\<close>)

lemma br_ret_stack:
  assumes good: "rse_good e" and ca: "clean_allowed m e" and d0: "0 \<le> rse_dirty e" and ok: "pfm_ok (ar_pfs e AND 0x3fffffffff)"
    and p: "cfm_field 7 7 (ar_pfs e) \<le> cfm_field 0 7 (ar_pfs e)"
    and fits: "int (cfm_field 0 7 (ar_pfs e)) - int (cfm_field 7 7 (ar_pfs e)) - int (cfm_sof e) \<le> rse_invalid e"
    and run: "ia64_rse_br_ret m b sip slot e = Inr (u, e')"
  shows "returned m (ar_pfs e AND 0x3fffffffff) (cfm_field 7 7 (ar_pfs e)) e e'"
proof -
  let ?pfs = "ar_pfs e" and ?dem = "ia64_psr_cpl (psr e) < unat (drop_bit 62 (ar_pfs e))"
  define e1 where "e1 = e\<lparr>ip := ia64_ip_bundle_addr (br e b), psr := psr e AND NOT IA64_PSR_RI_MASK\<rparr>"
  define e2 where "e2 = (if ?dem then ia64_set_psr ((psr e1 AND NOT IA64_PSR_CPL_MASK) OR push_bit 32 (of_nat (unat (drop_bit 62 ?pfs)))) e1 else e1)"
  define e3 where "e3 = e2\<lparr>rse_completion_pending := True, rse_completion_demoted := ?dem, rse_completion_psr := psr e,
                  rse_completion_source_ip := ia64_ip_bundle_addr sip, rse_completion_source_slot := slot mod 4\<rparr>"
  define e4 where "e4 = (if rse_completion_psr e3 AND IA64_PSR_IC \<noteq> 0 then e3\<lparr>last_successful_bundle := rse_completion_source_ip e3\<rparr> else e3)"
  define f where "f = e4\<lparr>ar_ec := drop_bit 52 ?pfs AND 0x3f\<rparr>"
  have bn: "IA64_PSR_BN = 2 ^ 44" by simp
  have "push_bit 32 (drop_bit 62 ?pfs) AND IA64_PSR_BN = 0"
    unfolding bn and_exp_eq_0_iff_not_bit using bit_u64_less [of ?pfs 74] by (auto simp: bit_push_bit_iff bit_drop_bit_eq)
  then have "push_bit 32 (of_nat (unat (drop_bit 62 ?pfs))) AND IA64_PSR_BN = 0" by simp
  from xor_inserted [OF _ this, of IA64_PSR_CPL_MASK "psr e1"]
  have "(psr e1 XOR ((psr e1 AND NOT IA64_PSR_CPL_MASK) OR push_bit 32 (of_nat (unat (drop_bit 62 ?pfs))))) AND IA64_PSR_BN = 0" by simp
  from set_psr_core [OF this] have "rse_core e2 = rse_core e1" unfolding e2_def by (cases ?dem) (simp_all only: if_True if_False)
  then have f: "rse_core f = rse_core e" by (simp add: f_def e4_def e3_def e1_def rse_core_def)
  have "run_bind (ia64_rse_return_to_frame m (?pfs AND 0x3fffffffff) (cfm_field 7 7 ?pfs) f) (\<lambda>_ e5. ia64_rse_complete_pending_trap m e5) = Inr (u, e')"
    using run unfolding ia64_rse_br_ret_def ia64_rse_pop_return_frame_def Let_def e1_def [symmetric] e2_def [symmetric] e3_def [symmetric]
      e4_def [symmetric] f_def [symmetric] .
  then obtain g where g: "ia64_rse_return_to_frame m (?pfs AND 0x3fffffffff) (cfm_field 7 7 ?pfs) f = Inr ((), g)"
    and t: "ia64_rse_complete_pending_trap m g = Inr (u, e')" by (auto simp: run_bind_Inr)
  note fc = rse_coreD [OF f]
  have "rse_inv e" using good by (simp add: rse_good_def)
  then have D: "0 \<le> dirty_words e" using dirty_words_sign(4) d0 by fastforce
  have "returned m (ar_pfs e AND 0x3fffffffff) (cfm_field 7 7 (ar_pfs e)) f g"
    by (rule return_stack [OF _ _ _ ok _ _ g])
      (use good ca D p fits in \<open>simp_all add: core_cong(1) [OF f] clean_allowed_core [OF f] dirty_words_core [OF f] fc cfm_field_masked\<close>)
  then show ?thesis by (rule returned_core [OF f pending_trap_core [OF t]])
qed

section \<open>Runs of a procedure\<close>

text \<open>What neither a PSR write nor a delivery touches.\<close>

definition untouched where
  "untouched e = ((pr e, br e, fp e, mem e, rnat e), (ar_rsc e, ar_bsp e, ar_bspstore e, ar_pfs e, ar_lc e, ar_ec e),
     (cfm_sof e, cfm_sol e, cfm_sor e, cfm_rrb_gr e, cfm_rrb_fr e, cfm_rrb_pr e), (rse_pgr e, rse_pgr_nat e, rse_gr_dirty e, rse_bol e),
     (rse_dirty e, rse_dirty_nat e, rse_clean e, rse_clean_nat e, rse_invalid e, rse_completion_pending e))"

definition saved_context where
  "saved_context e = (cr e, cr_ipsr e, cr_iip e, cr_ifs e)"

lemma swap_banked_keeps:
  "untouched (ia64_swap_banked_gr e) = untouched e" "saved_context (ia64_swap_banked_gr e) = saved_context e"
proof -
  obtain x1 x2 x3 x4 where "ia64_swap_banked_gr e = e\<lparr>gr := x1, nat_bits := x2, banked_gr := x3, banked_nat := x4\<rparr>"
    using swap_banked_gr(5) [of e] by blast
  then show "untouched (ia64_swap_banked_gr e) = untouched e" "saved_context (ia64_swap_banked_gr e) = saved_context e"
    by (simp_all add: untouched_def saved_context_def)
qed

lemma untouched_update:
  "untouched (e\<lparr>exception_st := x\<rparr>) = untouched e" "untouched (e\<lparr>psr := p\<rparr>) = untouched e" "untouched (e\<lparr>ip := a\<rparr>) = untouched e"
  "untouched (ia64_sapic_update_interrupt e) = untouched e"
  "saved_context (e\<lparr>exception_st := x\<rparr>) = saved_context e" "saved_context (e\<lparr>psr := p\<rparr>) = saved_context e"
  "saved_context (ia64_sapic_update_interrupt e) = saved_context e"
  by (simp_all add: untouched_def saved_context_def ia64_sapic_update_interrupt_def)

lemma set_psr_untouched: "untouched (ia64_set_psr v e) = untouched e" "saved_context (ia64_set_psr v e) = saved_context e"
  unfolding ia64_set_psr_def Let_def
  by (simp_all only: untouched_update swap_banked_keeps if_distrib [of untouched] if_distrib [of saved_context] if_cancel cong: if_cong)

text \<open>A PSR write may exchange r16 to r31, never a stacked register.\<close>

lemma set_psr_good:
  assumes good: "rse_good e"
  shows "rse_good (ia64_set_psr v e)" "rse_backing (ia64_set_psr v e) = rse_backing e" "i < 0 \<Longrightarrow> stack (ia64_set_psr v e) i = stack e i"
    "cfm_sol (ia64_set_psr v e) = cfm_sol e" "cfm_sor (ia64_set_psr v e) = cfm_sor e" "cfm_rrb_gr (ia64_set_psr v e) = cfm_rrb_gr e"
proof -
  let ?e = "ia64_set_psr v e"
  have u: "untouched ?e = untouched e" by (rule set_psr_untouched)
  show b: "rse_backing ?e = rse_backing e" "cfm_sol ?e = cfm_sol e" "cfm_sor ?e = cfm_sor e" "cfm_rrb_gr ?e = cfm_rrb_gr e"
    using u by (simp_all add: untouched_def rse_backing_def)
  have ok: "frame_ok e" and fc: "frame_coherent e" using good by (simp_all add: rse_good_def rse_inv_def)
  have g: "gr ?e (32 + u) = gr e (32 + u)" "u < 96 \<Longrightarrow> bits2_get (nat_bits ?e) (32 + u) = bits2_get (nat_bits e) (32 + u)" for u
    using set_psr_bank_regs [of v e] by (simp_all add: bank_regs_def swap_banked_gr(1,2) split: if_splits)
  have f: "cfm_sof ?e = cfm_sof e" "rse_gr_dirty ?e = rse_gr_dirty e" "rse_pgr ?e = rse_pgr e" "rse_pgr_nat ?e = rse_pgr_nat e" "rse_bol ?e = rse_bol e"
    using u by (simp_all add: untouched_def)
  have v: "ia64_rse_virt_to_phys ?e = ia64_rse_virt_to_phys e" by (rule ext, rule virt_to_phys_frame_cong) (simp_all add: f b)
  have "frame_ok ?e" using ok by (simp add: frame_ok_def f b)
  moreover have "frame_coherent ?e"
    using fc frame_okD(1) [OF ok] by (auto simp: frame_coherent_def f v g)
  ultimately show "rse_good ?e" "i < 0 \<Longrightarrow> stack ?e i = stack e i" using frame_rewritten [OF good b(1)] by blast+
qed

text \<open>
  The runs a procedure may make between its entry and its return, with the number of calls they
  complete: frames of any size, register writes, software-pipelined loops, \<^verbatim>\<open>flushrs\<close>, PSR writes, any
  instruction that leaves the register stack alone, and nested calls whose body restores
  \<^verbatim>\<open>AR.PFS\<close> before it returns.
\<close>

inductive procedure_run :: "machine \<Rightarrow> nat \<Rightarrow> env \<Rightarrow> env \<Rightarrow> bool" for m where
  enter: "procedure_run m 0 e e"
| allocate: "procedure_run m k e f \<Longrightarrow> r1 < 128 \<Longrightarrow> ia64_rse_alloc m r1 pfm fip slot f = Inr ((), g) \<Longrightarrow> procedure_run m k e g"
| flush: "procedure_run m k e f \<Longrightarrow> ia64_rse_flush m f = Inr ((), g) \<Longrightarrow> procedure_run m k e g"
| register_write: "procedure_run m k e f \<Longrightarrow> r < 128 \<Longrightarrow> procedure_run m k e (write_gr r w n f)"
| counted_loop: "procedure_run m k e f \<Longrightarrow> procedure_run m k e (snd (ia64_rse_br_ctop f))"
| while_loop: "procedure_run m k e f \<Longrightarrow> procedure_run m k e (snd (ia64_rse_br_wtop qp f))"
| psr_write: "procedure_run m k e f \<Longrightarrow> procedure_run m k e (ia64_set_psr v f)"
| other: "procedure_run m k e f \<Longrightarrow> rse_core g = rse_core f \<Longrightarrow> procedure_run m k e g"
| call: "procedure_run m j e f \<Longrightarrow> procedure_run m k (ia64_rse_br_call b next_ip target f) g \<Longrightarrow>
    ar_pfs g = ia64_rse_current_pfs f \<Longrightarrow> ia64_rse_br_ret m b' sip slot g = Inr ((), h) \<Longrightarrow> procedure_run m (Suc (j + k)) e h"

lemma below_kept_core:
  assumes "rse_good e" "clean_allowed m e" "0 \<le> rse_dirty e" "rse_core g = rse_core e"
  shows "below_kept m k e g"
  using assms rse_coreD [OF assms(4)] core_cong(1,2) [OF assms(4)] clean_allowed_core [OF assms(4)] by (simp add: below_kept_def)

lemma below_kept_backing:
  assumes "clean_allowed m e" "0 \<le> rse_dirty e" "rse_good g" "rse_backing g = rse_backing e" "\<And>i. i < 0 \<Longrightarrow> stack g i = stack e i"
  shows "below_kept m k e g"
  using assms rse_backingD [OF assms(4)] by (simp add: below_kept_def clean_allowed_def)

lemma rotation_kept:
  assumes good: "rse_good e" and ca: "clean_allowed m e" and d0: "0 \<le> rse_dirty e" and f: "rse_core f = rse_core e"
  shows "below_kept m 0 e (ia64_rotate_loop_regs f)"
proof -
  note k = below_kept_core [OF good ca d0 f, of 0] 
  have g: "rse_good f" "clean_allowed m f" "0 \<le> rse_dirty f" using k by (simp_all add: below_kept_def)
  have "below_kept m 0 f (ia64_rotate_loop_regs f)"
    by (rule below_kept_backing [OF g(2,3) rotate_loop_good(1) [OF g(1)] rotate_loop_backing(1) rotate_loop_good(2) [OF g(1)]])
  from below_kept_trans [OF k this] show ?thesis by simp
qed

lemma loop_branch_kept:
  assumes "rse_good e" "clean_allowed m e" "0 \<le> rse_dirty e"
  shows "below_kept m 0 e (snd (ia64_rse_br_ctop e))" "below_kept m 0 e (snd (ia64_rse_br_wtop qp e))"
proof -
  have c: "rse_core (e\<lparr>ar_lc := l, pr := q\<rparr>) = rse_core e" "rse_core (e\<lparr>ar_ec := c, pr := q\<rparr>) = rse_core e" "rse_core (e\<lparr>pr := q\<rparr>) = rse_core e" for l c q
    by (simp_all add: rse_core_def)
  note r = rotation_kept [OF assms c(1)] rotation_kept [OF assms c(2)] rotation_kept [OF assms c(3)] below_kept_core [OF assms c(3)]
  show "below_kept m 0 e (snd (ia64_rse_br_ctop e))" unfolding ia64_rse_br_ctop_def Let_def snd_conv by (simp add: r)
  show "below_kept m 0 e (snd (ia64_rse_br_wtop qp e))"
    unfolding ia64_rse_br_wtop_def ia64_update_while_loop_def Let_def snd_conv by (simp add: r)
qed

text \<open>A call, whatever its body does within these rules, and the return from it.\<close>

definition call_returned :: "machine \<Rightarrow> nat \<Rightarrow> env \<Rightarrow> env \<Rightarrow> bool" where
  "call_returned m k e h \<longleftrightarrow> rse_good h \<and> clean_allowed m h \<and> 0 \<le> rse_dirty h \<and> ar_bsp h = ar_bsp e \<and> ar_rsc h = ar_rsc e \<and>
     cfm_sof h = cfm_sof e \<and> cfm_sol h = cfm_sol e \<and> cfm_sor h = cfm_sor e \<and> cfm_rrb_gr h = cfm_rrb_gr e \<and>
     rse_dirty h + rse_clean h \<le> rse_dirty e + rse_clean e \<and>
     (\<forall>i<int (cfm_sol e). near (i - 96 * int (Suc k)) \<longrightarrow> stack h i = stack e i)"

lemma call_body_returned:
  assumes good: "rse_good e" and ca: "clean_allowed m e" and d0: "0 \<le> rse_dirty e"
    and body: "below_kept m k (ia64_rse_br_call b next_ip target e) g" and pfs: "ar_pfs g = ia64_rse_current_pfs e"
    and ret: "ia64_rse_br_ret m b' sip slot g = Inr (u, h)"
  shows "call_returned m k e h"
proof -
  have inv: "rse_inv e" using good by (simp add: rse_good_def)
  note i = rse_invD [OF inv] and fr = frame_okD [OF rse_invD(1) [OF inv]] and cf = cfm_field_pfs [OF rse_invD(1) [OF inv]]
  let ?c = "ia64_rse_br_call b next_ip target e" and ?p = "cfm_sol e"
  have "0 \<le> rse_dirty e \<or> rse_clean e = 0" using d0 by blast
  note pu = br_call_stack(1) [OF good this, of b next_ip target, unfolded pushed_def]
  note bk = body [unfolded below_kept_def]
  have invg: "rse_inv g" using bk by (simp add: rse_good_def)
  have "rse_invalid g = 96 - (int (cfm_sof g) + rse_dirty g + rse_clean g)" "0 \<le> rse_invalid e"
    "rse_invalid e = 96 - (int (cfm_sof e) + rse_dirty e + rse_clean e)" "0 \<le> rse_clean e" using rse_invD [OF invg] i by linarith+
  moreover have "rse_dirty g + rse_clean g \<le> rse_dirty e + int ?p + rse_clean e" using bk pu by linarith
  ultimately have fits: "int (cfm_sof e) - int ?p - int (cfm_sof g) \<le> rse_invalid g"
    and le: "max 0 (rse_dirty g + rse_clean g - int ?p) \<le> rse_dirty e + rse_clean e" using d0 by linarith+
  have r: "returned m (ia64_rse_current_pfs e AND 0x3fffffffff) ?p g h"
    using br_ret_stack [OF _ _ _ _ _ _ ret] bk fits fr(2) pfm_ok_fields [OF i(1) cf] by (simp add: pfs cf)
  note rd = r [unfolded returned_def cfm_field_masked [of 0 7, simplified] cfm_field_masked [of 7 7, simplified]
      cfm_field_masked [of 14 4, simplified] cfm_field_masked [of 18 7, simplified] cf]
  have invh: "rse_inv h" using rd by (simp add: rse_good_def)
  have "ar_bsp g = reg_addr e (int ?p)" using bk pu by simp
  from rebased_addr(1) [OF this, of "- int ?p"] have bsp: "ar_bsp h = ar_bsp e" using rd i(2) by (simp add: reg_addr_def reg_slot_def)
  have "stack h j = stack e j" if j: "j < int ?p" "near (j - 96 * int (Suc k))" for j
  proof -
    have "near (j - int ?p - 96 * int k)" using j fr(1,2) by (auto simp: near_def abs_less_iff)
    then have "stack g (j - int ?p) = stack ?c (j - int ?p)" using bk j(1) by simp
    then show ?thesis using rd pu j(1) fr(2) by simp
  qed
  moreover have "rse_dirty h + rse_clean h \<le> rse_dirty e + rse_clean e" using rd le by linarith
  ultimately show ?thesis using rd bsp dirty_words_sign(3) [OF invh] bk pu unfolding call_returned_def by simp
qed

lemma call_returned_kept: "call_returned m k e h \<Longrightarrow> below_kept m (Suc k) e h"
  by (simp add: call_returned_def below_kept_def)

lemma run_kept:
  assumes "procedure_run m k e f" "rse_good e" "clean_allowed m e" "0 \<le> rse_dirty e"
  shows "below_kept m k e f"
  using assms
proof (induction rule: procedure_run.induct)
  case (enter e)
  then show ?case by (rule below_kept_refl)
next
  case (allocate k e f r1 pfm fip slot g)
  then have k: "below_kept m k e f" by blast
  then have "below_kept m 0 f g" using alloc_stack [OF _ _ _ allocate(2,3)] by (simp add: below_kept_def [of m k])
  from below_kept_trans [OF k this] show ?case by simp
next
  case (flush k e f g)
  then have k: "below_kept m k e f" by blast
  then have "below_kept m 0 f g" using flush_stack [OF _ _ _ flush(2)] by (simp add: below_kept_def [of m k])
  from below_kept_trans [OF k this] show ?case by simp
next
  case (register_write k e f r w n)
  then have k: "below_kept m k e f" by blast
  then have f: "rse_good f" "clean_allowed m f" "0 \<le> rse_dirty f" by (simp_all add: below_kept_def)
  note wg = write_gr_good [OF f(1) register_write(2)]
  have "below_kept m 0 f (write_gr r w n f)" by (rule below_kept_backing [OF f(2,3) wg(1,4) wg(2)])
  from below_kept_trans [OF k this] show ?case by simp
next
  case (counted_loop k e f)
  then have k: "below_kept m k e f" by blast
  then have "below_kept m 0 f (snd (ia64_rse_br_ctop f))" by (intro loop_branch_kept(1)) (simp_all add: below_kept_def)
  from below_kept_trans [OF k this] show ?case by simp
next
  case (while_loop k e f qp)
  then have k: "below_kept m k e f" by blast
  then have "below_kept m 0 f (snd (ia64_rse_br_wtop qp f))" by (intro loop_branch_kept(2)) (simp_all add: below_kept_def)
  from below_kept_trans [OF k this] show ?case by simp
next
  case (psr_write k e f v)
  then have k: "below_kept m k e f" by blast
  then have f: "rse_good f" "clean_allowed m f" "0 \<le> rse_dirty f" by (simp_all add: below_kept_def)
  note sp = set_psr_good [OF f(1)]
  have "below_kept m 0 f (ia64_set_psr v f)" by (rule below_kept_backing [OF f(2,3) sp(1,2) sp(3)])
  from below_kept_trans [OF k this] show ?case by simp
next
  case (other k e f g)
  then have k: "below_kept m k e f" by blast
  then have "below_kept m 0 f g" by (intro below_kept_core other(2)) (simp_all add: below_kept_def)
  from below_kept_trans [OF k this] show ?case by simp
next
  case (call j e f k b next_ip target g b' sip slot h)
  then have bf: "below_kept m j e f" by blast
  then have f: "rse_good f" "clean_allowed m f" "0 \<le> rse_dirty f" by (simp_all add: below_kept_def)
  have "0 \<le> rse_dirty f \<or> rse_clean f = 0" using f(3) by blast
  note pu = br_call_stack(1) [OF f(1) this, of b next_ip target, unfolded pushed_def]
  have "below_kept m k (ia64_rse_br_call b next_ip target f) g"
    by (rule call.IH(2)) (use pu f in \<open>simp_all add: clean_allowed_def\<close>)
  from call_returned_kept [OF call_body_returned [OF f this call.hyps(3,4)]] below_kept_trans [OF bf, of "Suc k" h]
  show ?case by simp
qed

lemma stack_register:
  assumes good: "rse_good e" and d0: "0 \<le> rse_dirty e" and v: "v < cfm_sof e"
  defines "i \<equiv> int (rot_index (8 * cfm_sor e) (cfm_rrb_gr e) v)"
  shows "stack e i = gr e (32 + v)"
proof -
  have inv: "rse_inv e" and fc: "frame_coherent e" using good by (simp_all add: rse_good_def)
  note n = rse_invD [OF inv] and fr = frame_okD [OF rse_invD(1) [OF inv]]
  have v96: "v < 96" using v fr(1) by simp
  have "0 < 8 * cfm_sor e \<or> cfm_rrb_gr e = 0" using fr(6) by auto
  then have i: "0 \<le> i" "i < int (cfm_sof e)" using rot_index_bounds(2) [OF _ fr(3) v] by (simp_all add: i_def)
  have "int (reg_phys e i) = int (ia64_rse_virt_to_phys e v)"
    unfolding reg_phys_eq virt_to_phys_alt [OF n(1) v96] i_def by (simp add: zmod_int)
  then have "ia64_rse_phys_to_virt e (reg_phys e i) = v" using virt_phys_inverse [OF n(1) v96] by simp
  then show ?thesis using file_value_frame [OF n(1) fc i] i d0 n(4) by (simp add: stack_def)
qed

lemma call_registers:
  assumes e: "rse_good e" "0 \<le> rse_dirty e" and r: "call_returned m k e h" and k: "k < 2 ^ 52" and v: "v < cfm_sof e"
    and l: "rot_index (8 * cfm_sor e) (cfm_rrb_gr e) v < cfm_sol e"
  shows "gr h (32 + v) = gr e (32 + v)"
proof -
  let ?i = "int (rot_index (8 * cfm_sor e) (cfm_rrb_gr e) v)"
  have h: "rse_good h" "0 \<le> rse_dirty h" "v < cfm_sof h" using r v by (simp_all add: call_returned_def)
  have "cfm_sol e \<le> 96" using e(1) frame_okD(1,2) [of e] by (auto simp: rse_good_def rse_inv_def)
  then have "near (?i - 96 * int (Suc k))" using l k by (auto simp: near_def abs_less_iff)
  then have "stack h ?i = stack e ?i" using r l by (simp add: call_returned_def)
  with stack_register [OF h] stack_register [OF e v] r show ?thesis by (simp add: call_returned_def)
qed

section \<open>Stores that complete\<close>

text \<open>A machine on which no reference of the register stack engine faults, and a CPU between two stores.\<close>

definition no_faults :: "machine \<Rightarrow> bool" where
  "no_faults m \<longleftrightarrow> (\<forall>is_write addr e. data_debug m is_write addr e = None \<and> access_fault m is_write addr e = None)"

definition store_idle :: "env \<Rightarrow> bool" where
  "store_idle e \<longleftrightarrow> \<not> write_active (alat_st e) \<and> \<not> bit (alat_write_sequence e) 0 \<and> \<not> interrupt_hard e"

lemma write_finish_returns:
  assumes "write_active s" "write_observed s" "bit q 0"
  shows "\<exists>t. ia64_alat_write_end xl w g a sz (s, q) = Some (t, q + 1) \<and> \<not> write_active t"
proof -
  let ?t = "s\<lparr>write_active := False, write_observed := False\<rparr>"
  have "ia64_alat_write_take_token (s, q) = Some (True, ?t, q + 1)"
    using assms by (simp add: ia64_alat_write_take_token_def and_one_0_iff)
  moreover have "same_token ?t (ia64_alat_invala (w_fresh w) ?t)"
    "same_token (?t\<lparr>memory_write_generation := n\<rparr>) (ia64_invalidate_alat_store xl g a sz (?t\<lparr>memory_write_generation := n\<rparr>))" for n by simp_all
  ultimately show ?thesis
    unfolding ia64_alat_write_end_def ia64_alat_write_finish_def Let_def by (simp add: same_token_def)
qed

lemma exec_store_returns:
  assumes m: "no_faults m" and id: "store_idle e"
  shows "\<exists>e'. ia64_exec_store_mmuidx m a v be e = Inr ((), e') \<and> store_idle e'"
proof (cases "alat_full (alat_st e)")
  case False
  then show ?thesis using m id by (simp add: ia64_exec_store_mmuidx_def no_faults_def Let_def store_idle_def)
next
  case True
  have e: "\<not> write_active (alat_st e)" "\<not> bit (alat_write_sequence e) 0" "\<not> interrupt_hard e" using id by (simp_all add: store_idle_def)
  let ?s = "(alat_st e)\<lparr>write_generation := memory_write_generation (alat_st e), write_observed := True, write_active := True\<rparr>"
  let ?e = "e\<lparr>alat_st := ?s, alat_write_sequence := alat_write_sequence e + 1\<rparr>"
  let ?f = "?e\<lparr>mem := (mem e)(a := rse_order be v)\<rparr>"
  have q: "\<not> bit (alat_write_sequence e + 1 + 1) 0" using e(2) unfolding bit_0_succ by simp
  have b: "alat_begin e = Inr ((), ?e)"
    using True e by (simp add: alat_begin_def ia64_alat_write_begin_def and_one_0_iff)
  obtain t where t: "ia64_alat_write_end (alat_xlat m ?f) (alat_window m ?f) (alat_gen m ?f) a 8 (?s, alat_write_sequence e + 1) =
      Some (t, alat_write_sequence e + 1 + 1)" "\<not> write_active t"
    using write_finish_returns [of ?s "alat_write_sequence e + 1" "alat_xlat m ?f" "alat_window m ?f" "alat_gen m ?f" a 8] e(2)
    by (auto simp: bit_0_succ)
  have "ia64_exec_store_mmuidx m a v be e = alat_end m a 8 ?f"
    using True m by (simp add: ia64_exec_store_mmuidx_def b Let_def run_bind_def no_faults_def)
  also have "\<dots> = Inr ((), ?f\<lparr>alat_st := t, alat_write_sequence := alat_write_sequence e + 1 + 1\<rparr>)"
    unfolding alat_end_def using t(1) by simp
  finally show ?thesis using t(2) q e(3) by (simp add: store_idle_def)
qed

lemma next_word_aligned: "(a + 8) AND 7 = a AND 7" for a :: u64
proof -
  have m: "(7 :: u64) = mask 3" by (simp add: mask_eq_exp_minus_1)
  have u: "uint (x AND 7) = uint x mod 8" for x :: u64
    unfolding m take_bit_eq_mask [symmetric] by (simp add: take_bit_eq_mod uint_mod_distrib)
  have "uint (a + 8) mod 8 = (uint a + 8) mod 8" by (simp add: uint_word_ariths mod_mod_cancel)
  then show ?thesis by (intro word_uint_eqI) (simp only: u, simp)
qed

lemma store_idle_frame [simp]:
  "store_idle (ia64_rse_access_begin e) = store_idle e"
  "store_idle (ia64_rse_complete_memory_reference (ia64_rse_access_end e)) = store_idle e"
  "store_idle (e\<lparr>rnat := x\<rparr>) = store_idle e" "store_idle (e\<lparr>ar_bspstore := a\<rparr>) = store_idle e"
  "store_idle (e\<lparr>rse_dirty := d\<rparr>) = store_idle e" "store_idle (e\<lparr>rse_dirty_nat := d\<rparr>) = store_idle e"
  "store_idle (e\<lparr>rse_clean := d\<rparr>) = store_idle e" "store_idle (e\<lparr>rse_clean_nat := d\<rparr>) = store_idle e"
  "store_idle (e\<lparr>rse_invalid := d\<rparr>) = store_idle e"
  by (simp_all add: store_idle_def ia64_rse_access_begin_def ia64_rse_access_end_def ia64_rse_complete_memory_reference_def)

lemma data_debug_passes: "no_faults m \<Longrightarrow> ia64_rse_check_data_debug m a w e = Inr ((), e)"
  by (simp add: ia64_rse_check_data_debug_def no_faults_def)

lemma write_u64_returns:
  assumes m: "no_faults m" and e: "store_idle e"
  shows "\<exists>f. ia64_rse_write_u64 m a v e = Inr ((), f) \<and> store_idle f"
proof -
  obtain f where f: "ia64_exec_store_mmuidx m a v (rse_big_endian e) (ia64_rse_access_begin e) = Inr ((), f)" "store_idle f"
    using exec_store_returns [OF m, of "ia64_rse_access_begin e" a v "rse_big_endian e"] e by auto
  have "ia64_rse_write_u64 m a v e = Inr ((), ia64_rse_complete_memory_reference (ia64_rse_access_end f))"
    by (simp add: ia64_rse_write_u64_def data_debug_passes [OF m] run_bind_def f(1))
  with f(2) show ?thesis by simp
qed

lemma write_collection_returns:
  assumes m: "no_faults m" and e: "store_idle e" and a: "a AND 7 = 0"
  shows "\<exists>c f. ia64_rse_write_collection m a v d e = Inr (c, f) \<and> store_idle f"
proof -
  let ?b = "ia64_rse_access_begin e" and ?be = "rse_big_endian e"
  have st: "\<exists>f. ia64_exec_store_mmuidx m a x ?be ?b = Inr ((), f) \<and> store_idle f" for x
    using exec_store_returns [OF m, of ?b] e by simp
  have af: "access_fault m True a ?b = None" using m by (simp add: no_faults_def)
  have "\<exists>c f. ia64_exec_rse_store_collection m a v d ?be ?b = Inr (c, f) \<and> store_idle f"
  proof (cases "d AND rnat_mask = rnat_mask")
    case True
    obtain f where "ia64_exec_store_mmuidx m a (v AND rnat_mask) ?be ?b = Inr ((), f)" "store_idle f" using st by blast
    then show ?thesis using True a unfolding ia64_exec_rse_store_collection_def Let_def by (simp only: True simp_thms if_True if_False run_bind_def) simp
  next
    case False
    let ?v = "(((if writable_ram m a ?b then rse_order ?be (mem ?b a) else 0) AND NOT (d AND rnat_mask)) OR (v AND (d AND rnat_mask))) AND rnat_mask"
    obtain f where "ia64_exec_store_mmuidx m a ?v ?be ?b = Inr ((), f)" "store_idle f" using st by blast
    then show ?thesis using False a unfolding ia64_exec_rse_store_collection_def Let_def
      by (simp only: False simp_thms if_True if_False run_bind_def af option.case) simp
  qed
  then obtain c f where f: "ia64_exec_rse_store_collection m a v d ?be ?b = Inr (c, f)" "store_idle f" by blast
  have "ia64_rse_write_collection m a v d e = Inr (c, ia64_rse_complete_memory_reference (ia64_rse_access_end f))"
    by (simp add: ia64_rse_write_collection_def data_debug_passes [OF m] run_bind_def f(1))
  with f(2) show ?thesis by simp
qed

lemma store_one_returns:
  assumes m: "no_faults m" and e: "store_idle e" and a: "ar_bspstore e AND 7 = 0"
  shows "\<exists>r e'. ia64_rse_store_one m e = Inr (r, e') \<and> store_idle e'"
proof -
  let ?w = "ia64_rse_collect_word (ar_bspstore e)" and ?a = "ar_bspstore e"
  define b where "b = e\<lparr>rnat := ia64_rse_rnat_bind ?w (rnat e)\<rparr>"
  have id: "store_idle b" using e by (simp add: b_def)
  show ?thesis
  proof (cases "ia64_rse_collect_bit ?a = 63")
    case False
    obtain f where f: "ia64_rse_write_u64 m ?a (rse_pgr b (ia64_rse_wrap_phys (int (rse_bol b) - rse_dirty b))) b = Inr ((), f)" "store_idle f"
      using write_u64_returns [OF m id] by blast
    have "ia64_rse_store_one m e = rse_store_register m ?a b" using False by (simp add: ia64_rse_store_one_def b_def Let_def)
    then show ?thesis unfolding rse_store_register_def Let_def f(1) run_bind_def using f(2) by auto
  next
    case True
    obtain c f where f: "ia64_rse_write_collection m ?a (fst (spill_word ?w (rnat b))) (snd (spill_word ?w (rnat b))) b = Inr (c, f)" "store_idle f"
      using write_collection_returns [OF m id a] by blast
    have "ia64_rse_store_one m e = rse_store_nat m ?a b" using True by (simp add: ia64_rse_store_one_def b_def Let_def)
    then show ?thesis unfolding rse_store_nat_alt Let_def f(1) run_bind_def rse_retire_def using f(2) by auto
  qed
qed

lemma flush_returns:
  assumes "no_faults m" "store_idle e" "ar_bspstore e AND 7 = 0"
  shows "\<exists>e'. ia64_rse_flush m e = Inr ((), e')"
  using assms
proof (induction m e rule: ia64_rse_flush.induct)
  case (1 m e)
  show ?case
  proof (cases "0 < rse_dirty e + rse_dirty_nat e")
    case False
    then show ?thesis by (subst ia64_rse_flush.simps) simp
  next
    case True
    obtain r e1 where st: "ia64_rse_store_one m e = Inr (r, e1)" "store_idle e1" using store_one_returns [OF 1(2-4)] by blast
    have w: "ia64_rse_interrupt_window (m_platform m) e1 = Inr ((), e1)"
      using st(2) by (simp add: ia64_rse_interrupt_window_def store_idle_def)
    have "ar_bspstore e1 AND 7 = 0" using store_one_progress [OF st(1)] 1(4) by (simp add: next_word_aligned)
    from 1(1) [OF True st(1) w 1(2) st(2) this] show ?thesis
      using True st(1) w by (subst ia64_rse_flush.simps) (simp add: run_bind_def)
  qed
qed

text \<open>With no dirty word left, every register below the frame is in the backing store.\<close>

lemma clean_stack_stored:
  assumes "rse_good e" "rse_dirty e = 0" "i < 0"
  shows "stored_value e i = stack e i"
proof (cases "- rse_clean e \<le> i")
  case True
  have inv: "rse_inv e" using assms(1) by (simp add: rse_good_def)
  have "file_value e (reg_phys e i) = rse_pgr e (reg_phys e i)"
    using file_value_below [OF rse_invD(1) [OF inv] _ assms(3)] live_bounds(1) [OF inv] True assms(2) by simp
  then show ?thesis using True assms by (simp add: rse_good_def clean_coherent_def stack_def)
next
  case False
  then show ?thesis using assms(2) by (simp add: stack_def)
qed

lemma spill_loop_returns:
  assumes "no_faults m" "store_idle e" "ar_bspstore e AND 7 = 0"
  shows "\<exists>e'. rse_spill_loop m g e = Inr ((), e')"
  using assms
proof (induction m g e rule: rse_spill_loop.induct)
  case (1 m g e)
  show ?case
  proof (cases "0 < g")
    case False
    then show ?thesis by (subst rse_spill_loop.simps) simp
  next
    case True
    obtain r e1 where st: "ia64_rse_store_one m e = Inr (r, e1)" "store_idle e1" using store_one_returns [OF 1(2-4)] by blast
    have w: "ia64_rse_interrupt_window (m_platform m) e1 = Inr ((), e1)"
      using st(2) by (simp add: ia64_rse_interrupt_window_def store_idle_def)
    have "ar_bspstore e1 AND 7 = 0" using store_one_progress [OF st(1)] 1(4) by (simp add: next_word_aligned)
    from 1(1) [OF True st(1) w 1(2) st(2) this] show ?thesis
      using True st(1) w by (subst rse_spill_loop.simps) (simp add: run_bind_def)
  qed
qed

lemma new_frame_returns:
  assumes "no_faults m" "store_idle e" "ar_bspstore e AND 7 = 0"
  shows "\<exists>e'. ia64_rse_new_frame m g e = Inr ((), e')"
proof -
  obtain f where "rse_spill_loop m (g - rse_invalid e - rse_clean e) e = Inr ((), f)" using spill_loop_returns [OF assms] by blast
  then show ?thesis unfolding ia64_rse_new_frame_def Let_def by (simp add: run_bind_def)
qed

section \<open>Properties\<close>



text \<open>
  C5: On a machine whose stores do not fault and with no interrupt pending, \<^verbatim>\<open>flushrs\<close> ends, leaves no dirty
  register and \<^verbatim>\<open>BSPSTORE\<close> at \<^verbatim>\<open>BSP\<close>, and afterwards memory holds every register below
  the frame at its backing store address, in the byte order of \<^verbatim>\<open>RSC.be\<close>, whether it was in the file or already stored.
\<close>

theorem flushrs_completes:
  assumes "rse_good e" "clean_allowed m e" "0 \<le> rse_dirty e" "no_faults m" "store_idle e" "ar_bspstore e AND 7 = 0"
  shows "\<exists>f. ia64_rse_flush m e = Inr ((), f) \<and> rse_dirty f = 0 \<and> rse_dirty_nat f = 0 \<and> ar_bspstore f = ar_bsp e \<and> ar_bsp f = ar_bsp e \<and>
    (\<forall>i. near i \<and> i < 0 \<longrightarrow> rse_order (rse_big_endian e) (mem f (reg_addr e i)) = stack e i)"
proof -
  obtain f where run: "ia64_rse_flush m e = Inr ((), f)" using flush_returns [OF assms(4-6)] by blast
  from flush_stack [OF assms(1-3) run] have k: "below_kept m 0 e f" "dirty_words f = 0" by blast+
  then have good: "rse_good f" and inv: "rse_inv f" and d: "0 \<le> rse_dirty f" by (simp_all add: below_kept_def rse_good_def)
  have z: "rse_dirty f = 0" "rse_dirty_nat f = 0" using dirty_words_sign(3) [OF inv] k(2) d by (simp_all add: dirty_words_def)
  have b: "ar_bsp f = ar_bsp e" "ar_rsc f = ar_rsc e" using k(1) by (simp_all add: below_kept_def)
  have "rse_order (rse_big_endian e) (mem f (reg_addr e i)) = stack e i" if "near i" "i < 0" for i
    using clean_stack_stored [OF good z(1) that(2)] k(1) that b by (simp add: below_kept_def stored_value_def reg_addr_def rse_big_endian_def)
  then show ?thesis using run z b rse_invD(9) [OF inv] k(2) by (intro exI [of _ f]) simp
qed


section \<open>Witnesses\<close>

definition quiet_machine :: machine where
  "quiet_machine = \<lparr>m_platform = \<lparr>pf_class = ia64_cpu_model_madison, ia32_leave = id, ia32_enter = id, ia32_virtual_ip = ip,
       ia32_irq_open = (\<lambda>_. False), firmware_handles = (\<lambda>_ _ _ _. None), ras_enter_mca = (\<lambda>_. None), ras_enter_init = (\<lambda>_. None),
       ras_enter_pmi = (\<lambda>_ _. None), reset_cpu = id\<rparr>,
     data_debug = (\<lambda>_ _ _. None), access_fault = (\<lambda>_ _ _. None), writable_ram = (\<lambda>_ _. True), alat_xlat = (\<lambda>_. Some),
     alat_window = (\<lambda>_. quiet_window \<lparr>g_external = 0, g_sequences = []\<rparr>), alat_gen = (\<lambda>_. \<lparr>g_external = 0, g_sequences = []\<rparr>)\<rparr>"

text \<open>A CPU after reset with a frame of two local registers and one output, and two older registers still dirty.\<close>

definition framed_cpu :: env where
  "framed_cpu = (env_zero False (\<lambda>_. 0))\<lparr>cfm_sof := 3, cfm_sol := 2, gr := (\<lambda>r. of_nat r), rse_pgr := (\<lambda>p. of_nat p + 32), rse_bol := 0,
     ar_bsp := 0x10010, ar_bspstore := 0x10000, rse_dirty := 2, rse_invalid := 91\<rparr>"

lemma framed_cpu_good: "rse_good framed_cpu" "clean_allowed quiet_machine framed_cpu" "0 \<le> rse_dirty framed_cpu"
  "no_faults quiet_machine" "store_idle framed_cpu" "ar_bspstore framed_cpu AND 7 = 0"
proof -
  have ok: "frame_ok framed_cpu" by (simp add: frame_ok_def ia64_cfm_frame_fields_valid_def framed_cpu_def env_zero_def)
  have "rse_inv framed_cpu"
    unfolding rse_inv_def using ok by (simp add: framed_cpu_def env_zero_def dirty_words_def live_words_def rnat_slots_def rnat_bit_def)
  moreover have "frame_coherent framed_cpu"
    by (auto simp: frame_coherent_def ia64_rse_virt_to_phys_def ia64_rse_rotating_gr_count_def framed_cpu_def env_zero_def bits2_get_def Let_def)
  moreover have "rse_dirty framed_cpu = 2" "rse_clean framed_cpu = 0" by (simp_all add: framed_cpu_def env_zero_def)
  then have "clean_coherent framed_cpu" by (auto simp: clean_coherent_def)
  ultimately show "rse_good framed_cpu" by (simp add: rse_good_def)
  show "clean_allowed quiet_machine framed_cpu" "0 \<le> rse_dirty framed_cpu" "no_faults quiet_machine" "store_idle framed_cpu"
    "ar_bspstore framed_cpu AND 7 = 0"
    by (simp_all add: clean_allowed_def framed_cpu_def env_zero_def no_faults_def quiet_machine_def store_idle_def alat_reset_def)
qed


theorem flushrs_witness:
  "\<exists>f. ia64_rse_flush quiet_machine framed_cpu = Inr ((), f) \<and> rse_dirty f = 0 \<and> ar_bspstore f = 0x10010 \<and> mem f 0x10008 = 127"
proof -
  have b: "ar_bsp framed_cpu = 0x10010" "rse_big_endian framed_cpu = False" by (simp_all add: framed_cpu_def env_zero_def rse_big_endian_def)
  have a: "reg_addr framed_cpu (- 1) = 0x10008" by (simp add: reg_addr_def reg_slot_def rnat_bit_def b)
  have f: "rse_dirty framed_cpu = 2" "rse_clean framed_cpu = 0" "cfm_sof framed_cpu = 3" "rse_pgr framed_cpu 95 = 127" "rse_bol framed_cpu = 0"
    by (simp_all add: framed_cpu_def env_zero_def)
  have "frame_ok framed_cpu" using framed_cpu_good(1) by (simp add: rse_good_def rse_inv_def)
  then have s: "stack framed_cpu (- 1) = 127"
    using file_value_below [of framed_cpu "- 1"] by (simp add: stack_def f reg_phys_def ia64_rse_wrap_phys_def)
  from flushrs_completes [OF framed_cpu_good] obtain f where f: "ia64_rse_flush quiet_machine framed_cpu = Inr ((), f)" "rse_dirty f = 0"
    "ar_bspstore f = ar_bsp framed_cpu" "\<And>i. near i \<Longrightarrow> i < 0 \<Longrightarrow> rse_order (rse_big_endian framed_cpu) (mem f (reg_addr framed_cpu i)) = stack framed_cpu i"
    by blast
  show ?thesis using f(1-3) f(4) [of "- 1"] by (intro exI [of _ f]) (simp add: a b s near_def rse_order_def)
qed



section \<open>Two frames that the restore path mishandles\<close>

text \<open>
  When a restored frame takes registers from the clean partition, \<^verbatim>\<open>ia64_rse_restore_frame\<close> recounts the clean
  collections from the lowered \<^verbatim>\<open>BSP\<close> with the dirty count of before the restore.  From a consistent state, with 96 clean
  registers, 8 preserved ones and a frame growing by 20, it counts two collections where the 70 live words span one.
\<close>

theorem restore_frame_miscounts:
  defines "e \<equiv> (env_zero False (\<lambda>_. 0))\<lparr>ar_bsp := 0x10080, ar_bspstore := 0x10080, rse_clean := 96, rse_clean_nat := 2\<rparr>"
  defines "f \<equiv> ia64_rse_restore_frame 8 20 0 e"
  shows "rse_inv e \<and> rse_clean f = 68 \<and> rse_dirty f = 0 \<and> rse_dirty_nat f + rse_clean_nat f = 2 \<and> rnat_slots (rnat_bit (ar_bsp f)) (live_words f) = 1"
proof -
  have "rse_inv e"
    by (simp add: rse_inv_def frame_ok_def ia64_cfm_frame_fields_valid_def e_def env_zero_def dirty_words_def live_words_def rnat_slots_def rnat_bit_def)
  moreover have "rse_clean f = 68 \<and> rse_dirty f = 0 \<and> rse_dirty_nat f + rse_clean_nat f = 2 \<and> rnat_slots (rnat_bit (ar_bsp f)) (live_words f) = 1"
    unfolding f_def e_def by code_simp
  ultimately show ?thesis by blast
qed

text \<open>
  A frame marker of 127 registers passes the field checks of writes to \<^verbatim>\<open>AR.PFS\<close> and \<^verbatim>\<open>CR.IFS\<close>, and a return to it passes the check
  of its growth, although it is no frame that \<^verbatim>\<open>alloc\<close> accepts.
\<close>

theorem oversized_frame_restored:
  "\<not> ia64_reserved_pfs_field 0x3fff \<and> \<not> ia64_reserved_ifs_field 0x8000000000003fff \<and> cfm_field 0 7 0x3fff = 127 \<and> cfm_field 7 7 0x3fff = 127 \<and> \<not> ia64_cfm_frame_fields_valid 127 127 0 \<and>
   cfm_sof (ia64_rse_restore_frame 127 0 0 ((env_zero False (\<lambda>_. 0))\<lparr>ar_bsp := 0x10080, ar_bspstore := 0x10080, rse_invalid := 96, cfm_sof := 127, cfm_sol := 127\<rparr>)) = 127"
  by code_simp

end
