(* ===== verification/Interruption.thy ===== *)
theory Interruption
  imports Rse_Nesting
begin

text \<open>
  An external interrupt and the return from it: what delivery saves, and that \<^verbatim>\<open>rfi\<close> restores the
  interrupted context.
\<close>

lemma interruption_psr_masks:
  "ia64_interruption_psr e AND IA64_PSR_BN = 0" "ia64_interruption_psr e AND IA64_PSR_I = 0" "ia64_interruption_psr e AND IA64_PSR_IC = 0"
  by (simp_all add: ia64_interruption_psr_def Let_def bit.conj_disj_distrib2 and.assoc)

lemma delivered_extint:
  fixes pf :: platform and a :: u64 and slot :: nat
  assumes "psr e AND IA64_PSR_IS = 0" "psr e AND IA64_PSR_IC \<noteq> 0" "\<not> native_completion_trap (exception_st e)" "\<not> ia32_transition_trap (exception_st e)"
  defines "d \<equiv> ia64_deliver_exception pf IA64_EXCP_EXTINT a slot e"
  shows "psr d = ia64_interruption_psr e" "cr_ipsr d = (psr e AND NOT IA64_PSR_RI_MASK) OR push_bit 41 (of_nat slot AND 3)"
    "cr_iip d = ia64_ip_bundle_addr (ip e)" "cr_ifs d = 0" "ip d = (cr e 2 AND NOT 0x7fff) OR 0x3000" "untouched d = untouched e"
    "bank_regs d = bank_regs (if psr e AND IA64_PSR_BN \<noteq> 0 then ia64_swap_banked_gr e else e)"
proof -
  let ?x = "(exception_st e)\<lparr>psr_suppression_before_insn := 0\<rparr>"
  define e3 where "e3 = e\<lparr>exception_st := ?x, cr_ipsr := (psr e AND NOT IA64_PSR_RI_MASK) OR push_bit 41 (of_nat slot AND 3),
    cr_iip := ia64_ip_bundle_addr (ip e), cr := (cr e)(22 := last_successful_bundle e), cr_ifs := 0\<rparr>"
  have c: "collect_interruption pf IA64_EXCP_EXTINT a slot False ips (e\<lparr>exception_st := ?x\<rparr>) = e3" for ips
    using assms(3,4) by (simp add: collect_interruption_def Let_def ia64_exception_writes_ifa_def e3_def)
  have b: "(IA64_EXCP_EXTINT = IA64_EXCP_NONE) = False" "(IA64_EXCP_EXTINT \<noteq> IA64_EXCP_DATA_NESTED_TLB) = True" "(psr e AND IA64_PSR_IS \<noteq> 0) = False"
    "(psr e AND IA64_PSR_IC \<noteq> 0) = True" "ia64_ivt_vectors IA64_EXCP_EXTINT = 0x3000" using assms(1,2) by simp_all
  have "\<exists>w y z h i. d = (let e4 = e3\<lparr>cr_isr := w\<rparr>; e5 = ia64_set_psr (ia64_interruption_psr e4) (e4\<lparr>rse_cfle := False\<rparr>)
     in e5\<lparr>exception_st := y e5, ip := (cr e5 2 AND NOT 0x7fff) OR 0x3000, instruction_group_start := z, halted := h, intr := i e5\<rparr>)"
    unfolding d_def ia64_deliver_exception_def Let_def b if_True if_False c by (intro exI) (rule refl)
  then obtain w y z h i where d: "d = (let e4 = e3\<lparr>cr_isr := w\<rparr>; e5 = ia64_set_psr (ia64_interruption_psr e4) (e4\<lparr>rse_cfle := False\<rparr>)
     in e5\<lparr>exception_st := y e5, ip := (cr e5 2 AND NOT 0x7fff) OR 0x3000, instruction_group_start := z, halted := h, intr := i e5\<rparr>)" by blast
  define e4 where "e4 = e3\<lparr>cr_isr := w, rse_cfle := False\<rparr>"
  define e5 where "e5 = ia64_set_psr (ia64_interruption_psr e) e4"
  have ip: "ia64_interruption_psr (e3\<lparr>cr_isr := w\<rparr>) = ia64_interruption_psr e" by (simp add: ia64_interruption_psr_def e3_def)
  have d': "d = e5\<lparr>exception_st := y e5, ip := (cr e5 2 AND NOT 0x7fff) OR 0x3000, instruction_group_start := z, halted := h, intr := i e5\<rparr>"
    unfolding d Let_def ip e5_def e4_def by simp
  have s: "saved_context e5 = saved_context e4" "untouched e5 = untouched e4" by (simp_all add: e5_def set_psr_untouched)
  show "psr d = ia64_interruption_psr e" by (simp add: d' e5_def set_psr_psr)
  show "cr_ipsr d = (psr e AND NOT IA64_PSR_RI_MASK) OR push_bit 41 (of_nat slot AND 3)"
    "cr_iip d = ia64_ip_bundle_addr (ip e)" "cr_ifs d = 0" "ip d = (cr e 2 AND NOT 0x7fff) OR 0x3000"
    using s(1) by (simp_all add: d' saved_context_def e4_def e3_def)
  show "untouched d = untouched e" using s(2) by (simp add: d' untouched_def e4_def e3_def)
  have k: "bank_regs (e4) = bank_regs e" "psr e4 = psr e" by (simp_all add: bank_regs_def e4_def e3_def)
  have x: "(psr e XOR ia64_interruption_psr e) AND IA64_PSR_BN = psr e AND IA64_PSR_BN"
    using interruption_psr_masks(1) [of e] by (simp add: bit.conj_xor_distrib2)
  have "bank_regs d = bank_regs e5" by (simp add: d' bank_regs_def)
  also have "\<dots> = bank_regs (if psr e AND IA64_PSR_BN \<noteq> 0 then ia64_swap_banked_gr e4 else e4)" unfolding e5_def set_psr_bank_regs k(2) x ..
  also have "\<dots> = bank_regs (if psr e AND IA64_PSR_BN \<noteq> 0 then ia64_swap_banked_gr e else e)"
    using bank_regs_swap_cong [OF k(1)] k(1) by simp
  finally show "bank_regs d = bank_regs (if psr e AND IA64_PSR_BN \<noteq> 0 then ia64_swap_banked_gr e else e)" .
qed

text \<open>The slot that delivery takes from \<^verbatim>\<open>PSR.ri\<close> goes back to the same place.\<close>

lemma ri_recombined:
  "(p AND NOT IA64_PSR_RI_MASK) OR push_bit 41 (of_nat (unat (drop_bit 41 (p AND IA64_PSR_RI_MASK))) AND 3) = p" for p :: u64
proof -
  have m: "IA64_PSR_RI_MASK = push_bit 41 3" by simp
  have t: "(3 :: u64) = mask 2" by (simp add: mask_eq_exp_minus_1)
  have "push_bit 41 (drop_bit 41 (p AND push_bit 41 (mask 2)) AND mask 2) = p AND push_bit 41 (mask 2)"
    by (rule bit_word_eqI) (auto simp: bit_simps)
  moreover have "(p AND NOT q) OR (p AND q) = p" for q by (rule bit_word_eqI) (auto simp: bit_simps)
  moreover have "of_nat (unat x) = x" for x :: u64 by simp
  ultimately show ?thesis unfolding m unfolding t by (simp only:)
qed

text \<open>The states in which an external interrupt is due and nothing of higher priority is.\<close>

definition extint_due :: "platform \<Rightarrow> env \<Rightarrow> bool" where
  "extint_due pf e \<longleftrightarrow> interrupt_hard e \<and> ia64_sapic_has_pending e \<and> \<not> pal_mca_pending e \<and> \<not> ia64_sapic_has_init e \<and> \<not> ia64_sapic_has_pmi e \<and>
     \<not> rse_cfle e \<and> 0 \<le> rse_dirty e \<and> 0 \<le> rse_dirty_nat e \<and> psr e AND IA64_PSR_I \<noteq> 0 \<and> psr e AND IA64_PSR_IC \<noteq> 0 \<and> psr e AND IA64_PSR_IS = 0 \<and>
     \<not> psr_i_deferred (exception_st e) \<and> \<not> native_completion_trap (exception_st e) \<and> \<not> ia32_transition_trap (exception_st e) \<and>
     (\<forall>a slot f. firmware_handles pf IA64_EXCP_EXTINT a slot f = None)"

lemma has_pending_cong:
  assumes "intr f = intr e" "cr f = cr e"
  shows "ia64_sapic_has_pending f = ia64_sapic_has_pending e"
proof -
  have "sapic_find_isr f = sapic_find_isr e" by (simp only: sapic_find_isr_def assms)
  then have "sapic_vector_unmasked f = sapic_vector_unmasked e" by (intro ext) (simp only: sapic_vector_unmasked_def assms)
  then show ?thesis by (simp only: ia64_sapic_has_pending_def sapic_find_irr_def assms)
qed

lemma extint_taken:
  assumes due: "extint_due pf e"
  defines "f \<equiv> e\<lparr>exception_index := IA64_EXCP_EXTINT, exception_st := (exception_st e)\<lparr>fault_exception := IA64_EXCP_EXTINT\<rparr>\<rparr>"
  shows "\<exists>i. ia64_cpu_exec_interrupt pf e =
    (True, (ia64_deliver_exception pf IA64_EXCP_EXTINT (cr e 20) (unat (drop_bit 41 (psr e AND IA64_PSR_RI_MASK))) f)
       \<lparr>intr := i, exception_index := IA64_EXCP_NONE\<rparr>)"
proof -
  note d = due [unfolded extint_due_def]
  have en: "ia64_external_interrupt_enabled pf e" using d by (simp add: ia64_external_interrupt_enabled_def Let_def)
  have x: "ia64_cpu_exec_interrupt pf e = (True, ia64_cpu_do_interrupt pf (e\<lparr>exception_index := IA64_EXCP_EXTINT\<rparr>))"
    unfolding ia64_cpu_exec_interrupt_def Let_def using d en by simp
  have ff: "psr f = psr e" "cr f = cr e" "native_completion_trap (exception_st f) = native_completion_trap (exception_st e)"
    "ia32_transition_trap (exception_st f) = ia32_transition_trap (exception_st e)" "intr f = intr e"
    by (simp_all add: f_def)
  note pend = has_pending_cong [OF ff(5,2)]
  have fa: "interrupt_fault_addr pf IA64_EXCP_EXTINT b f = (cr e 20, f)" for b by (simp add: interrupt_fault_addr_def ff)
  have u: "ia64_exception_uses_psr_ri_slot IA64_EXCP_EXTINT s" for s by (simp add: ia64_exception_uses_psr_ri_slot_def)
  have f0: "(e\<lparr>exception_index := IA64_EXCP_EXTINT\<rparr>)\<lparr>exception_st := (exception_st (e\<lparr>exception_index := IA64_EXCP_EXTINT\<rparr>))
      \<lparr>fault_exception := exception_index (e\<lparr>exception_index := IA64_EXCP_EXTINT\<rparr>)\<rparr>\<rparr> = f" by (simp add: f_def)
  have "ia64_cpu_do_interrupt pf (e\<lparr>exception_index := IA64_EXCP_EXTINT\<rparr>) =
    (let g = ia64_deliver_exception pf IA64_EXCP_EXTINT (cr e 20) (unat (drop_bit 41 (psr e AND IA64_PSR_RI_MASK))) f
     in g\<lparr>intr := (intr g)\<lparr>pending_extint := 0\<rparr>, exception_index := IA64_EXCP_NONE\<rparr>)"
    using d unfolding ia64_cpu_do_interrupt_def Let_def f0 by (simp add: fa u ff pend)
  then show ?thesis unfolding x Let_def by blast
qed

text \<open>
  C15: An external interrupt that is due (requested and deliverable in Itanium code with \<^verbatim>\<open>PSR.i\<close> and \<^verbatim>\<open>PSR.ic\<close> set, with
  no event of higher priority and no completion pending) is taken at \<^verbatim>\<open>IVA\<close> + 0x3000 with interrupts and collection disabled, and an
  \<^verbatim>\<open>rfi\<close> from that state resumes the interrupted code: same bundle, same PSR, same two register banks, same
  register stack and same predicate, branch and floating-point registers.
\<close>

theorem extint_rfi_resumes:
  assumes due: "extint_due (m_platform m) e" and nc: "\<not> rse_completion_pending e"
  shows "\<exists>d f. ia64_cpu_exec_interrupt (m_platform m) e = (True, d) \<and> ip d = (cr e 2 AND NOT 0x7fff) OR 0x3000 \<and>
    psr d AND IA64_PSR_I = 0 \<and> psr d AND IA64_PSR_IC = 0 \<and> untouched d = untouched e \<and>
    ia64_rfi m fip slot d = Inr ((), f) \<and> ip f = ia64_ip_bundle_addr (ip e) \<and> psr f = psr e \<and>
    bank_regs f = bank_regs e \<and> untouched f = untouched e"
proof -
  define f where "f = e\<lparr>exception_index := IA64_EXCP_EXTINT, exception_st := (exception_st e)\<lparr>fault_exception := IA64_EXCP_EXTINT\<rparr>\<rparr>"
  define g where "g = ia64_deliver_exception (m_platform m) IA64_EXCP_EXTINT (cr e 20) (unat (drop_bit 41 (psr e AND IA64_PSR_RI_MASK))) f"
  obtain i where x: "ia64_cpu_exec_interrupt (m_platform m) e = (True, g\<lparr>intr := i, exception_index := IA64_EXCP_NONE\<rparr>)"
    using extint_taken [OF due] unfolding g_def f_def by blast
  define d where "d = g\<lparr>intr := i, exception_index := IA64_EXCP_NONE\<rparr>"
  note du = due [unfolded extint_due_def]
  have ff: "psr f = psr e" "ip f = ip e" "cr f = cr e" "untouched f = untouched e" "bank_regs f = bank_regs e" "ia64_interruption_psr f = ia64_interruption_psr e"
    "native_completion_trap (exception_st f) = native_completion_trap (exception_st e)"
    "ia32_transition_trap (exception_st f) = ia32_transition_trap (exception_st e)"
    by (simp_all add: f_def untouched_def bank_regs_def ia64_interruption_psr_def)
  note dl = delivered_extint [of f "m_platform m" "cr e 20" "unat (drop_bit 41 (psr e AND IA64_PSR_RI_MASK))", folded g_def, unfolded ff ri_recombined]
  have g: "psr d = ia64_interruption_psr e" "cr_ipsr d = psr e" "cr_iip d = ia64_ip_bundle_addr (ip e)" "cr_ifs d = 0"
    "ip d = (cr e 2 AND NOT 0x7fff) OR 0x3000" "untouched d = untouched e"
    "bank_regs d = bank_regs (if psr e AND IA64_PSR_BN \<noteq> 0 then ia64_swap_banked_gr f else f)"
    using dl du by (simp_all add: d_def untouched_def bank_regs_def)
  define e1 where "e1 = d\<lparr>exception_st := (exception_st d)\<lparr>exception := IA64_EXCP_NONE, fault_ip := 0, fault_addr := 0, fault_imm := 0, fault_slot := 0\<rparr>,
    instruction_group_start := True\<rparr>"
  define r where "r = (ia64_set_psr (psr e) e1)\<lparr>ip := ia64_ip_bundle_addr (ip e)\<rparr>"
  have u1: "untouched e1 = untouched e" "bank_regs e1 = bank_regs d" "psr e1 = psr d" using g(6) by (simp_all add: e1_def untouched_def bank_regs_def)
  then have ur: "untouched r = untouched e" "psr r = psr e" "ip r = ia64_ip_bundle_addr (ip e)"
    by (simp_all add: r_def untouched_update set_psr_untouched set_psr_psr)
  have b: "(psr d XOR psr e) AND IA64_PSR_BN = psr e AND IA64_PSR_BN"
    using interruption_psr_masks(1) [of e] by (simp add: g(1) bit.conj_xor_distrib2)
  have "bank_regs r = bank_regs (if psr e AND IA64_PSR_BN \<noteq> 0 then ia64_swap_banked_gr e1 else e1)"
    using set_psr_bank_regs [of "psr e" e1] unfolding u1(3) b by (simp add: r_def bank_regs_def)
  also have "\<dots> = bank_regs e"
    using bank_regs_swap_cong [of e1 "ia64_swap_banked_gr f"] u1(2) g(7) ff(5) by (simp add: swap_banked_gr_twice)
  finally have br: "bank_regs r = bank_regs e" .
  have ib: "ia64_ip_bundle_addr (ia64_ip_bundle_addr (ip e)) = ia64_ip_bundle_addr (ip e)" by (simp add: ia64_ip_bundle_addr_def and.assoc)
  have rc: "\<not> rse_completion_pending r" "0 \<le> rse_dirty r" "0 \<le> rse_dirty_nat r" using ur(1) nc du by (simp_all add: untouched_def)
  have "ia64_rfi m fip slot d = Inr ((), r)"
    using du rc unfolding ia64_rfi_def Let_def g(2-4) ib e1_def [symmetric] by (simp add: r_def [symmetric] not_less)
  then show ?thesis using x g(1,5,6) ur br interruption_psr_masks(2,3) [of e] unfolding d_def [symmetric]
    by (intro exI [of _ d] exI [of _ r]) (simp only: simp_thms)
qed

theorem extint_rfi_witness:
  "\<exists>d f. ia64_cpu_exec_interrupt (m_platform quiet_machine) ((env_zero False (\<lambda>_. 0))\<lparr>psr := 0x6000 OR IA64_PSR_BN, ip := 0x1230, interrupt_hard := True,
       intr := interrupt_state_zero\<lparr>sapic_irr := (\<lambda>_. 0)(1 := 1)\<rparr>\<rparr>) = (True, d) \<and> ip d = 0x3000 \<and>
     ia64_rfi quiet_machine 0 0 d = Inr ((), f) \<and> ip f = 0x1230"
proof -
  let ?e = "(env_zero False (\<lambda>_. 0))\<lparr>psr := 0x6000 OR IA64_PSR_BN, ip := 0x1230, interrupt_hard := True,
       intr := interrupt_state_zero\<lparr>sapic_irr := (\<lambda>_. 0)(1 := 1)\<rparr>\<rparr>"
  have "ia64_sapic_has_pending ?e" by code_simp
  then have "extint_due (m_platform quiet_machine) ?e"
    by (simp add: extint_due_def ia64_sapic_has_init_def ia64_sapic_has_pmi_def quiet_machine_def env_zero_def interrupt_state_zero_def exception_state_zero_def)
  moreover have "\<not> rse_completion_pending ?e" "cr ?e 2 = 0" "ip ?e = 0x1230" by (simp_all add: env_zero_def)
  ultimately show ?thesis using extint_rfi_resumes [of quiet_machine ?e 0 0] by (auto simp: ia64_ip_bundle_addr_def)
qed

section \<open>Handlers that use the register stack\<close>

text \<open>A handler saves the interrupted frame by \<^verbatim>\<open>cover\<close>, which leaves its marker in \<^verbatim>\<open>CR.IFS\<close>.\<close>

lemma cover_ifs:
  assumes ok: "frame_ok e" and ic: "psr e AND IA64_PSR_IC = 0"
  shows "cr_ifs (ia64_rse_cover e) = ia64_rse_current_cfm e OR 0x8000000000000000"
proof -
  let ?e = "e\<lparr>cr_ifs := 0x8000000000000000 OR ia64_rse_current_cfm e\<rparr>"
  have "frame_ok ?e" using ok by (simp add: frame_ok_def)
  from sync_frame_out [OF this] obtain x y where o: "ia64_rse_sync_frame_out ?e = ?e\<lparr>rse_gr_dirty := (0, 0), rse_pgr := x, rse_pgr_nat := y\<rparr>"
    unfolding written_back_def by blast
  have k: "cr_ifs (ia64_rse_preserve_frame n f) = cr_ifs f" "cr_ifs (ia64_set_cfm_rrb_fr n f) = cr_ifs f" "cr_ifs (ia64_set_cfm_rrb_pr n f) = cr_ifs f"
    "cr_ifs (ia64_rse_invalidate_stacked_alat f) = cr_ifs f" for f n
    by (simp_all add: ia64_rse_preserve_frame_def ia64_set_cfm_rrb_fr_def ia64_set_cfm_rrb_pr_def ia64_set_cfm_rrb_pr_slow_def
        ia64_rse_invalidate_stacked_alat_def Let_def)
  have r: "cr_ifs (ia64_rse_reset_rotations f) = cr_ifs f" for f by (simp add: ia64_rse_reset_rotations_def Let_def k)
  show ?thesis using ic unfolding ia64_rse_cover_def Let_def by (simp add: o k r) (rule or.commute)
qed

lemma rfi_frame:
  assumes run: "ia64_rfi m fip slot g = Inr (u, h)" and nat: "cr_ipsr g AND IA64_PSR_IS = 0" and v: "cr_ifs g AND 0x8000000000000000 \<noteq> 0"
    and good: "rse_good g" and ca: "clean_allowed m g" and d0: "0 \<le> rse_dirty g" and ok: "pfm_ok (cr_ifs g AND 0x3fffffffff)"
  defines "p \<equiv> cfm_field 0 7 (cr_ifs g)"
  obtains f where "returned m (cr_ifs g AND 0x3fffffffff) p f h" "rse_backing f = rse_backing g" "\<forall>i<0. stack f i = stack g i"
proof -
  define x where "x = g\<lparr>exception_st := (exception_st g)\<lparr>exception := IA64_EXCP_NONE, fault_ip := 0, fault_addr := 0, fault_imm := 0, fault_slot := 0\<rparr>,
    instruction_group_start := True\<rparr>"
  define f where "f = (ia64_set_psr (cr_ipsr g) x)\<lparr>ip := ia64_ip_bundle_addr (cr_iip g)\<rparr>"
  have xc: "rse_core x = rse_core g" by (simp add: x_def rse_core_def)
  have gx: "rse_good x" using good core_cong(1) [OF xc] by simp
  note sp = set_psr_good [OF gx, where v = "cr_ipsr g"]
  have fc: "rse_core f = rse_core (ia64_set_psr (cr_ipsr g) x)" by (simp add: f_def rse_core_def)
  have bx: "rse_backing x = rse_backing g" by (simp add: x_def rse_backing_def)
  have fb: "rse_backing f = rse_backing g" using sp(2) bx by (simp add: f_def rse_backing_def)
  have st: "stack f i = stack g i" if "i < 0" for i using core_cong(2) [OF fc] core_cong(2) [OF xc] sp(3) [OF that] by simp
  have gf: "rse_good f" using core_cong(1) [OF fc] sp(1) by simp
  note b = rse_backingD [OF fb]
  have inv: "rse_inv f" using gf by (simp add: rse_good_def)
  have D: "0 \<le> dirty_words f" using dirty_words_sign(4) [OF inv] d0 b(8) by linarith
  have "run_bind (ia64_rse_return_to_frame m (cr_ifs g AND 0x3fffffffff) p f) (\<lambda>_ e3. ia64_rse_complete_pending_trap m e3) = Inr (u, h)"
    using run nat v unfolding ia64_rfi_def Let_def x_def [symmetric] p_def by (simp add: f_def [symmetric])
  then obtain y where y: "ia64_rse_return_to_frame m (cr_ifs g AND 0x3fffffffff) p f = Inr ((), y)"
    and t: "ia64_rse_complete_pending_trap m y = Inr (u, h)" by (auto simp: run_bind_Inr)
  have "returned m (cr_ifs g AND 0x3fffffffff) p f y"
    by (rule return_stack [OF gf _ D ok _ _ y])
      (use ca b rse_invD(5) [OF inv] in \<open>simp_all add: clean_allowed_def p_def cfm_field_masked\<close>)
  from returned_core [OF refl pending_trap_core [OF t] this] fb st show ?thesis using that by blast
qed



end
