(* ===== verification/Rse_Context.thy ===== *)
theory Rse_Context
  imports Rse_Nesting
begin

text \<open>
  Saved contexts: what \<^verbatim>\<open>ia64_rse_save_context\<close> records of a register stack comes back, whatever ran on the
  processor in between.
\<close>

text \<open>The registers of the frame with their NaT bits and the state that places them.\<close>

definition frame_view :: "env \<Rightarrow> (nat \<times> nat \<times> nat \<times> nat) \<times> (nat \<Rightarrow> u64 \<times> bool)" where
  "frame_view e = ((cfm_sof e, cfm_sol e, cfm_sor e, cfm_rrb_gr e),
     \<lambda>v. if v < cfm_sof e then (gr e (32 + v), bits2_get (nat_bits e) (32 + v)) else (0, False))"

definition partitions :: "env \<Rightarrow> (u64 \<times> u64 \<times> nat) \<times> int \<times> int \<times> int \<times> int \<times> int" where
  "partitions e = ((ar_bsp e, ar_bspstore e, rse_bol e), rse_dirty e, rse_dirty_nat e, rse_clean e, rse_clean_nat e, rse_invalid e)"

lemma set_cfm_rrb_rnat: "rnat (ia64_set_cfm_rrb_fr n e) = rnat e" "rnat (ia64_set_cfm_rrb_pr n e) = rnat e"
  by (simp_all add: ia64_set_cfm_rrb_fr_def ia64_set_cfm_rrb_pr_def ia64_set_cfm_rrb_pr_slow_def Let_def)

text \<open>The state in which the restored frame is read in from the physical file.\<close>

lemma restored_state:
  obtains e3 where "ia64_rse_restore_context c f = ia64_rse_sync_frame_in e3" "rse_pgr e3 = ctx_pgr c" "rse_pgr_nat e3 = ctx_pgr_nat c"
    "partitions e3 = ((ctx_bsp c, ctx_bspstore c, ctx_bol c), ctx_dirty c, ctx_dirty_nat c, ctx_clean c, ctx_clean_nat c, ctx_invalid c)"
    "cfm_sof e3 = ctx_sof c" "cfm_sol e3 = ctx_sol c" "cfm_sor e3 = ctx_sor c" "cfm_rrb_gr e3 = ctx_rrb_gr c"
    "rnat e3 = (ctx_rnat c)\<lparr>rse_rnat_shadow_last := rse_rnat_shadow_last (rnat f)\<rparr>"
proof -
  define e1 where "e1 = f\<lparr>rse_pgr := ctx_pgr c, rse_pgr_nat := ctx_pgr_nat c, rse_gr_dirty := ctx_gr_dirty c, ar_bsp := ctx_bsp c,
                 ar_bspstore := ctx_bspstore c, rnat := (ctx_rnat c)\<lparr>rse_rnat_shadow_last := rse_rnat_shadow_last (rnat f)\<rparr>,
                 rse_bol := ctx_bol c, rse_dirty := ctx_dirty c, rse_dirty_nat := ctx_dirty_nat c, rse_clean := ctx_clean c,
                 rse_clean_nat := ctx_clean_nat c, rse_invalid := ctx_invalid c, cfm_sof := ctx_sof c, cfm_sol := ctx_sol c,
                 cfm_sor := ctx_sor c, cfm_rrb_gr := ctx_rrb_gr c\<rparr>"
  define e2 where "e2 = ia64_set_cfm_rrb_pr (ctx_rrb_pr c) (ia64_set_cfm_rrb_fr (ctx_rrb_fr c) e1)"
  define e3 where "e3 = e2\<lparr>rse_cfle := ctx_cfle c, rse_access := False, rse_completion_pending := ctx_pending c,
               rse_completion_demoted := ctx_demoted c, rse_completion_psr := ctx_psr c,
               rse_completion_source_ip := ctx_source_ip c, rse_completion_source_slot := ctx_source_slot c\<rparr>"
  have r: "ia64_rse_restore_context c f = ia64_rse_sync_frame_in e3"
    unfolding ia64_rse_restore_context_def Let_def e1_def [symmetric] e2_def [symmetric] e3_def [symmetric] ..
  have "rse_core e2 = rse_core e1" "rnat e2 = rnat e1" by (simp_all add: e2_def set_cfm_rrb_rnat)
  note k = rse_coreD [OF this(1)] this(2)
  show thesis by (rule that [OF r]) (simp_all add: e3_def k partitions_def, simp_all add: e1_def)
qed

text \<open>
  C10: Saving a consistent register stack and restoring it over any other state of the processor gives the frame
  back with every value and NaT bit, the partitions, the pointers, and what is known of every NaT collection.
\<close>

theorem context_roundtrip:
  fixes f :: env
  assumes good: "rse_good e" and cd: "0 \<le> rse_dirty e \<or> rse_clean e = 0" and nok: "shadow_ok (rnat e)"
  defines "h \<equiv> ia64_rse_restore_context (fst (ia64_rse_save_context e)) f"
  shows "frame_view h = frame_view e \<and> partitions h = partitions e \<and> rnat_known (rnat h) = rnat_known (rnat e)"
proof -
  define s where "s = ia64_rse_sync_frame_out e"
  obtain x y where xy: "s = e\<lparr>rse_gr_dirty := (0, 0), rse_pgr := x, rse_pgr_nat := y\<rparr>"
    using sync_out_stack(4) [OF good cd, folded s_def] by blast
  obtain e3 where h: "h = ia64_rse_sync_frame_in e3" and f3: "rse_pgr e3 = x" "rse_pgr_nat e3 = y" "cfm_sof e3 = cfm_sof e" "cfm_sol e3 = cfm_sol e"
    "cfm_sor e3 = cfm_sor e" "cfm_rrb_gr e3 = cfm_rrb_gr e" "rnat e3 = (rnat e)\<lparr>rse_rnat_shadow_last := rse_rnat_shadow_last (rnat f)\<rparr>"
    and p3: "partitions e3 = partitions e"
    by (rule restored_state [of "fst (ia64_rse_save_context e)" f, folded h_def])
      (simp add: ia64_rse_save_context_def Let_def s_def [symmetric] xy partitions_def)
  have b3: "rse_bol e3 = rse_bol e" using p3 by (simp add: partitions_def)
  have "frame_ok e" using good by (simp add: rse_good_def rse_inv_def)
  then have "frame_ok e3" by (simp add: frame_ok_def f3 b3)
  from sync_frame_in [OF this] obtain g n where hg: "h = e3\<lparr>gr := g, nat_bits := n, rse_gr_dirty := (0, 0)\<rparr>"
    and v: "\<And>u. u < cfm_sof e \<Longrightarrow> gr h (32 + u) = x (ia64_rse_virt_to_phys e3 u) \<and> bits2_get (nat_bits h) (32 + u) = bits2_get y (ia64_rse_virt_to_phys e3 u)"
    unfolding frame_in_step_def h [symmetric] f3 by blast
  have vp: "ia64_rse_virt_to_phys e3 = ia64_rse_virt_to_phys e" by (rule ext, rule virt_to_phys_frame_cong) (simp_all add: f3 b3)
  have "gr h (32 + u) = gr e (32 + u) \<and> bits2_get (nat_bits h) (32 + u) = bits2_get (nat_bits e) (32 + u)" if "u < cfm_sof e" for u
    using v [OF that] synced_register [OF good cd that, folded s_def] by (simp add: vp xy)
  then have "frame_view h = frame_view e" by (auto simp: frame_view_def fun_eq_iff hg f3)
  moreover have "partitions h = partitions e" using p3 by (simp add: hg partitions_def)
  moreover have "shadow_map (rnat h) = shadow_map (rnat e)" by (rule shadow_same_table(2) [OF nok]) (simp_all add: hg f3)
  then have "rnat_known (rnat h) = rnat_known (rnat e)"
    by (simp add: fun_eq_iff rnat_known_def load_view_def spill_view_def shadow_view_def hg f3)
  ultimately show ?thesis by blast
qed

theorem context_roundtrip_witness:
  "frame_view (ia64_rse_restore_context (fst (ia64_rse_save_context framed_cpu)) (env_zero True (\<lambda>_. 5))) = frame_view framed_cpu"
proof -
  have "shadow_ok (rnat framed_cpu)" by (simp add: framed_cpu_def env_zero_def rnat_state_zero_def shadow_ok_def)
  then show ?thesis using context_roundtrip [OF framed_cpu_good(1), of "env_zero True (\<lambda>_. 5)"] framed_cpu_good(3) by blast
qed

end
