(* ===== verification/Iosapic.thy ===== *)
theory Iosapic
  imports Sapic
begin

text \<open>
  The I/O SAPIC of \<^verbatim>\<open>hw/ia64/ia64_iosapic.c\<close>: 24 interrupt pins, each with a redirection table entry that turns a
  level or an edge on the pin into a message to the Local SAPIC of a processor.  The state of the device goes together with
  the processors it sends to, in the order of \<^verbatim>\<open>CPU_FOREACH\<close>.
\<close>

unbundle bit_operations_syntax

section \<open>The device\<close>

abbreviation (input) RTE_VECTOR_MASK :: u64 where "RTE_VECTOR_MASK \<equiv> 0xff"
abbreviation (input) RTE_DELIVERY_MODE :: u64 where "RTE_DELIVERY_MODE \<equiv> 0x700"
abbreviation (input) RTE_REMOTE_IRR :: u64 where "RTE_REMOTE_IRR \<equiv> 0x4000"
abbreviation (input) RTE_TRIGGER_LEVEL :: u64 where "RTE_TRIGGER_LEVEL \<equiv> 0x8000"
abbreviation (input) RTE_MASKED :: u64 where "RTE_MASKED \<equiv> 0x10000"
abbreviation (input) RTE_RO_BITS :: u64 where "RTE_RO_BITS \<equiv> 0x5000"
abbreviation (input) RTE_WRITABLE :: u64 where "RTE_WRITABLE \<equiv> 0xffff00000001a7ff"

abbreviation (input) IA64_IOSAPIC_NUM_PINS :: nat where "IA64_IOSAPIC_NUM_PINS \<equiv> 24"

record iosapic =
  rte :: "nat \<Rightarrow> u64"
  irq_level :: "nat \<Rightarrow> bool"
  reg_select :: u32

type_synonym iosapic_system = "iosapic \<times> env list"

text \<open>The encoding of a delivery mode; the values that the enumeration leaves out are refused by the Local SAPIC.\<close>

definition sapic_delivery_mode_of :: "nat \<Rightarrow> sapic_delivery_mode" where
  "sapic_delivery_mode_of n =
     (if n = 0 then IA64_SAPIC_DELIVERY_INT else if n = 1 then IA64_SAPIC_DELIVERY_INT_REDIRECT
      else if n = 2 then IA64_SAPIC_DELIVERY_PMI else if n = 4 then IA64_SAPIC_DELIVERY_NMI
      else if n = 5 then IA64_SAPIC_DELIVERY_INIT else if n = 7 then IA64_SAPIC_DELIVERY_EXTINT
      else IA64_SAPIC_DELIVERY_RESERVED)"

definition set_rte :: "nat \<Rightarrow> u64 \<Rightarrow> iosapic \<Rightarrow> iosapic" where
  "set_rte pin v s = s\<lparr>rte := (rte s)(pin := v)\<rparr>"

text \<open>The message of an entry.\<close>

definition rte_send :: "u64 \<Rightarrow> env list \<Rightarrow> bool \<times> env list" where
  "rte_send r cpus =
     (let delivery = sapic_delivery_mode_of (unat (drop_bit 8 (r AND RTE_DELIVERY_MODE)));
          sid = unat (drop_bit 56 r);
          eid = unat (drop_bit 48 r AND 0xff)
      in ia64_sapic_deliver IA64_SAPIC_DESTINATION_PHYSICAL sid eid False delivery (unat (r AND RTE_VECTOR_MASK)) cpus)"

definition iosapic_update :: "nat \<Rightarrow> iosapic_system \<Rightarrow> iosapic_system" where
  "iosapic_update pin = (\<lambda>(s, cpus).
     let r = rte s pin;
         masked = (r AND RTE_MASKED \<noteq> 0);
         level_triggered = (r AND RTE_TRIGGER_LEVEL \<noteq> 0)
     in if masked \<or> level_triggered \<and> \<not> irq_level s pin then (s, cpus)
        else if level_triggered \<and> r AND RTE_REMOTE_IRR \<noteq> 0 then (s, cpus)
        else
          let s1 = (if level_triggered then set_rte pin (r OR RTE_REMOTE_IRR) s else s);
              (accepted, cpus1) = rte_send r cpus
          in (if \<not> accepted \<and> level_triggered then set_rte pin (rte s1 pin AND NOT RTE_REMOTE_IRR) s1 else s1, cpus1))"

definition iosapic_fix_edge_remote_irr :: "nat \<Rightarrow> iosapic \<Rightarrow> iosapic" where
  "iosapic_fix_edge_remote_irr pin s =
     (if rte s pin AND RTE_TRIGGER_LEVEL = 0 then set_rte pin (rte s pin AND NOT RTE_REMOTE_IRR) s else s)"

definition iosapic_rte_write :: "nat \<Rightarrow> u32 \<Rightarrow> bool \<Rightarrow> iosapic_system \<Rightarrow> iosapic_system" where
  "iosapic_rte_write pin val high = (\<lambda>(s, cpus).
     let ro_bits = rte s pin AND RTE_RO_BITS;
         r1 = (if high then (rte s pin AND 0xFFFFFFFF) OR push_bit 32 (ucast val)
               else (rte s pin AND 0xFFFFFFFF00000000) OR ucast val);
         s1 = set_rte pin ((r1 AND RTE_WRITABLE) OR ro_bits) s;
         s2 = iosapic_fix_edge_remote_irr pin s1
     in if rte s2 pin AND RTE_TRIGGER_LEVEL \<noteq> 0 then iosapic_update pin (s2, cpus) else (s2, cpus))"

definition iosapic_eoi_pin :: "u8 \<Rightarrow> nat \<Rightarrow> iosapic_system \<Rightarrow> iosapic_system" where
  "iosapic_eoi_pin vector pin = (\<lambda>(s, cpus).
     if rte s pin AND RTE_VECTOR_MASK \<noteq> ucast vector \<or> rte s pin AND RTE_TRIGGER_LEVEL = 0 then (s, cpus)
     else if rte s pin AND RTE_REMOTE_IRR = 0 then (s, cpus)
     else iosapic_update pin (set_rte pin (rte s pin AND NOT RTE_REMOTE_IRR) s, cpus))"

definition iosapic_eoi :: "u8 \<Rightarrow> iosapic_system \<Rightarrow> iosapic_system" where
  "iosapic_eoi vector st = fold (iosapic_eoi_pin vector) [0..<IA64_IOSAPIC_NUM_PINS] st"

definition iosapic_irq_handler :: "int \<Rightarrow> bool \<Rightarrow> iosapic_system \<Rightarrow> iosapic_system" where
  "iosapic_irq_handler n level = (\<lambda>(s, cpus).
     if n < 0 \<or> n \<ge> int IA64_IOSAPIC_NUM_PINS then (s, cpus)
     else
       let pin = nat n;
           old_level = irq_level s pin;
           s1 = s\<lparr>irq_level := (irq_level s)(pin := level)\<rparr>;
           level_triggered = (rte s pin AND RTE_TRIGGER_LEVEL \<noteq> 0)
       in if level \<and> (level_triggered \<or> \<not> old_level) then iosapic_update pin (s1, cpus) else (s1, cpus))"

definition iosapic_read :: "u64 \<Rightarrow> iosapic \<Rightarrow> u32" where
  "iosapic_read addr s =
     (if addr = 0 then reg_select s
      else if addr = 0x10 then
        let index = unat (reg_select s) in
        if index = 0 then 0
        else if index = 1 then 0x170011
        else if index \<ge> 0x10 \<and> index < 0x10 + IA64_IOSAPIC_NUM_PINS * 2 then
          let pin = (index - 0x10) div 2
          in if (index - 0x10) mod 2 = 1 then ucast (drop_bit 32 (rte s pin)) else ucast (rte s pin)
        else 0
      else 0)"

definition iosapic_write :: "u64 \<Rightarrow> u64 \<Rightarrow> iosapic_system \<Rightarrow> iosapic_system" where
  "iosapic_write addr val = (\<lambda>(s, cpus).
     if addr = 0 then (s\<lparr>reg_select := ucast val\<rparr>, cpus)
     else if addr = 0x10 then
       let index = unat (reg_select s) in
       if index = 0 then (s, cpus)
       else if index \<ge> 0x10 \<and> index < 0x10 + IA64_IOSAPIC_NUM_PINS * 2
       then iosapic_rte_write ((index - 0x10) div 2) (ucast val) ((index - 0x10) mod 2 = 1) (s, cpus)
       else (s, cpus)
     else if addr = 0x40 then iosapic_eoi (ucast val) (s, cpus)
     else (s, cpus))"

definition iosapic_reset :: iosapic where
  "iosapic_reset = \<lparr>rte = (\<lambda>_. RTE_MASKED), irq_level = (\<lambda>_. False), reg_select = 0\<rparr>"

definition iosapic_post_load_pin :: "nat \<Rightarrow> iosapic_system \<Rightarrow> iosapic_system" where
  "iosapic_post_load_pin pin = (\<lambda>(s, cpus).
     let s1 = set_rte pin (rte s pin AND (RTE_WRITABLE OR RTE_RO_BITS)) s
     in if rte s1 pin AND RTE_TRIGGER_LEVEL \<noteq> 0 then iosapic_update pin (s1, cpus) else (s1, cpus))"

definition iosapic_post_load :: "iosapic_system \<Rightarrow> iosapic_system" where
  "iosapic_post_load st = fold iosapic_post_load_pin [0..<IA64_IOSAPIC_NUM_PINS] st"

section \<open>Messages\<close>

text \<open>What the device relies on: sending a message changes no Local SAPIC identity and withdraws no request.\<close>

definition same_lids :: "env list \<Rightarrow> env list \<Rightarrow> bool" where
  "same_lids cpus cpus' \<longleftrightarrow> length cpus' = length cpus \<and>
     (\<forall>i<length cpus. cr (cpus' ! i) IA64_CR_SAPIC_LID = cr (cpus ! i) IA64_CR_SAPIC_LID)"

definition requests_kept :: "env list \<Rightarrow> env list \<Rightarrow> bool" where
  "requests_kept cpus cpus' \<longleftrightarrow> (\<forall>i<length cpus. \<forall>v.
     sapic_vector_active (sapic_irr (intr (cpus ! i))) v \<longrightarrow> sapic_vector_active (sapic_irr (intr (cpus' ! i))) v)"

lemma same_lids_refl [simp]: "same_lids cpus cpus"
  by (simp add: same_lids_def)

lemma requests_kept_refl [simp]: "requests_kept cpus cpus"
  by (simp add: requests_kept_def)

lemma same_lids_trans: "same_lids a b \<Longrightarrow> same_lids b c \<Longrightarrow> same_lids a c"
  by (simp add: same_lids_def)

lemma requests_kept_trans: "requests_kept a b \<Longrightarrow> same_lids a b \<Longrightarrow> requests_kept b c \<Longrightarrow> requests_kept a c"
  by (simp add: requests_kept_def same_lids_def)

lemma lookup_same_lids: "same_lids cpus cpus' \<Longrightarrow> ia64_cpu_by_sapic_id sid eid cpus' = ia64_cpu_by_sapic_id sid eid cpus"
  unfolding ia64_cpu_by_sapic_id_def same_lids_def by (auto intro!: find_cong)

lemma work_fields:
  "cr (ia64_sapic_set_special_work p v e) = cr e" "sapic_irr (intr (ia64_sapic_set_special_work p v e)) = sapic_irr (intr e)"
  "cr (ia64_sapic_set_irq_work v e) = cr e"
  "sapic_irr (intr (ia64_sapic_set_irq_work v e)) = bitmap_set v (sapic_irr (intr e))"
  by (simp_all add: ia64_sapic_set_special_work_def ia64_sapic_set_irq_work_def update_interrupt_fields)

lemma nth_update_at: "j < length xs \<Longrightarrow> xs[i := x] ! j = (if i = j then x else xs ! j)"
  by simp

lemma deliver_to_kept:
  "same_lids cpus (sapic_deliver_to i d v cpus)" "requests_kept cpus (sapic_deliver_to i d v cpus)"
  by (auto simp: same_lids_def requests_kept_def sapic_deliver_to_def nth_update_at work_fields bitmap_set_active)

lemma send_kept:
  assumes "rte_send r cpus = (a, cpus')"
  shows "same_lids cpus cpus'" "requests_kept cpus cpus'"
  using assms deliver_to_kept unfolding rte_send_def ia64_sapic_deliver_def Let_def
  by (auto split: if_splits option.splits)

lemma send_same_lids: "same_lids cpus cpus' \<Longrightarrow> fst (rte_send r cpus') = fst (rte_send r cpus)"
  by (simp add: rte_send_def ia64_sapic_deliver_def Let_def lookup_same_lids split: option.split)

text \<open>Remote IRR takes no part in the other fields of an entry.\<close>

lemma remote_irr_set:
  "(r OR RTE_REMOTE_IRR) AND RTE_REMOTE_IRR \<noteq> 0" "(r OR RTE_REMOTE_IRR) AND RTE_TRIGGER_LEVEL = r AND RTE_TRIGGER_LEVEL"
  "(r OR RTE_REMOTE_IRR) AND RTE_MASKED = r AND RTE_MASKED" "(r OR RTE_REMOTE_IRR) AND RTE_VECTOR_MASK = r AND RTE_VECTOR_MASK"
  "rte_send (r OR RTE_REMOTE_IRR) = rte_send r"
  by (simp_all add: bit.conj_disj_distrib2 rte_send_def fun_eq_iff)

lemma drop_56_byte: "drop_bit 56 r AND 255 = drop_bit 56 (r :: u64)"
proof -
  have m: "(255 :: u64) = mask 8" by (simp add: mask_eq_exp_minus_1)
  show ?thesis unfolding m
    by (intro bit_word_eqI) (auto simp: bit_and_iff bit_mask_iff bit_drop_bit_eq dest: bit_word_lt_length)
qed

lemma remote_irr_clear:
  "(r AND NOT RTE_REMOTE_IRR) AND RTE_REMOTE_IRR = 0"
  "(r AND NOT RTE_REMOTE_IRR) AND RTE_TRIGGER_LEVEL = r AND RTE_TRIGGER_LEVEL"
  "(r AND NOT RTE_REMOTE_IRR) AND RTE_MASKED = r AND RTE_MASKED"
  "(r AND NOT RTE_REMOTE_IRR) AND RTE_VECTOR_MASK = r AND RTE_VECTOR_MASK"
  "rte_send (r AND NOT RTE_REMOTE_IRR) = rte_send r"
  by (simp_all add: and.assoc rte_send_def fun_eq_iff drop_56_byte)

lemma remote_irr_bit: "r AND RTE_REMOTE_IRR \<noteq> 0 \<longleftrightarrow> bit r 14" "bit RTE_REMOTE_IRR k \<longleftrightarrow> k = 14"
proof -
  have m: "RTE_REMOTE_IRR = 2 ^ 14" by simp
  show "r AND RTE_REMOTE_IRR \<noteq> 0 \<longleftrightarrow> bit r 14" unfolding m and_exp_eq_0_iff_not_bit by (rule not_not)
  show "bit RTE_REMOTE_IRR k \<longleftrightarrow> k = 14" unfolding m by (auto simp only: bit_exp_iff) simp_all
qed

lemma remote_irr_toggle:
  "(r OR RTE_REMOTE_IRR) AND NOT RTE_REMOTE_IRR = r AND NOT RTE_REMOTE_IRR"
  "r AND RTE_REMOTE_IRR \<noteq> 0 \<Longrightarrow> (r AND NOT RTE_REMOTE_IRR) OR RTE_REMOTE_IRR = r"
  "r AND RTE_REMOTE_IRR \<noteq> 0 \<Longrightarrow> r OR RTE_REMOTE_IRR = r"
  "r AND RTE_REMOTE_IRR = 0 \<Longrightarrow> r AND NOT RTE_REMOTE_IRR = r"
  using remote_irr_bit(1) [of r]
  by (intro bit_word_eqI; auto simp only: bit_or_iff bit_and_not_word remote_irr_bit(2))+

section \<open>No level interrupt is lost\<close>

text \<open>
  What a device sees: its input lines, the accesses of the processors, a reset, a restored snapshot of its own state, and
  anything the processors do by themselves that leaves their Local SAPIC identities alone.
\<close>

inductive iosapic_step :: "iosapic_system \<Rightarrow> iosapic_system \<Rightarrow> bool" where
  input_line: "iosapic_step st (iosapic_irq_handler n level st)"
| register_write: "iosapic_step st (iosapic_write addr val st)"
| snapshot: "iosapic_step st (iosapic_post_load st)"
| device_reset: "iosapic_step (s, cpus) (iosapic_reset, cpus)"
| processors: "same_lids cpus cpus' \<Longrightarrow> iosapic_step (s, cpus) (s, cpus')"

inductive iosapic_reachable :: "iosapic_system \<Rightarrow> bool" where
  initial: "iosapic_reachable (iosapic_reset, cpus)"
| step: "iosapic_reachable st \<Longrightarrow> iosapic_step st st' \<Longrightarrow> iosapic_reachable st'"

text \<open>The fields an entry may hold, and what a pin promises.\<close>

definition rte_ok :: "u64 \<Rightarrow> bool" where
  "rte_ok r \<longleftrightarrow> r AND NOT (RTE_WRITABLE OR RTE_REMOTE_IRR) = 0 \<and> (r AND RTE_TRIGGER_LEVEL = 0 \<longrightarrow> r AND RTE_REMOTE_IRR = 0)"

definition level_request :: "iosapic \<Rightarrow> nat \<Rightarrow> bool" where
  "level_request s pin \<longleftrightarrow> irq_level s pin \<and> rte s pin AND RTE_TRIGGER_LEVEL \<noteq> 0 \<and> rte s pin AND RTE_MASKED = 0"

definition pin_ok :: "iosapic_system \<Rightarrow> nat \<Rightarrow> bool" where
  "pin_ok = (\<lambda>(s, cpus) pin. rte_ok (rte s pin) \<and>
     (level_request s pin \<and> fst (rte_send (rte s pin) cpus) \<longrightarrow> rte s pin AND RTE_REMOTE_IRR \<noteq> 0))"

text \<open>What an operation on one pin leaves alone.\<close>

definition only_pin :: "nat \<Rightarrow> iosapic_system \<Rightarrow> iosapic_system \<Rightarrow> bool" where
  "only_pin pin = (\<lambda>(s, cpus) (s', cpus'). (\<forall>p. p \<noteq> pin \<longrightarrow> rte s' p = rte s p \<and> irq_level s' p = irq_level s p) \<and>
     same_lids cpus cpus' \<and> requests_kept cpus cpus')"

lemma only_pin_ok: "only_pin pin st st' \<Longrightarrow> p \<noteq> pin \<Longrightarrow> pin_ok st p \<Longrightarrow> pin_ok st' p"
  by (auto simp: only_pin_def pin_ok_def level_request_def send_same_lids split: prod.splits)

lemma rte_ok_set: "rte_ok r \<Longrightarrow> r AND RTE_TRIGGER_LEVEL \<noteq> 0 \<Longrightarrow> rte_ok (r OR RTE_REMOTE_IRR)"
  by (simp add: rte_ok_def remote_irr_set bit.conj_disj_distrib2)

lemma rte_ok_clear: "r AND NOT (RTE_WRITABLE OR RTE_REMOTE_IRR) = 0 \<Longrightarrow> rte_ok (r AND NOT RTE_REMOTE_IRR)"
  by (simp only: rte_ok_def remote_irr_clear) (simp add: ac_simps)

text \<open>The value of the entry after an evaluation of its pin.\<close>

lemma update_result:
  assumes "iosapic_update pin (s, cpus) = (s', cpus')"
  shows "rte s' = (rte s)(pin := (if level_request s pin \<and> fst (rte_send (rte s pin) cpus) then rte s pin OR RTE_REMOTE_IRR
      else rte s pin))"
    and "irq_level s' = irq_level s" and "reg_select s' = reg_select s"
    and "cpus' = (if rte s pin AND RTE_MASKED \<noteq> 0 \<or> rte s pin AND RTE_TRIGGER_LEVEL \<noteq> 0 \<and>
      (\<not> irq_level s pin \<or> rte s pin AND RTE_REMOTE_IRR \<noteq> 0) then cpus else snd (rte_send (rte s pin) cpus))"
proof -
  let ?r = "rte s pin"
  have t: "?r AND RTE_REMOTE_IRR \<noteq> 0 \<Longrightarrow> ?r OR RTE_REMOTE_IRR = ?r"
    "?r AND RTE_REMOTE_IRR = 0 \<Longrightarrow> (?r OR RTE_REMOTE_IRR) AND NOT RTE_REMOTE_IRR = ?r"
    using remote_irr_toggle [of ?r] by simp_all
  obtain a c where send: "rte_send ?r cpus = (a, c)" by (rule prod.exhaust)
  note u = assms [unfolded iosapic_update_def prod.case Let_def send set_rte_def]
  show "rte s' = (rte s)(pin := (if level_request s pin \<and> fst (rte_send ?r cpus) then ?r OR RTE_REMOTE_IRR else ?r))"
    using u t by (auto simp: level_request_def send split: if_splits)
  show "irq_level s' = irq_level s" "reg_select s' = reg_select s"
    using u by (auto split: if_splits)
  show "cpus' = (if ?r AND RTE_MASKED \<noteq> 0 \<or> ?r AND RTE_TRIGGER_LEVEL \<noteq> 0 \<and>
      (\<not> irq_level s pin \<or> ?r AND RTE_REMOTE_IRR \<noteq> 0) then cpus else snd (rte_send ?r cpus))"
    using u by (auto simp: send split: if_splits)
qed

lemma update_only: "only_pin pin st (iosapic_update pin st)"
proof -
  obtain s cpus s' cpus' where p: "st = (s, cpus)" "iosapic_update pin (s, cpus) = (s', cpus')" by (metis prod.exhaust)
  note u = update_result [OF p(2)]
  obtain a c where send: "rte_send (rte s pin) cpus = (a, c)" by (rule prod.exhaust)
  have "same_lids cpus cpus' \<and> requests_kept cpus cpus'"
    using send_kept [OF send] unfolding u(4) send by simp
  then show ?thesis using u(1,2) by (simp add: only_pin_def p)
qed

lemma update_ok:
  assumes "rte_ok (rte s pin)"
  shows "pin_ok (iosapic_update pin (s, cpus)) pin"
proof -
  obtain s' cpus' where p: "iosapic_update pin (s, cpus) = (s', cpus')" by (rule prod.exhaust)
  have l: "same_lids cpus cpus'" using update_only [of pin "(s, cpus)"] by (simp add: only_pin_def p)
  note u = update_result [OF p]
  show ?thesis
  proof (cases "level_request s pin \<and> fst (rte_send (rte s pin) cpus)")
    case True
    then have "rte s' pin = rte s pin OR RTE_REMOTE_IRR" "rte s pin AND RTE_TRIGGER_LEVEL \<noteq> 0"
      using u(1) by (simp_all add: level_request_def)
    then show ?thesis using rte_ok_set [OF assms] remote_irr_set(1) [of "rte s pin"] by (simp add: p pin_ok_def)
  next
    case False
    then have "rte s' pin = rte s pin" unfolding u(1) by (simp only: if_False fun_upd_same)
    then show ?thesis using False assms u(2) send_same_lids [OF l] by (auto simp: p pin_ok_def level_request_def)
  qed
qed

text \<open>An operation that works on one pin at a time, and a sweep of it over several pins.\<close>

locale pin_operation =
  fixes on_pin :: "nat \<Rightarrow> iosapic_system \<Rightarrow> iosapic_system"
  assumes only: "only_pin pin st (on_pin pin st)"
    and established: "pin_ok st pin \<Longrightarrow> pin_ok (on_pin pin st) pin"
begin

lemma keeps: "\<forall>p<n. pin_ok st p \<Longrightarrow> \<forall>p<n. pin_ok (on_pin pin st) p"
proof (intro allI impI)
  fix p
  assume "\<forall>p<n. pin_ok st p" "p < n"
  then have ok: "pin_ok st p" by simp
  show "pin_ok (on_pin pin st) p"
  proof (cases "p = pin")
    case True
    then show ?thesis using established [of st pin] ok by simp
  next
    case False
    then show ?thesis by (rule only_pin_ok [OF only _ ok])
  qed
qed

lemma sweep: "\<forall>p<n. pin_ok st p \<Longrightarrow> \<forall>p<n. pin_ok (fold on_pin pins st) p"
proof (induction pins arbitrary: st)
  case (Cons pin pins)
  show ?case using Cons.IH [OF keeps [OF Cons.prems]] by simp
qed simp

lemma sweep_apart:
  "pin \<notin> set pins \<Longrightarrow> rte (fst (fold on_pin pins st)) pin = rte (fst st) pin \<and>
    irq_level (fst (fold on_pin pins st)) pin = irq_level (fst st) pin \<and>
    same_lids (snd st) (snd (fold on_pin pins st)) \<and> requests_kept (snd st) (snd (fold on_pin pins st))"
proof (induction pins arbitrary: st)
  case (Cons p pins)
  have one: "\<forall>q. q \<noteq> p \<longrightarrow> rte (fst (on_pin p st)) q = rte (fst st) q \<and> irq_level (fst (on_pin p st)) q = irq_level (fst st) q"
    "same_lids (snd st) (snd (on_pin p st))" "requests_kept (snd st) (snd (on_pin p st))"
    using only [of p st] by (simp_all add: only_pin_def split: prod.splits)
  have "pin \<noteq> p" "pin \<notin> set pins" using Cons.prems by simp_all
  with one Cons.IH [of "on_pin p st"] show ?case
    using same_lids_trans [OF one(2)] requests_kept_trans [OF one(3,2)] by simp
qed simp

text \<open>What a sweep does at a pin is what the operation does there.\<close>

lemma sweep_at:
  assumes "pin < n"
  obtains st1 st2 where "rte (fst st1) pin = rte (fst st) pin" "irq_level (fst st1) pin = irq_level (fst st) pin"
    "same_lids (snd st) (snd st1)" "st2 = on_pin pin st1"
    "rte (fst (fold on_pin [0..<n] st)) pin = rte (fst st2) pin"
    "requests_kept (snd st2) (snd (fold on_pin [0..<n] st))"
proof -
  have split: "[0..<n] = [0..<pin] @ pin # [Suc pin..<n]"
    using assms upt_add_eq_append [of 0 pin "n - pin"] upt_conv_Cons [of pin n] by simp
  let ?st1 = "fold on_pin [0..<pin] st"
  let ?st2 = "on_pin pin ?st1"
  have "fold on_pin [0..<n] st = fold on_pin [Suc pin..<n] ?st2" unfolding split by simp
  then show thesis
    using that [of ?st1 ?st2] sweep_apart [of pin "[0..<pin]" st] sweep_apart [of pin "[Suc pin..<n]" ?st2] by simp
qed

end

lemma only_pin_refl: "only_pin pin st st"
  by (simp add: only_pin_def split: prod.split)

lemma only_pin_set: "only_pin pin (s, cpus) (set_rte pin v s, cpus)"
  by (simp add: only_pin_def set_rte_def)

lemma only_pin_update: "only_pin pin st (s, cpus) \<Longrightarrow> only_pin pin st (iosapic_update pin (s, cpus))"
  using update_only [of pin "(s, cpus)"]
  by (auto simp: only_pin_def elim: same_lids_trans requests_kept_trans split: prod.splits)

lemma set_rte_pin [simp]: "rte (set_rte pin v s) pin = v"
  by (simp add: set_rte_def)

text \<open>The pin is good after an edge entry is stored, and after a level entry is stored and evaluated.\<close>

lemma edge_ok: "rte_ok (rte s pin) \<Longrightarrow> rte s pin AND RTE_TRIGGER_LEVEL = 0 \<Longrightarrow> pin_ok (s, cpus) pin"
  by (simp add: pin_ok_def level_request_def)

lemma pin_ok_rte: "pin_ok (s, cpus) pin \<Longrightarrow> rte_ok (rte s pin)"
  by (simp add: pin_ok_def)

lemma rte_ok_bits: "rte_ok r \<Longrightarrow> r AND NOT (RTE_WRITABLE OR RTE_REMOTE_IRR) = 0"
  by (simp only: rte_ok_def)

interpretation eoi_op: pin_operation "iosapic_eoi_pin vector"
proof
  fix pin :: nat and st :: iosapic_system
  obtain s cpus where st: "st = (s, cpus)" by (rule prod.exhaust)
  show "only_pin pin st (iosapic_eoi_pin vector pin st)"
    by (auto simp only: st iosapic_eoi_pin_def prod.case intro: only_pin_refl only_pin_update only_pin_set split: if_split)
  assume ok: "pin_ok st pin"
  then have "rte_ok (rte s pin AND NOT RTE_REMOTE_IRR)"
    by (intro rte_ok_clear rte_ok_bits) (simp only: st pin_ok_rte)
  then have "pin_ok (iosapic_update pin (set_rte pin (rte s pin AND NOT RTE_REMOTE_IRR) s, cpus)) pin"
    by (intro update_ok) (simp only: set_rte_pin)
  then show "pin_ok (iosapic_eoi_pin vector pin st) pin"
    using ok by (simp only: st iosapic_eoi_pin_def prod.case split: if_split) blast
qed

lemma and_not_0_bits: "(r :: u64) AND NOT m = 0 \<Longrightarrow> bit r n \<Longrightarrow> bit m n"
  using bit_and_not_word [of r m n] by auto

lemma and_superset:
  fixes r m k :: u64
  assumes "r AND NOT m = 0" "m AND k = m"
  shows "r AND k = r"
proof (rule bit_word_eqI)
  fix n
  have "bit m n \<Longrightarrow> bit k n" using assms(2) by (metis bit_and_iff)
  then show "bit (r AND k) n = bit r n" using and_not_0_bits [OF assms(1), of n] by (auto simp: bit_and_iff)
qed

lemma rte_ok_masked: "rte_ok r \<Longrightarrow> r AND (RTE_WRITABLE OR RTE_RO_BITS) = r"
  by (rule and_superset [OF rte_ok_bits]) simp_all

interpretation post_load_op: pin_operation iosapic_post_load_pin
proof
  fix pin :: nat and st :: iosapic_system
  obtain s cpus where st: "st = (s, cpus)" by (rule prod.exhaust)
  show "only_pin pin st (iosapic_post_load_pin pin st)"
    by (auto simp only: st iosapic_post_load_pin_def prod.case Let_def intro: only_pin_update only_pin_set split: if_split)
  assume "pin_ok st pin"
  then have r: "rte_ok (rte s pin)" by (simp only: st pin_ok_rte)
  let ?s = "set_rte pin (rte s pin) s"
  have "pin_ok (iosapic_update pin (?s, cpus)) pin" using r by (intro update_ok) simp
  moreover have "rte ?s pin AND RTE_TRIGGER_LEVEL = 0 \<Longrightarrow> pin_ok (?s, cpus) pin" using r by (intro edge_ok) simp_all
  ultimately show "pin_ok (iosapic_post_load_pin pin st) pin"
    by (simp only: st iosapic_post_load_pin_def prod.case Let_def rte_ok_masked [OF r] split: if_split) blast
qed

lemma rte_merge_ok:
  assumes "rte_ok r"
  shows "((v AND RTE_WRITABLE) OR (r AND RTE_RO_BITS)) AND NOT (RTE_WRITABLE OR RTE_REMOTE_IRR) = 0"
proof (rule bit_word_eqI)
  fix n
  have "bit r n \<Longrightarrow> bit RTE_RO_BITS n \<Longrightarrow> bit (RTE_WRITABLE OR RTE_REMOTE_IRR) n"
    using and_not_0_bits [OF rte_ok_bits [OF assms]] by blast
  then show "bit (((v AND RTE_WRITABLE) OR (r AND RTE_RO_BITS)) AND NOT (RTE_WRITABLE OR RTE_REMOTE_IRR)) n = bit (0 :: u64) n"
    unfolding bit_and_not_word by (auto simp only: bit_or_iff bit_and_iff bit_0_eq bot_apply bot_bool_def)
qed

lemma fix_edge_ok:
  assumes "rte s pin AND NOT (RTE_WRITABLE OR RTE_REMOTE_IRR) = 0"
  shows "rte_ok (rte (iosapic_fix_edge_remote_irr pin s) pin)"
  using rte_ok_clear [OF assms] assms
  by (simp only: iosapic_fix_edge_remote_irr_def set_rte_pin split: if_split) (simp only: rte_ok_def simp_thms, blast)

lemma fix_edge_only: "only_pin pin st (s, cpus) \<Longrightarrow> only_pin pin st (iosapic_fix_edge_remote_irr pin s, cpus)"
  by (auto simp: only_pin_def iosapic_fix_edge_remote_irr_def set_rte_def split: prod.splits)

interpretation rte_write_op: pin_operation "\<lambda>pin. iosapic_rte_write pin val high"
proof
  fix pin :: nat and st :: iosapic_system
  obtain s cpus where st: "st = (s, cpus)" by (rule prod.exhaust)
  show "only_pin pin st (iosapic_rte_write pin val high st)"
    by (simp only: st iosapic_rte_write_def prod.case Let_def split: if_split)
      (blast intro: only_pin_update fix_edge_only only_pin_set)
  assume "pin_ok st pin"
  then have r: "rte_ok (rte s pin)" by (simp only: st pin_ok_rte)
  note f = fix_edge_ok [of "set_rte pin ((v AND RTE_WRITABLE) OR (rte s pin AND RTE_RO_BITS)) s" pin for v,
      unfolded set_rte_pin, OF rte_merge_ok [OF r]]
  show "pin_ok (iosapic_rte_write pin val high st) pin"
    using update_ok [OF f] edge_ok [OF f]
    by (simp only: st iosapic_rte_write_def prod.case Let_def split: if_split) blast
qed

interpretation handler_op: pin_operation "\<lambda>pin. iosapic_irq_handler (int pin) level"
proof
  fix pin :: nat and st :: iosapic_system
  obtain s cpus where st: "st = (s, cpus)" by (rule prod.exhaust)
  let ?s = "s\<lparr>irq_level := (irq_level s)(pin := level)\<rparr>"
  have "only_pin pin st (?s, cpus)" by (simp add: only_pin_def st)
  then show "only_pin pin st (iosapic_irq_handler (int pin) level st)"
    by (auto simp: st iosapic_irq_handler_def Let_def intro: only_pin_refl only_pin_update)
  assume ok: "pin_ok st pin"
  then have r: "rte_ok (rte ?s pin)" by (simp add: st pin_ok_def)
  have "\<not> level \<Longrightarrow> pin_ok (?s, cpus) pin" using r by (simp add: pin_ok_def level_request_def)
  then show "pin_ok (iosapic_irq_handler (int pin) level st) pin"
    using ok update_ok [OF r] edge_ok [OF r] by (auto simp: st iosapic_irq_handler_def Let_def)
qed

lemma handler_int: "iosapic_irq_handler n level st = (if 0 \<le> n then iosapic_irq_handler (int (nat n)) level st else st)"
  by (simp add: iosapic_irq_handler_def split: prod.split)

lemma write_cases:
  obtains "iosapic_write addr val (s, cpus) = (s\<lparr>reg_select := ucast val\<rparr>, cpus)"
  | pin high where "pin < IA64_IOSAPIC_NUM_PINS" "iosapic_write addr val (s, cpus) = iosapic_rte_write pin (ucast val) high (s, cpus)"
  | "iosapic_write addr val (s, cpus) = iosapic_eoi (ucast val) (s, cpus)"
  | "iosapic_write addr val (s, cpus) = (s, cpus)"
proof -
  let ?i = "unat (reg_select s)"
  consider "addr = 0" | "addr = 0x10" "0x10 \<le> ?i" "?i < 0x10 + IA64_IOSAPIC_NUM_PINS * 2" | "addr = 0x40"
    | "addr \<noteq> 0" "addr \<noteq> 0x40" "\<not> (addr = 0x10 \<and> 0x10 \<le> ?i \<and> ?i < 0x10 + IA64_IOSAPIC_NUM_PINS * 2)" by blast
  then show thesis
  proof cases
    case 2
    then show thesis by (intro that(2) [of "(?i - 0x10) div 2" "(?i - 0x10) mod 2 = 1"]) (auto simp: iosapic_write_def Let_def)
  qed (auto simp: iosapic_write_def Let_def intro: that)
qed

lemma reachable_pins: "iosapic_reachable st \<Longrightarrow> \<forall>p<IA64_IOSAPIC_NUM_PINS. pin_ok st p"
proof (induction rule: iosapic_reachable.induct)
  have fresh: "pin_ok (iosapic_reset, cpus) p" for cpus p
    by (simp add: pin_ok_def rte_ok_def level_request_def iosapic_reset_def)
  {
    case (initial cpus)
    show ?case using fresh by blast
  next
    case (step st st')
    from step.hyps(2) step.IH show ?case
    proof (induction rule: iosapic_step.induct)
      case (input_line st n level)
      have "\<forall>p<IA64_IOSAPIC_NUM_PINS. pin_ok (iosapic_irq_handler (int (nat n)) level st) p"
        by (rule handler_op.keeps [OF input_line])
      then show ?case using input_line by (subst handler_int) (cases "0 \<le> n"; simp only: if_True if_False)
    next
      case (register_write st addr val)
      obtain s cpus where st: "st = (s, cpus)" by (rule prod.exhaust)
      note ok = register_write [unfolded st]
      show ?case unfolding st
      proof (cases rule: write_cases [of addr val s cpus])
        case 1
        then show "\<forall>p<IA64_IOSAPIC_NUM_PINS. pin_ok (iosapic_write addr val (s, cpus)) p"
          using ok by (simp add: pin_ok_def level_request_def)
      next
        case (2 pin high)
        show "\<forall>p<IA64_IOSAPIC_NUM_PINS. pin_ok (iosapic_write addr val (s, cpus)) p"
          unfolding 2(2) by (rule rte_write_op.keeps [OF ok])
      next
        case 3
        show "\<forall>p<IA64_IOSAPIC_NUM_PINS. pin_ok (iosapic_write addr val (s, cpus)) p"
          unfolding 3 iosapic_eoi_def by (rule eoi_op.sweep [OF ok])
      next
        case 4
        show "\<forall>p<IA64_IOSAPIC_NUM_PINS. pin_ok (iosapic_write addr val (s, cpus)) p" unfolding 4 by (rule ok)
      qed
    next
      case (snapshot st)
      then show ?case unfolding iosapic_post_load_def by (rule post_load_op.sweep)
    next
      case (device_reset s cpus)
      show ?case using fresh by blast
    next
      case (processors cpus cpus' s)
      then show ?case by (simp add: pin_ok_def send_same_lids)
    qed
  }
qed

text \<open>The fields of an entry as numbers, and when its message finds a processor.\<close>

definition rte_vector :: "u64 \<Rightarrow> nat" where
  "rte_vector r = unat r mod 256"

definition rte_mode :: "u64 \<Rightarrow> nat" where
  "rte_mode r = unat r div 256 mod 8"

definition rte_addressed :: "u64 \<Rightarrow> env list \<Rightarrow> nat \<Rightarrow> bool" where
  "rte_addressed r cpus i \<longleftrightarrow> addressed cpus (unat r div 2 ^ 56) (unat r div 2 ^ 48 mod 256) i"

definition routable :: "u64 \<Rightarrow> env list \<Rightarrow> bool" where
  "routable r cpus \<longleftrightarrow> message_valid (sapic_delivery_mode_of (rte_mode r)) (rte_vector r) \<and> (\<exists>i. rte_addressed r cpus i)"

lemma rte_fields:
  "unat (r AND RTE_VECTOR_MASK) = rte_vector r" "unat (drop_bit 8 (r AND RTE_DELIVERY_MODE)) = rte_mode r"
  "unat (drop_bit 56 r) = unat r div 2 ^ 56" "unat (drop_bit 48 r AND 0xff) = unat r div 2 ^ 48 mod 256"
proof -
  have b: "x AND 0xff = take_bit 8 x" for x :: u64 by (simp add: take_bit_eq_mask mask_eq_exp_minus_1)
  have m: "drop_bit 8 (r AND RTE_DELIVERY_MODE) = take_bit 3 (drop_bit 8 r)" by (simp add: take_bit_eq_mask mask_eq_exp_minus_1)
  have l: "unat r < 2 ^ 64" by (rule unat_u64_less)
  show "unat (r AND RTE_VECTOR_MASK) = rte_vector r"
    unfolding b rte_vector_def by (simp only: unsigned_take_bit_eq) (simp add: take_bit_eq_mod)
  show "unat (drop_bit 8 (r AND RTE_DELIVERY_MODE)) = rte_mode r"
    using l unfolding m rte_mode_def by (simp only: unsigned_take_bit_eq unsigned_drop_bit_eq) (simp add: take_bit_eq_mod drop_bit_eq_div)
  show "unat (drop_bit 56 r) = unat r div 2 ^ 56"
    using l by (simp only: unsigned_drop_bit_eq) (simp add: take_bit_eq_mod drop_bit_eq_div)
  show "unat (drop_bit 48 r AND 0xff) = unat r div 2 ^ 48 mod 256"
    using l unfolding b by (simp only: unsigned_take_bit_eq unsigned_drop_bit_eq) (simp add: take_bit_eq_mod drop_bit_eq_div)
qed

lemma dest_bytes: "unat (r :: u64) div 2 ^ 56 < 256" "unat r div 2 ^ 48 mod 256 < 256"
  using unat_u64_less [of r] by (simp_all add: less_mult_imp_div_less)

lemma rte_send_fields:
  "rte_send r = ia64_sapic_deliver IA64_SAPIC_DESTINATION_PHYSICAL (unat r div 2 ^ 56) (unat r div 2 ^ 48 mod 256) False
     (sapic_delivery_mode_of (rte_mode r)) (rte_vector r)"
proof (rule ext)
  fix cpus
  show "rte_send r cpus = ia64_sapic_deliver IA64_SAPIC_DESTINATION_PHYSICAL (unat r div 2 ^ 56) (unat r div 2 ^ 48 mod 256)
     False (sapic_delivery_mode_of (rte_mode r)) (rte_vector r) cpus"
    unfolding rte_send_def Let_def rte_fields(2,3) rte_fields(1) [of r] rte_fields(4) ..
qed

lemma send_routable: "fst (rte_send r cpus) \<longleftrightarrow> routable r cpus"
  unfolding rte_send_fields ia64_sapic_deliver_def routable_def rte_addressed_def
  using delivery_vector_valid(1) [of "sapic_delivery_mode_of (rte_mode r)" False "rte_vector r"]
    lookup_addressed(2) [OF dest_bytes [of r], of cpus]
  by (auto split: option.splits prod.splits)

lemma rte_flags:
  "r AND RTE_TRIGGER_LEVEL = 0 \<longleftrightarrow> \<not> bit r 15" "r AND RTE_MASKED = 0 \<longleftrightarrow> \<not> bit r 16"
  "r AND RTE_REMOTE_IRR = 0 \<longleftrightarrow> \<not> bit r 14"
proof -
  have m: "RTE_TRIGGER_LEVEL = 2 ^ 15" "RTE_MASKED = 2 ^ 16" "RTE_REMOTE_IRR = 2 ^ 14" by simp_all
  show "r AND RTE_TRIGGER_LEVEL = 0 \<longleftrightarrow> \<not> bit r 15" unfolding m by (rule and_exp_eq_0_iff_not_bit)
  show "r AND RTE_MASKED = 0 \<longleftrightarrow> \<not> bit r 16" unfolding m by (rule and_exp_eq_0_iff_not_bit)
  show "r AND RTE_REMOTE_IRR = 0 \<longleftrightarrow> \<not> bit r 14" unfolding m by (rule and_exp_eq_0_iff_not_bit)
qed

text \<open>
  C24: No level interrupt is lost in the I/O SAPIC: in every state the device reaches from reset by input changes, register
  accesses, end-of-interrupt writes, snapshots, resets and steps of the processors that keep their identities, an unmasked
  level-triggered pin whose input is asserted and whose message finds a processor has Remote IRR set, so its message has
  been sent; an edge-triggered pin never has it, and no bit outside the defined fields is ever set.
\<close>

theorem level_interrupt_not_lost:
  assumes "iosapic_reachable (s, cpus)" and "pin < IA64_IOSAPIC_NUM_PINS"
  shows "(irq_level s pin \<and> bit (rte s pin) 15 \<and> \<not> bit (rte s pin) 16 \<and> routable (rte s pin) cpus \<longrightarrow> bit (rte s pin) 14) \<and>
    (\<not> bit (rte s pin) 15 \<longrightarrow> \<not> bit (rte s pin) 14) \<and> rte s pin AND NOT 0xffff00000001e7ff = 0"
proof -
  have p: "pin_ok (s, cpus) pin" using reachable_pins [OF assms(1)] assms(2) by blast
  have m: "RTE_WRITABLE OR RTE_REMOTE_IRR = (0xffff00000001e7ff :: u64)" by simp
  show ?thesis
    using p unfolding pin_ok_def prod.case rte_ok_def level_request_def send_routable rte_flags m not_not by blast
qed

lemma addressed_same_lids: "same_lids cpus cpus' \<Longrightarrow> rte_addressed r cpus' i = rte_addressed r cpus i"
proof -
  assume l: "same_lids cpus cpus'"
  have "ia64_cpu_by_sapic_id (unat r div 2 ^ 56) (unat r div 2 ^ 48 mod 256) c = Some i \<longleftrightarrow> rte_addressed r c i" for c
    unfolding rte_addressed_def by (rule lookup_addressed(1) [OF dest_bytes])
  from this [of cpus'] this [of cpus] show ?thesis unfolding lookup_same_lids [OF l] by simp
qed

lemma send_int:
  assumes mode: "rte_mode r = 0" and v: "rte_vector r = 0 \<or> rte_vector r = 2 \<or> rte_vector r \<ge> 16"
    and i: "rte_addressed r cpus i"
  shows "rte_vector r \<in> vectors_in (sapic_irr (intr (snd (rte_send r cpus) ! i)))"
proof -
  have l: "i < length cpus" using i by (simp add: rte_addressed_def addressed_def)
  have look: "ia64_cpu_by_sapic_id (unat r div 2 ^ 56) (unat r div 2 ^ 48 mod 256) cpus = Some i"
    by (rule lookup_addressed(1) [OF dest_bytes, THEN iffD2]) (rule i [unfolded rte_addressed_def])
  have m: "sapic_delivery_mode_of 0 = IA64_SAPIC_DELIVERY_INT" by (simp add: sapic_delivery_mode_of_def)
  have dv: "sapic_delivery_vector IA64_SAPIC_DELIVERY_INT False (rte_vector r) = Some (False, rte_vector r)"
    using v by (simp add: sapic_delivery_vector_def ia64_external_interrupt_vector_valid_def)
  have "snd (rte_send r cpus) = sapic_deliver_to i IA64_SAPIC_DELIVERY_INT (rte_vector r) cpus"
    unfolding rte_send_fields mode m ia64_sapic_deliver_def dv look by simp
  moreover have "received IA64_SAPIC_DELIVERY_INT (rte_vector r) (cpus ! i)
      (sapic_deliver_to i IA64_SAPIC_DELIVERY_INT (rte_vector r) cpus ! i)"
    using v l dv by (intro deliver_to_received) (simp_all add: rte_vector_def)
  ultimately show ?thesis by simp
qed

lemma vectors_kept:
  assumes "requests_kept cpus cpus'" "i < length cpus" "v \<in> vectors_in (sapic_irr (intr (cpus ! i)))"
  shows "v \<in> vectors_in (sapic_irr (intr (cpus' ! i)))"
  using assms unfolding vectors_in_active active_vectors_def requests_kept_def by blast

text \<open>End of interrupt at one pin.\<close>

lemma vector_match: "rte_vector r = unat v \<Longrightarrow> r AND RTE_VECTOR_MASK = ucast (v :: u8)"
proof -
  assume "rte_vector r = unat v"
  then have "unat (r AND RTE_VECTOR_MASK) = unat (ucast v :: u64)" unfolding rte_fields(1) unat_widen .
  then show ?thesis by (rule word_unat_eq_iff [THEN iffD2])
qed

lemma eoi_pin_asserted:
  assumes "rte_vector (rte s pin) = unat v" "bit (rte s pin) 14" "level_request s pin" "routable (rte s pin) cpus"
  shows "rte (fst (iosapic_eoi_pin v pin (s, cpus))) pin = rte s pin"
    and "snd (iosapic_eoi_pin v pin (s, cpus)) = snd (rte_send (rte s pin) cpus)"
proof -
  let ?r = "rte s pin" and ?s = "set_rte pin (rte s pin AND NOT RTE_REMOTE_IRR) s"
  have v: "?r AND RTE_VECTOR_MASK = ucast v" by (rule vector_match [OF assms(1)])
  have lvl: "?r AND RTE_TRIGGER_LEVEL \<noteq> 0" using assms(3) by (simp add: level_request_def)
  have irr: "?r AND RTE_REMOTE_IRR \<noteq> 0" using assms(2) by (simp only: rte_flags simp_thms)
  have e: "iosapic_eoi_pin v pin (s, cpus) = iosapic_update pin (?s, cpus)"
    unfolding iosapic_eoi_pin_def prod.case v using lvl irr by (simp only: simp_thms if_False)
  obtain s' cpus' where u: "iosapic_update pin (?s, cpus) = (s', cpus')" by (rule prod.exhaust)
  have req: "level_request ?s pin"
    using assms(3) by (simp only: level_request_def set_rte_pin remote_irr_clear(2,3)) (simp add: set_rte_def)
  note r = update_result [OF u, unfolded set_rte_pin remote_irr_clear(1-3,5)]
  have "rte s' pin = (?r AND NOT RTE_REMOTE_IRR) OR RTE_REMOTE_IRR"
    unfolding r(1) using req assms(4) by (simp only: send_routable fun_upd_same simp_thms if_True)
  then show "rte (fst (iosapic_eoi_pin v pin (s, cpus))) pin = ?r" by (simp only: e u fst_conv remote_irr_toggle(2) [OF irr])
  show "snd (iosapic_eoi_pin v pin (s, cpus)) = snd (rte_send ?r cpus)"
    unfolding e u snd_conv r(4) using assms(3) by (simp add: level_request_def set_rte_def)
qed

lemma eoi_pin_released:
  assumes "rte_vector (rte s pin) = unat v" "bit (rte s pin) 15" "\<not> irq_level s pin"
  shows "\<not> bit (rte (fst (iosapic_eoi_pin v pin (s, cpus))) pin) 14"
proof -
  let ?r = "rte s pin" and ?s = "set_rte pin (rte s pin AND NOT RTE_REMOTE_IRR) s"
  have v: "?r AND RTE_VECTOR_MASK = ucast v" by (rule vector_match [OF assms(1)])
  obtain s' cpus' where u: "iosapic_update pin (?s, cpus) = (s', cpus')" by (rule prod.exhaust)
  have "\<not> level_request ?s pin" using assms(3) by (simp add: level_request_def set_rte_def)
  then have "rte s' pin = ?r AND NOT RTE_REMOTE_IRR" using update_result(1) [OF u] by simp
  then have "\<not> bit (rte s' pin) 14" using remote_irr_clear(1) [of ?r] by (simp only: rte_flags simp_thms)
  then show ?thesis
    using assms(2) unfolding iosapic_eoi_pin_def prod.case v rte_flags by (simp only: u fst_conv simp_thms if_False split: if_split)
qed

text \<open>
  C25: End of interrupt completes the handshake of a level-triggered pin.  When the vector of the pin is written to the EOI
  register in a reachable state and the input is still asserted and unmasked, with a fixed-destination entry for a valid
  vector and an existing processor, the vector is requested again at that processor and Remote IRR is set; when the input
  has been released Remote IRR is clear, so that the next assertion sends a new message.
\<close>

theorem eoi_level_handshake:
  assumes reach: "iosapic_reachable (s, cpus)" and pin: "pin < IA64_IOSAPIC_NUM_PINS"
    and eoi: "iosapic_write 0x40 val (s, cpus) = (s', cpus')" and v: "rte_vector (rte s pin) = unat val mod 256"
    and level: "bit (rte s pin) 15"
  shows "(irq_level s pin \<and> \<not> bit (rte s pin) 16 \<and> rte_mode (rte s pin) = 0 \<and>
      message_valid IA64_SAPIC_DELIVERY_INT (rte_vector (rte s pin)) \<and> rte_addressed (rte s pin) cpus i \<longrightarrow>
      rte_vector (rte s pin) \<in> vectors_in (sapic_irr (intr (cpus' ! i))) \<and> bit (rte s' pin) 14) \<and>
    (\<not> irq_level s pin \<longrightarrow> \<not> bit (rte s' pin) 14)"
proof -
  let ?v = "ucast val :: u8" and ?r = "rte s pin"
  have vv: "rte_vector ?r = unat ?v" using v by (simp add: unsigned_ucast_eq take_bit_eq_mod)
  have st': "(s', cpus') = fold (iosapic_eoi_pin ?v) [0..<IA64_IOSAPIC_NUM_PINS] (s, cpus)"
    using eoi by (simp add: iosapic_write_def iosapic_eoi_def)
  obtain st1 st2 where st: "rte (fst st1) pin = rte (fst (s, cpus)) pin" "irq_level (fst st1) pin = irq_level (fst (s, cpus)) pin"
      "same_lids (snd (s, cpus)) (snd st1)" "st2 = iosapic_eoi_pin ?v pin st1"
      "rte (fst (fold (iosapic_eoi_pin ?v) [0..<IA64_IOSAPIC_NUM_PINS] (s, cpus))) pin = rte (fst st2) pin"
      "requests_kept (snd st2) (snd (fold (iosapic_eoi_pin ?v) [0..<IA64_IOSAPIC_NUM_PINS] (s, cpus)))"
    by (rule eoi_op.sweep_at [OF pin, where st = "(s, cpus)" and vector = ?v])
  obtain s1 cpus1 where st1: "st1 = (s1, cpus1)" by (rule prod.exhaust)
  note at = st [unfolded st1 st' [symmetric] fst_conv snd_conv]
  have "rte_vector ?r \<in> vectors_in (sapic_irr (intr (cpus' ! i))) \<and> bit (rte s' pin) 14"
    if c: "irq_level s pin" "\<not> bit ?r 16" "rte_mode ?r = 0" "message_valid IA64_SAPIC_DELIVERY_INT (rte_vector ?r)"
      "rte_addressed ?r cpus i"
  proof -
    have m: "sapic_delivery_mode_of (rte_mode ?r) = IA64_SAPIC_DELIVERY_INT" using c(3) by (simp add: sapic_delivery_mode_of_def)
    have adr: "rte_addressed ?r cpus1 i" using c(5) addressed_same_lids [OF at(3)] by blast
    have rt: "routable ?r cpus" "routable ?r cpus1" unfolding routable_def m using c(4,5) adr by blast+
    have "level_request s pin" "level_request s1 pin"
      using c(1,2) level at(1,2) unfolding level_request_def rte_flags by simp_all
    moreover have "bit ?r 14"
      using reachable_pins [OF reach] pin calculation(1) rt(1) unfolding pin_ok_def prod.case send_routable rte_flags by blast
    ultimately have e: "rte (fst st2) pin = ?r" "snd st2 = snd (rte_send ?r cpus1)"
      using eoi_pin_asserted [of s1 pin ?v cpus1] vv rt(2) unfolding at(1,4) by simp_all
    have "rte_vector ?r \<in> vectors_in (sapic_irr (intr (snd st2 ! i)))"
      unfolding e(2) by (rule send_int [OF c(3) _ adr]) (use c(4) in simp)
    moreover have "i < length (snd st2)"
      using adr send_kept(1) [of ?r cpus1 "fst (rte_send ?r cpus1)" "snd (rte_send ?r cpus1)"]
      unfolding e(2) same_lids_def rte_addressed_def addressed_def by simp
    ultimately show ?thesis using vectors_kept [OF at(6)] \<open>bit ?r 14\<close> unfolding at(5) e(1) by blast
  qed
  moreover have "\<not> bit (rte s' pin) 14" if "\<not> irq_level s pin"
    unfolding at(4,5) by (rule eoi_pin_released) (use vv level that at(1,2) in simp_all)
  ultimately show ?thesis by blast
qed

section \<open>A level interrupt taken and ended\<close>

text \<open>Pin 3 is routed, level-triggered, to processor 0 with vector 48, and its input is asserted.\<close>

definition one_cpu :: "env list" where
  "one_cpu = [env_zero False (\<lambda>_. 0)]"

definition routed_system :: iosapic_system where
  "routed_system = iosapic_write 0x10 0x8030 (iosapic_write 0 0x16 (iosapic_reset, one_cpu))"

definition asserted_system :: iosapic_system where
  "asserted_system = iosapic_irq_handler 3 True routed_system"

lemma asserted_reachable: "iosapic_reachable asserted_system"
proof -
  have "iosapic_reachable (iosapic_write 0 0x16 (iosapic_reset, one_cpu))"
    by (rule iosapic_reachable.step [OF iosapic_reachable.initial]) (rule iosapic_step.register_write)
  then have "iosapic_reachable routed_system"
    unfolding routed_system_def by (rule iosapic_reachable.step) (rule iosapic_step.register_write)
  then show ?thesis unfolding asserted_system_def by (rule iosapic_reachable.step) (rule iosapic_step.input_line)
qed

lemma one_cpu_addressed: "addressed one_cpu 0 0 i \<longleftrightarrow> i = 0"
  by (auto simp: addressed_def one_cpu_def lid_id_def lid_eid_def env_zero_def)

lemma routed_system_eq:
  "routed_system = (iosapic_reset\<lparr>reg_select := 0x16, rte := (rte iosapic_reset)(3 := 0x8030)\<rparr>, one_cpu)"
  by (simp add: routed_system_def iosapic_write_def iosapic_rte_write_def iosapic_fix_edge_remote_irr_def iosapic_update_def
      set_rte_def iosapic_reset_def Let_def)

lemma asserted_state:
  obtains s cpus where "asserted_system = (s, cpus)" "irq_level s 3" "bit (rte s 3) 15" "\<not> bit (rte s 3) 16"
    "rte_vector (rte s 3) = 48" "rte_mode (rte s 3) = 0" "rte_addressed (rte s 3) cpus 0"
proof -
  let ?s = "(iosapic_reset\<lparr>reg_select := 0x16, rte := (rte iosapic_reset)(3 := 0x8030)\<rparr>)\<lparr>irq_level :=
    (irq_level iosapic_reset)(3 := True)\<rparr>"
  obtain s cpus where st: "asserted_system = (s, cpus)" by (rule prod.exhaust)
  have u: "iosapic_update 3 (?s, one_cpu) = (s, cpus)"
    using st unfolding asserted_system_def routed_system_eq by (simp add: iosapic_irq_handler_def Let_def)
  note r = update_result [OF u]
  have rv: "rte s 3 = 0x8030 \<or> rte s 3 = 0xC030" unfolding r(1) by simp
  have lids: "same_lids one_cpu cpus" using update_only [of 3 "(?s, one_cpu)"] by (simp add: only_pin_def u)
  have "addressed one_cpu 0 0 0" by (simp add: one_cpu_addressed)
  then have "rte_addressed (rte s 3) one_cpu 0" using rv by (auto simp: rte_addressed_def)
  then have "rte_addressed (rte s 3) cpus 0" using addressed_same_lids [OF lids] by blast
  moreover have "irq_level s 3" unfolding r(2) by simp
  moreover have "bit (rte s 3) 15 \<and> \<not> bit (rte s 3) 16 \<and> rte_vector (rte s 3) = 48 \<and> rte_mode (rte s 3) = 0"
    using rv by (auto simp: rte_vector_def rte_mode_def bit_iff_odd)
  ultimately show thesis using that st by blast
qed

theorem level_interrupt_not_lost_witness: "bit (rte (fst asserted_system) 3) 14"
proof -
  obtain s cpus where a: "asserted_system = (s, cpus)" "irq_level s 3" "bit (rte s 3) 15" "\<not> bit (rte s 3) 16"
    "rte_vector (rte s 3) = 48" "rte_mode (rte s 3) = 0" "rte_addressed (rte s 3) cpus 0" by (rule asserted_state)
  have "routable (rte s 3) cpus"
    using a(7) unfolding routable_def a(5,6) by (auto simp: sapic_delivery_mode_of_def)
  with level_interrupt_not_lost [OF asserted_reachable [unfolded a(1)], of 3] a(2-4)
  show ?thesis unfolding a(1) fst_conv by simp
qed

theorem eoi_level_handshake_witness:
  "48 \<in> vectors_in (sapic_irr (intr (snd (iosapic_write 0x40 0x30 asserted_system) ! 0)))"
proof -
  obtain s cpus where a: "asserted_system = (s, cpus)" "irq_level s 3" "bit (rte s 3) 15" "\<not> bit (rte s 3) 16"
    "rte_vector (rte s 3) = 48" "rte_mode (rte s 3) = 0" "rte_addressed (rte s 3) cpus 0" by (rule asserted_state)
  have w: "iosapic_write 0x40 0x30 (s, cpus) = (fst (iosapic_write 0x40 0x30 (s, cpus)), snd (iosapic_write 0x40 0x30 (s, cpus)))"
    by (rule surjective_pairing)
  show ?thesis
    using eoi_level_handshake [OF asserted_reachable [unfolded a(1)] _ w _ a(3), of 0] a(2,4-7) unfolding a(1) by simp
qed

end
