(* ===== verification/Reset.thy ===== *)
theory Reset
  imports Rse_Stack
begin

text \<open>
  Processor reset of \<^verbatim>\<open>target/ia64/cpu.c\<close> and the hand-off to firmware.  Reset clears the processor state, so it is a
  function of what survives it: the store sequence of the ALAT, which the other processors sample, and memory.  The
  floating-point status of the softfloat library, the PAL feature words and the addresses of the PAL blocks have no field here.
\<close>

section \<open>Reset\<close>

record boot_info =
  firmware_entry :: u64
  global_pointer :: u64
  iva :: u64
  bsp :: u64
  stack_pointer :: u64
  rsc :: u64
  firmware_arg0 :: u64
  firmware_arg1 :: u64
  firmware_arg2 :: u64
  io_port_base :: u64
  powered_off :: bool
  firmware_args_valid :: bool
  platform_addresses_valid :: bool

definition ia64_cpu_default_io_block_pa :: "cpu_class \<Rightarrow> u64" where
  "ia64_cpu_default_io_block_pa c = push_bit (phys_addr_bits c) 1 - push_bit 20 64"

text \<open>\<^verbatim>\<open>boot_info_valid && boot_info_pending\<close> is the presence of the argument.\<close>

definition ia64_cpu_apply_boot_info :: "cpu_class \<Rightarrow> boot_info option \<Rightarrow> env \<Rightarrow> env" where
  "ia64_cpu_apply_boot_info c info e =
     (case info of
        None \<Rightarrow> e
      | Some info \<Rightarrow>
          let e1 = ia64_cpu_set_boot_handoff_rse e;
              args = (if firmware_args_valid info
                      then (\<lambda>g. g(8 := firmware_arg0 info, 9 := firmware_arg1 info, 10 := firmware_arg2 info)) else id)
          in e1\<lparr>psr := 0, ip := firmware_entry info, br := (br e1)(0 := firmware_entry info),
                cr := (cr e1)(2 := iva info, 8 := push_bit 2 15, 0 := push_bit 8 1 OR push_bit 9 1),
                ar := (ar e1)(0 := (if platform_addresses_valid info then io_port_base info
                                    else ia64_cpu_default_io_block_pa c), 7 := 0, 40 := 0x0009804c0270033f),
                ar_rsc := rsc info, ar_bsp := bsp info, ar_bspstore := bsp info,
                rnat := ia64_rse_rnat_undefined ((rnat e1)\<lparr>ar_rnat := 0\<rparr>),
                gr := args ((gr e1)(12 := stack_pointer info, 1 := global_pointer info)),
                intr := (intr e1)\<lparr>pal_halt_wake := powered_off info\<rparr>\<rparr>)"

text \<open>
  \<^verbatim>\<open>ia64_cpu_reset_hold\<close> of the processor with index \<open>index\<close>, after \<^verbatim>\<open>cpu_common_reset_hold\<close>, which withdraws the
  interrupt request and halts a processor that starts powered off: the registers it sets, and the whole.  A store in
  flight fails the assertion.
\<close>

definition reset_registers :: "cpu_class \<Rightarrow> int \<Rightarrow> nat \<Rightarrow> bool \<Rightarrow> bool \<Rightarrow> env \<Rightarrow> env" where
  "reset_registers c now index start_powered_off full old =
     (let e = (env_zero full (mem old))\<lparr>alat_write_sequence := alat_write_sequence old, halted := start_powered_off\<rparr>;
          e1 = e\<lparr>fp := (fp e)\<lparr>fr := (fr (fp e))(1 := 0x3ff0000000000000)\<rparr>, pr := (pr e)(0 := 1), psr := 0, ar_rsc := 0\<rparr>;
          e2 = ia64_cpu_set_architectural_reset_rse e1;
          e3 = e2\<lparr>rnat := ia64_rse_rnat_undefined (rnat e2), ar := (ar e2)(40 := 0x0009804c0270033f),
                  cr := (cr e2)(2 := 0), instruction_group_start := True\<rparr>;
          e4 = ia64_itc_write now 0 e3;
          e5 = e4\<lparr>cr := (cr e4)(IA64_CR_SAPIC_LID := ia64_sapic_lid (index mod 256) 0, IA64_CR_SAPIC_TPR := 0,
                          IA64_CR_ITV := 0x10000, 73 := 0x10000, 74 := 0x10000),
                  intr := (intr e4)\<lparr>sapic_xtp := 0x80\<rparr>\<rparr>
      in if model c = IA64_CPU_MODEL_MERCED
         then e5\<lparr>pmc := (pmc e5)(8 := 0xf00000003ffffff8, 9 := 0xf00000003ffffff8, 11 := push_bit 28 1, 13 := 1)\<rparr>
         else e5)"

definition ia64_cpu_reset_hold :: "cpu_class \<Rightarrow> int \<Rightarrow> nat \<Rightarrow> bool \<Rightarrow> bool \<Rightarrow> boot_info option \<Rightarrow> env \<Rightarrow> env option" where
  "ia64_cpu_reset_hold c now index start_powered_off full info old =
     (if write_active (alat_st old) then None
      else Some (ia64_cpu_apply_boot_info c info (reset_registers c now index start_powered_off full old)))"

section \<open>The state after reset\<close>

lemma rnat_undefined_zero: "rnat_ok (ia64_rse_rnat_undefined rnat_state_zero)"
  by (simp add: rnat_ok_def shadow_ok_def ia64_rse_rnat_undefined_def ia64_rse_rnat_detach_def
      ia64_rse_rnat_shadow_clear_all_def ia64_rse_invalidate_load_rnat_def ia64_rse_rnat_writeback_clear_def rnat_state_zero_def)

lemma env_zero_fields:
  "gr (env_zero full m) = (\<lambda>_. 0)" "nat_bits (env_zero full m) = (0, 0)" "ar_bsp (env_zero full m) = 0"
  "ar_bspstore (env_zero full m) = 0" "rse_gr_dirty (env_zero full m) = (0, 0)" "rse_pgr (env_zero full m) = (\<lambda>_. 0)"
  "rse_pgr_nat (env_zero full m) = (0, 0)" "rnat (env_zero full m) = rnat_state_zero" "alat_st (env_zero full m) = alat_reset full"
  "interrupt_hard (env_zero full m) = False" "pkr (env_zero full m) = (\<lambda>_. 0)" "intr (env_zero full m) = interrupt_state_zero"
  "mem (env_zero full m) = m" "pal_mca_pending (env_zero full m) = False"
  by (simp_all add: env_zero_def)

lemma itc_write_fields:
  "gr (ia64_itc_write now v e) = gr e" "nat_bits (ia64_itc_write now v e) = nat_bits e"
  "ar_bsp (ia64_itc_write now v e) = ar_bsp e" "ar_bspstore (ia64_itc_write now v e) = ar_bspstore e"
  "rse_gr_dirty (ia64_itc_write now v e) = rse_gr_dirty e" "rse_pgr (ia64_itc_write now v e) = rse_pgr e"
  "rse_pgr_nat (ia64_itc_write now v e) = rse_pgr_nat e" "rnat (ia64_itc_write now v e) = rnat e"
  "alat_st (ia64_itc_write now v e) = alat_st e" "alat_write_sequence (ia64_itc_write now v e) = alat_write_sequence e"
  "interrupt_hard (ia64_itc_write now v e) = interrupt_hard e" "pkr (ia64_itc_write now v e) = pkr e"
  "mem (ia64_itc_write now v e) = mem e" "pal_mca_pending (ia64_itc_write now v e) = pal_mca_pending e"
  "cfm_sof (ia64_itc_write now v e) = cfm_sof e" "cfm_sol (ia64_itc_write now v e) = cfm_sol e"
  "cfm_sor (ia64_itc_write now v e) = cfm_sor e" "cfm_rrb_gr (ia64_itc_write now v e) = cfm_rrb_gr e"
  "cfm_rrb_fr (ia64_itc_write now v e) = cfm_rrb_fr e" "rse_bol (ia64_itc_write now v e) = rse_bol e"
  "rse_dirty (ia64_itc_write now v e) = rse_dirty e" "rse_dirty_nat (ia64_itc_write now v e) = rse_dirty_nat e"
  "rse_clean (ia64_itc_write now v e) = rse_clean e" "rse_clean_nat (ia64_itc_write now v e) = rse_clean_nat e"
  "rse_invalid (ia64_itc_write now v e) = rse_invalid e"
  "sapic_irr (intr (ia64_itc_write now v e)) = sapic_irr (intr e)"
  "sapic_init_pending (intr (ia64_itc_write now v e)) = sapic_init_pending (intr e)"
  "sapic_pmi_pending (intr (ia64_itc_write now v e)) = sapic_pmi_pending (intr e)"
  by (simp_all add: ia64_itc_write_def)

lemma reset_rse_fields:
  "gr (ia64_cpu_set_architectural_reset_rse e) = gr e" "nat_bits (ia64_cpu_set_architectural_reset_rse e) = nat_bits e"
  "ar_bsp (ia64_cpu_set_architectural_reset_rse e) = ar_bsp e"
  "ar_bspstore (ia64_cpu_set_architectural_reset_rse e) = ar_bspstore e"
  "rse_gr_dirty (ia64_cpu_set_architectural_reset_rse e) = rse_gr_dirty e"
  "rse_pgr (ia64_cpu_set_architectural_reset_rse e) = rse_pgr e"
  "rse_pgr_nat (ia64_cpu_set_architectural_reset_rse e) = rse_pgr_nat e"
  "rnat (ia64_cpu_set_architectural_reset_rse e) = rnat e" "alat_st (ia64_cpu_set_architectural_reset_rse e) = alat_st e"
  "alat_write_sequence (ia64_cpu_set_architectural_reset_rse e) = alat_write_sequence e"
  "interrupt_hard (ia64_cpu_set_architectural_reset_rse e) = interrupt_hard e"
  "pkr (ia64_cpu_set_architectural_reset_rse e) = pkr e" "mem (ia64_cpu_set_architectural_reset_rse e) = mem e"
  "pal_mca_pending (ia64_cpu_set_architectural_reset_rse e) = pal_mca_pending e"
  "intr (ia64_cpu_set_architectural_reset_rse e) = intr e"
  "cfm_sof (ia64_cpu_set_architectural_reset_rse e) = 96" "cfm_sol (ia64_cpu_set_architectural_reset_rse e) = 0"
  "cfm_sor (ia64_cpu_set_architectural_reset_rse e) = 0" "cfm_rrb_gr (ia64_cpu_set_architectural_reset_rse e) = 0"
  "cfm_rrb_fr (ia64_cpu_set_architectural_reset_rse e) = 0" "rse_bol (ia64_cpu_set_architectural_reset_rse e) = 0"
  "rse_dirty (ia64_cpu_set_architectural_reset_rse e) = 0" "rse_dirty_nat (ia64_cpu_set_architectural_reset_rse e) = 0"
  "rse_clean (ia64_cpu_set_architectural_reset_rse e) = 0" "rse_clean_nat (ia64_cpu_set_architectural_reset_rse e) = 0"
  "rse_invalid (ia64_cpu_set_architectural_reset_rse e) = 0"
  by (simp_all add: ia64_cpu_set_architectural_reset_rse_def)

lemmas reset_defs = reset_registers_def itc_write_fields reset_rse_fields env_zero_fields Let_def

lemma reset_registers_frame:
  fixes c now index off full old
  defines "e \<equiv> reset_registers c now index off full old"
  shows "cfm_sof e = 96" "cfm_sol e = 0" "cfm_sor e = 0" "cfm_rrb_gr e = 0" "cfm_rrb_fr e = 0" "rse_bol e = 0"
    "rse_dirty e = 0" "rse_dirty_nat e = 0" "rse_clean e = 0" "rse_clean_nat e = 0" "rse_invalid e = 0"
    "ar_bspstore e = 0" "ar_bsp e = 0" "rse_gr_dirty e = (0, 0)" "rse_pgr e = (\<lambda>_. 0)" "rse_pgr_nat e = (0, 0)"
    "nat_bits e = (0, 0)" "gr e = (\<lambda>_. 0)"
  by (simp_all add: e_def reset_defs)

lemma reset_registers_others:
  fixes c now index off full old
  defines "e \<equiv> reset_registers c now index off full old"
  shows "rnat e = ia64_rse_rnat_undefined rnat_state_zero" "alat_st e = alat_reset full"
    "alat_write_sequence e = alat_write_sequence old" "interrupt_hard e = False" "pkr e = (\<lambda>_. 0)"
    "sapic_irr (intr e) = (\<lambda>_. 0)" "mem e = mem old"
    "pal_mca_pending e = False" "sapic_init_pending (intr e) = False" "sapic_pmi_pending (intr e) = 0"
  by (simp_all add: e_def reset_defs interrupt_state_zero_def)

lemma boot_info_frame:
  assumes "f = ia64_cpu_apply_boot_info c (Some i) e"
  shows "cfm_sof f = 0" "cfm_sol f = 0" "cfm_sor f = 0" "cfm_rrb_gr f = 0" "cfm_rrb_fr f = 0" "rse_bol f = 0"
    "rse_dirty f = 0" "rse_dirty_nat f = 0" "rse_clean f = 0" "rse_clean_nat f = 0" "rse_invalid f = 96"
    "ar_bspstore f = bsp i" "ar_bsp f = bsp i"
  unfolding assms by (simp_all add: ia64_cpu_apply_boot_info_def ia64_cpu_set_boot_handoff_rse_def Let_def)

lemma boot_info_others:
  assumes "f = ia64_cpu_apply_boot_info c (Some i) e"
  shows "rnat f = ia64_rse_rnat_undefined ((rnat e)\<lparr>ar_rnat := 0\<rparr>)" "alat_st f = alat_st e"
    "alat_write_sequence f = alat_write_sequence e" "interrupt_hard f = interrupt_hard e" "pkr f = pkr e"
    "sapic_irr (intr f) = sapic_irr (intr e)" "mem f = mem e"
    "pal_mca_pending f = pal_mca_pending e" "sapic_init_pending (intr f) = sapic_init_pending (intr e)"
    "sapic_pmi_pending (intr f) = sapic_pmi_pending (intr e)"
  unfolding assms by (simp_all add: ia64_cpu_apply_boot_info_def ia64_cpu_set_boot_handoff_rse_def Let_def)

text \<open>An empty stack is well formed wherever the backing store begins.\<close>

lemma empty_stack_good:
  assumes p: "rse_dirty e = 0" "rse_dirty_nat e = 0" "rse_clean e = 0" "rse_clean_nat e = 0" "ar_bspstore e = ar_bsp e"
    and f: "frame_ok e" "frame_coherent e" "rnat_bit (ar_bsp e) < 63" "int (cfm_sof e) + rse_invalid e = 96" "0 \<le> rse_invalid e"
  shows "rse_good e"
proof -
  have "0 \<le> rnat_bit (ar_bsp e)" by (simp add: rnat_bit_def)
  then have "(63 - rnat_bit (ar_bsp e)) div 64 = 0" using f(3) by (intro div_pos_pos_trivial) linarith+
  then have "rnat_slots (rnat_bit (ar_bsp e)) 0 = 0" by (simp add: rnat_slots_def)
  then have "rse_inv e" using p f by (simp add: rse_inv_def dirty_words_def live_words_def)
  moreover have "clean_coherent e" by (auto simp: clean_coherent_def p)
  ultimately show ?thesis using f(2) by (simp add: rse_good_def)
qed

lemma reset_rse_good:
  assumes "\<forall>i. info = Some i \<longrightarrow> rnat_bit (bsp i) < 63"
  shows "rse_good (ia64_cpu_apply_boot_info c info (reset_registers c now index off full old))"
proof (cases info)
  case None
  let ?e = "reset_registers c now index off full old"
  have "ia64_cpu_apply_boot_info c info ?e = ?e" by (simp add: None ia64_cpu_apply_boot_info_def)
  moreover have "frame_coherent ?e" by (simp add: frame_coherent_def reset_registers_frame bits2_get_def)
  moreover have "rnat_bit 0 < 63" by (simp add: rnat_bit_def)
  ultimately show ?thesis
    by (simp only:) (rule empty_stack_good, simp_all add: reset_registers_frame frame_ok_def ia64_cfm_frame_fields_valid_def)
next
  case (Some i)
  define f where "f = ia64_cpu_apply_boot_info c (Some i) (reset_registers c now index off full old)"
  note b = boot_info_frame [OF f_def]
  have "frame_coherent f" by (simp add: frame_coherent_def b)
  moreover have "rnat_bit (bsp i) < 63" using assms Some by blast
  ultimately have "rse_good f"
    by (intro empty_stack_good) (simp_all add: b frame_ok_def ia64_cfm_frame_fields_valid_def)
  then show ?thesis by (simp add: f_def Some)
qed

lemma idle_not_deliverable: "sapic_irr (intr e) = (\<lambda>_. 0) \<Longrightarrow> \<not> deliverable e v"
  by (simp add: deliverable_def vectors_in_def)

text \<open>
  C32: A reset in which no store is in flight establishes every invariant that the operations then keep, with or without a
  hand-off to firmware whose backing store does not begin on a collection word: the register stack engine is well formed with
  a frame of all 96 stacked registers, or an empty one at the hand-off; the NaT collection state is well formed; the ALAT is
  empty and keeps its store sequence, as other processors may hold samples of it; no protection key is valid twice; no
  interrupt is requested and none can be taken.
\<close>

theorem reset_invariants:
  assumes idle: "\<not> write_active (alat_st old)" and inv: "alat_inv (alat_st old, alat_write_sequence old)"
    and start: "\<forall>i. info = Some i \<longrightarrow> rnat_bit (bsp i) < 63"
  shows "\<exists>f. ia64_cpu_reset_hold c now index off full info old = Some f \<and>
    rse_good f \<and> cfm_sof f = (if info = None then 96 else 0) \<and> rnat_ok (rnat f) \<and>
    alat_inv (alat_st f, alat_write_sequence f) \<and> alat_map (alat_st f) = Map.empty \<and>
    alat_write_sequence f = alat_write_sequence old \<and> pkr_unique c f \<and>
    \<not> interrupt_hard f \<and> \<not> sapic_special f \<and> (\<nexists>v. deliverable f v)"
proof -
  let ?e = "reset_registers c now index off full old"
  define f where "f = ia64_cpu_apply_boot_info c info ?e"
  have hold: "ia64_cpu_reset_hold c now index off full info old = Some f"
    using idle by (simp add: ia64_cpu_reset_hold_def f_def)
  have sof: "cfm_sof f = (if info = None then 96 else 0)"
    by (cases info) (simp_all add: f_def boot_info_frame(1) [OF refl] reset_registers_frame(1), simp add: ia64_cpu_apply_boot_info_def reset_registers_frame(1))
  have same: "alat_st f = alat_reset full" "alat_write_sequence f = alat_write_sequence old" "interrupt_hard f = False"
    "pkr f = (\<lambda>_. 0)" "sapic_irr (intr f) = (\<lambda>_. 0)" "pal_mca_pending f = False" "sapic_init_pending (intr f) = False"
    "sapic_pmi_pending (intr f) = 0"
  proof -
    have n: "info = None \<Longrightarrow> f = ?e" by (simp add: f_def ia64_cpu_apply_boot_info_def)
    have s: "\<And>i. info = Some i \<Longrightarrow> f = ia64_cpu_apply_boot_info c (Some i) ?e" by (simp add: f_def)
    show "alat_st f = alat_reset full" "alat_write_sequence f = alat_write_sequence old" "interrupt_hard f = False"
      "pkr f = (\<lambda>_. 0)" "sapic_irr (intr f) = (\<lambda>_. 0)" "pal_mca_pending f = False" "sapic_init_pending (intr f) = False"
      "sapic_pmi_pending (intr f) = 0"
      by (cases info; simp only: n reset_registers_others boot_info_others [OF s])+
  qed
  have "rnat_ok (rnat f)"
  proof (cases info)
    case None
    then show ?thesis
      by (simp only: f_def ia64_cpu_apply_boot_info_def option.case reset_registers_others(1) rnat_undefined_zero)
  next
    case (Some i)
    then have "rnat f = ia64_rse_rnat_undefined ((rnat ?e)\<lparr>ar_rnat := 0\<rparr>)" by (simp only: f_def boot_info_others(1) [OF refl])
    then show ?thesis
      by (simp add: reset_registers_others(1) rnat_ok_def shadow_ok_def ia64_rse_rnat_undefined_def ia64_rse_rnat_detach_def
          ia64_rse_rnat_shadow_clear_all_def ia64_rse_invalidate_load_rnat_def ia64_rse_rnat_writeback_clear_def rnat_state_zero_def)
  qed
  moreover have "alat_inv (alat_st f, alat_write_sequence f)"
    using inv idle alat_inv_reset [of full] unfolding same(1,2) by (simp add: alat_inv_def alat_reset_def)
  moreover have "alat_map (alat_st f) = Map.empty" unfolding same(1) by (simp add: fun_eq_iff alat_map_def alat_reset_def)
  moreover have "pkr_unique c f" by (simp add: pkr_unique_def same(4))
  moreover have "\<not> sapic_special f" by (simp add: sapic_special_def same(6-8))
  moreover have "\<nexists>v. deliverable f v" using idle_not_deliverable [OF same(5)] by blast
  moreover have "rse_good f" unfolding f_def by (rule reset_rse_good [OF start])
  ultimately show ?thesis using hold sof same(2,3) by blast
qed

theorem reset_invariants_witness:
  "\<exists>f. ia64_cpu_reset_hold ia64_cpu_model_madison 0 1 False True
      (Some \<lparr>firmware_entry = 0x100000, global_pointer = 0, iva = 0x8000, bsp = 0x200000, stack_pointer = 0x300000, rsc = 0,
        firmware_arg0 = 0, firmware_arg1 = 0, firmware_arg2 = 0, io_port_base = 0, powered_off = False,
        firmware_args_valid = False, platform_addresses_valid = False\<rparr>) (env_zero True (\<lambda>_. 0)) = Some f \<and>
    rse_good f \<and> cfm_sof f = 0"
proof -
  let ?i = "\<lparr>firmware_entry = 0x100000, global_pointer = 0, iva = 0x8000, bsp = 0x200000, stack_pointer = 0x300000, rsc = 0,
        firmware_arg0 = 0, firmware_arg1 = 0, firmware_arg2 = 0, io_port_base = 0, powered_off = False,
        firmware_args_valid = False, platform_addresses_valid = False\<rparr>"
  have "\<not> write_active (alat_st (env_zero True (\<lambda>_. 0)))" by (simp add: env_zero_def alat_reset_def)
  moreover have "alat_inv (alat_st (env_zero True (\<lambda>_. 0)), alat_write_sequence (env_zero True (\<lambda>_. 0)))"
    using alat_inv_reset by (simp add: env_zero_def)
  moreover have "\<forall>i. Some ?i = Some i \<longrightarrow> rnat_bit (bsp i) < 63" by (auto simp: rnat_bit_def)
  ultimately show ?thesis
    using reset_invariants [of "env_zero True (\<lambda>_. 0)" "Some ?i" ia64_cpu_model_madison 0 1 False True] by auto
qed

end
